(* ===== verification/NetPrelude.thy ===== *)
theory NetPrelude
  imports Main "HOL-Library.Word"
begin

text \<open>
  The vocabulary every other theory shares: the C data types of the sources (bytes as
  \<open>char\<close>, machine words), the C string functions they call, fixed-size character
  arrays with bounds-checked stores, byte order, and the collections of hints the component
  proofs use. The target is the ILP32 little-endian machine the sources were written for
  (an i386 host and the ARM board): \<open>int\<close> and \<open>long\<close> have 32 bits.
\<close>

named_theorems cdefs \<open>definitions of the modelled C functions, for unfolding\<close>
named_theorems wp_simps \<open>predicate-transformer equations of the process monad\<close>

unbundle bit_operations_syntax

type_synonym u8 = "8 word"
type_synonym u16 = "16 word"
type_synonym u32 = "32 word"
type_synonym fd = int

section \<open>C strings and character arrays\<close>

abbreviation NUL :: char where
  "NUL \<equiv> CHR 0x00"

text \<open>
  A C string stored in a character array is what stands before the first NUL; without a NUL
  the string functions run off the array.
\<close>

definition c_str :: "string \<Rightarrow> string" where
  "c_str buf = takeWhile (\<lambda>c. c \<noteq> NUL) buf"

definition terminated :: "string \<Rightarrow> bool" where
  "terminated buf \<longleftrightarrow> NUL \<in> set buf"

text \<open>What a system call that delivers \<open>d\<close> at offset \<open>off\<close> leaves in the array.\<close>

definition overlay :: "string \<Rightarrow> nat \<Rightarrow> string \<Rightarrow> string" where
  "overlay buf off d = take off buf @ d @ drop (off + length d) buf"

lemma length_overlay [simp]:
  "off + length d \<le> length buf \<Longrightarrow> length (overlay buf off d) = length buf"
  by (simp add: overlay_def)

lemma overlay_Nil [simp]: "overlay buf off [] = buf"
  by (simp add: overlay_def)

lemma take_overlay:
  "off + length d \<le> length buf \<Longrightarrow> take (off + length d) (overlay buf off d) = take off buf @ d"
  by (simp add: overlay_def)

lemma take_overlay_0: "length d \<le> length buf \<Longrightarrow> take (length d) (overlay buf 0 d) = d"
  by (simp add: overlay_def)

lemma overlay_snoc:
  "off \<le> length buf \<Longrightarrow> overlay (overlay buf off d) (off + length d) e = overlay buf off (d @ e)"
  by (simp add: overlay_def ac_simps)

text \<open>
  Terminating the array right after the delivered bytes makes it hold exactly those bytes as a
  C string, if they contain no NUL.
\<close>

lemma c_str_update:
  assumes "n < length buf" and "NUL \<notin> set (take n buf)"
  shows "c_str (buf[n := NUL]) = take n buf"
proof -
  have "buf[n := NUL] = take n buf @ NUL # drop (Suc n) buf"
    using assms(1) by (simp add: upd_conv_take_nth_drop)
  then show ?thesis
    using assms(2) by (auto simp: c_str_def takeWhile_append)
qed

lemma terminated_update: "n < length buf \<Longrightarrow> terminated (buf[n := NUL])"
  by (simp add: terminated_def set_update_memI)

lemma c_str_overlay_update:
  assumes "length d < length buf" and "NUL \<notin> set d"
  shows "c_str ((overlay buf 0 d)[length d := NUL]) = d"
proof -
  have "take (length d) (overlay buf 0 d) = d"
    by (simp add: overlay_def)
  with c_str_update [of "length d" "overlay buf 0 d"] assms show ?thesis
    by simp
qed

text \<open>\<open>strncmp(a, b, n) == 0\<close>: equal up to \<open>n\<close> characters or a common terminator.\<close>

fun strncmp_eq :: "string \<Rightarrow> string \<Rightarrow> nat \<Rightarrow> bool" where
  "strncmp_eq xs ys 0 = True"
| "strncmp_eq (x # xs) (y # ys) (Suc n) =
     (if x \<noteq> y then False else if x = NUL then True else strncmp_eq xs ys n)"
| "strncmp_eq _ _ (Suc n) = False"

lemma strncmp_eq_take:
  "NUL \<notin> set (take n ys) \<Longrightarrow> n \<le> length ys \<Longrightarrow> strncmp_eq xs ys n \<longleftrightarrow> take n xs = take n ys"
  by (induction xs ys n rule: strncmp_eq.induct) auto

section \<open>Byte order\<close>

text \<open>\<open>htons\<close> and \<open>ntohs\<close> swap the two bytes on a little-endian host.\<close>

definition htons :: "u16 \<Rightarrow> u16" where
  "htons w = push_bit 8 w OR drop_bit 8 w"

abbreviation ntohs :: "u16 \<Rightarrow> u16" where
  "ntohs \<equiv> htons"

lemma bit_htons:
  "bit (htons w) i \<longleftrightarrow> (i < 8 \<and> bit w (i + 8)) \<or> (8 \<le> i \<and> i < 16 \<and> bit w (i - 8))"
  by (auto simp: htons_def bit_simps add.commute dest: bit_imp_le_length)

lemma htons_htons [simp]: "htons (htons w) = w"
  by (rule bit_word_eqI) (auto simp: bit_htons)

lemma htons_inj [simp]: "htons a = htons b \<longleftrightarrow> a = b"
  by (metis htons_htons)

end
