(* ===== verification/Process.thy ===== *)
theory Process
  imports NetPrelude
begin

text \<open>
  A user process of the repository as a state-passing program. The operating system is the
  environment: every system call whose result or completion the code depends on consumes the
  next entry of a script of replies, and every call is logged with its arguments in the trace.
  A script is arbitrary, so a statement about all scripts is a statement about everything the
  kernel may answer; a script that runs out is a process blocked in its last call. What the
  standard leaves undefined (a store outside an array, a string function run off its array) is
  the abnormal outcome \<open>Fault\<close>.
\<close>

section \<open>Calls, replies and the state of a process\<close>

record sockaddr_in =
  sin_family :: int
  sin_port :: u16
  sin_addr :: u32

datatype arg = I int | S string | C char

datatype call =
    Socket int int int
  | Sockopt fd int int
  | Bind fd sockaddr_in
  | Listen fd int
  | Accept fd
  | Connect fd sockaddr_in
  | Read fd nat
  | Recv fd nat bool
  | RecvFrom fd nat
  | Write fd string
  | Send fd string
  | SendTo fd string sockaddr_in
  | Close fd
  | Select int "fd list"
  | Open string
  | OpenDir string
  | ReadDir
  | FOpen string string
  | FWrite string string
  | FRead nat
  | Access string
  | Fork
  | Wait
  | Kill int int
  | ThreadCreate int
  | Sleep nat
  | Usleep nat
  | Alarm nat
  | Pipe
  | MkFifo string
  | SocketPair int int int
  | SigAction int
  | Syscall int
  | MsgGet int
  | MsgSnd int string
  | Exec string "string list"
  | Scanf
  | Printf string "arg list"
  | PError string

text \<open>
  A reply: the return value, the bytes delivered, the peer's address, \<open>errno\<close>,
  and the descriptors that \<open>select\<close> found ready.
\<close>

record reply =
  r_ret :: int
  r_data :: string
  r_from :: sockaddr_in
  r_errno :: int
  r_fds :: "fd list"

record os =
  replies :: "reply list"
  trace :: "call list"
  files :: "string \<Rightarrow> string option"

datatype fault = OutOfBounds | Unterminated | NullPointer | BadFree

datatype abort = Exit int | Blocked | Spin | Fault fault

datatype 'a outcome = Val 'a | Abort abort

type_synonym 'a prog = "os \<Rightarrow> 'a outcome \<times> os"

section \<open>The monad\<close>

definition pret :: "'a \<Rightarrow> 'a prog" where
  "pret a = (\<lambda>w. (Val a, w))"

definition pabort :: "abort \<Rightarrow> 'a prog" where
  "pabort x = (\<lambda>w. (Abort x, w))"

definition pbind :: "'a prog \<Rightarrow> ('a \<Rightarrow> 'b prog) \<Rightarrow> 'b prog" where
  "pbind m k = (\<lambda>w. case m w of (Val a, w') \<Rightarrow> k a w' | (Abort x, w') \<Rightarrow> (Abort x, w'))"

definition pseq :: "'a prog \<Rightarrow> 'b prog \<Rightarrow> 'b prog" where
  "pseq m k = pbind m (\<lambda>_. k)"

abbreviation pexit :: "int \<Rightarrow> 'a prog" where
  "pexit c \<equiv> pabort (Exit c)"

abbreviation pfault :: "fault \<Rightarrow> 'a prog" where
  "pfault f \<equiv> pabort (Fault f)"

text \<open>A call that takes a reply, and a call whose result nobody looks at.\<close>

definition sys :: "call \<Rightarrow> (reply \<Rightarrow> 'a) \<Rightarrow> 'a prog" where
  "sys c f = (\<lambda>w. case replies w of
       [] \<Rightarrow> (Abort Blocked, w\<lparr>trace := trace w @ [c]\<rparr>)
     | r # rs \<Rightarrow> (Val (f r), w\<lparr>replies := rs, trace := trace w @ [c]\<rparr>))"

definition emit :: "call \<Rightarrow> unit prog" where
  "emit c = (\<lambda>w. (Val (), w\<lparr>trace := trace w @ [c]\<rparr>))"

abbreviation printf :: "string \<Rightarrow> arg list \<Rightarrow> unit prog" where
  "printf f as \<equiv> emit (Printf f as)"

abbreviation perror :: "string \<Rightarrow> unit prog" where
  "perror s \<equiv> emit (PError s)"

abbreviation sys_ret :: "call \<Rightarrow> int prog" where
  "sys_ret c \<equiv> sys c r_ret"

abbreviation sys_do :: "call \<Rightarrow> unit prog" where
  "sys_do c \<equiv> sys c (\<lambda>_. ())"

text \<open>
  The documented result of a read of at most \<open>n\<close> bytes: \<open>-1\<close> and nothing, or the number
  of bytes delivered, never more than asked for.
\<close>

definition got :: "nat \<Rightarrow> reply \<Rightarrow> int \<times> string" where
  "got n r = (if r_ret r < 0 then (-1, []) else (int (length (take n (r_data r))), take n (r_data r)))"

definition rread :: "fd \<Rightarrow> nat \<Rightarrow> (int \<times> string) prog" where
  "rread d n = sys (Read d n) (got n)"

definition rrecv :: "fd \<Rightarrow> nat \<Rightarrow> bool \<Rightarrow> (int \<times> string) prog" where
  "rrecv d n waitall = sys (Recv d n waitall) (got n)"

definition rrecvfrom :: "fd \<Rightarrow> nat \<Rightarrow> (int \<times> string \<times> sockaddr_in) prog" where
  "rrecvfrom d n = sys (RecvFrom d n) (\<lambda>r. (fst (got n r), snd (got n r), r_from r))"

text \<open>Array accesses: \<open>buf[i] = c\<close>, and reading the C string an array holds.\<close>

definition store :: "string \<Rightarrow> int \<Rightarrow> char \<Rightarrow> string prog" where
  "store buf i c = (if 0 \<le> i \<and> i < int (length buf) then pret (buf[nat i := c]) else pfault OutOfBounds)"

definition deliver :: "string \<Rightarrow> nat \<Rightarrow> string \<Rightarrow> string prog" where
  "deliver buf off d = (if off + length d \<le> length buf then pret (overlay buf off d) else pfault OutOfBounds)"

definition cstring :: "string \<Rightarrow> string prog" where
  "cstring buf = (if terminated buf then pret (c_str buf) else pfault Unterminated)"

section \<open>Loops\<close>

text \<open>
  One iteration either goes on with the loop variables \<open>Next s\<close> or leaves with \<open>Stop r\<close>.
  A loop of these programs makes a system call in every iteration, which is the termination
  argument here: an iteration that consumed no reply is \<open>Spin\<close>, a busy loop.
\<close>

datatype ('s, 'r) iter = Next 's | Stop 'r

function loop :: "('s \<Rightarrow> ('s, 'r) iter prog) \<Rightarrow> 's \<Rightarrow> 'r prog" where
  "loop body s w = (case body s w of
       (Val (Next s'), w') \<Rightarrow>
         (if length (replies w') < length (replies w) then loop body s' w' else (Abort Spin, w'))
     | (Val (Stop r), w') \<Rightarrow> (Val r, w')
     | (Abort x, w') \<Rightarrow> (Abort x, w'))"
  by pat_completeness auto
termination
  by (relation "measure (\<lambda>(body, s, w). length (replies w))") auto

declare loop.simps [simp del]

text \<open>A counted loop \<open>for (i = i0; ...; i++)\<close> over a list of values.\<close>

fun pfor :: "'a list \<Rightarrow> ('a \<Rightarrow> 's \<Rightarrow> 's prog) \<Rightarrow> 's \<Rightarrow> 's prog" where
  "pfor [] body s = pret s"
| "pfor (x # xs) body s = pbind (body x s) (pfor xs body)"

section \<open>Equations for execution\<close>

text \<open>
  On a state given field by field every construct computes; these are the rules by which a
  concrete or a parametric run is evaluated.
\<close>

definition st :: "reply list \<Rightarrow> call list \<Rightarrow> (string \<Rightarrow> string option) \<Rightarrow> os" where
  "st rs tr fs = \<lparr>replies = rs, trace = tr, files = fs\<rparr>"

lemma st_sel [simp]:
  "replies (st rs tr fs) = rs" "trace (st rs tr fs) = tr" "files (st rs tr fs) = fs"
  by (simp_all add: st_def)

lemma st_inject [simp]: "st rs tr fs = st rs' tr' fs' \<longleftrightarrow> rs = rs' \<and> tr = tr' \<and> fs = fs'"
  by (auto simp: st_def)

lemma os_eq_st: "w = st (replies w) (trace w) (files w)"
  by (simp add: st_def)

lemma pret_st [simp]: "pret a (st rs tr fs) = (Val a, st rs tr fs)"
  by (simp add: pret_def)

lemma pabort_st [simp]: "pabort x (st rs tr fs) = (Abort x, st rs tr fs)"
  by (simp add: pabort_def)

lemma pbind_run: "pbind m k w = (case m w of (Val a, w') \<Rightarrow> k a w' | (Abort x, w') \<Rightarrow> (Abort x, w'))"
  by (simp add: pbind_def)

lemma pbind_Val: "m w = (Val a, w') \<Longrightarrow> pbind m k w = k a w'"
  by (simp add: pbind_def)

lemma pbind_Abort: "m w = (Abort x, w') \<Longrightarrow> pbind m k w = (Abort x, w')"
  by (simp add: pbind_def)

lemma pseq_Val: "m w = (Val a, w') \<Longrightarrow> pseq m k w = k w'"
  by (simp add: pseq_def pbind_def)

lemma pseq_Abort: "m w = (Abort x, w') \<Longrightarrow> pseq m k w = (Abort x, w')"
  by (simp add: pseq_def pbind_def)

lemma pseq_pabort [simp]: "pseq (pabort x) k = pabort x"
  by (simp add: pseq_def pbind_def pabort_def fun_eq_iff)

lemma pbind_pret [simp]: "pbind (pret a) k = k a"
  by (simp add: pbind_def pret_def fun_eq_iff)

lemma pbind_pabort [simp]: "pbind (pabort x) k = pabort x"
  by (simp add: pbind_def pabort_def fun_eq_iff)

lemma pseq_pret [simp]: "pseq (pret a) k = k"
  by (simp add: pseq_def)

lemma pbind_assoc: "pbind (pbind m k) h = pbind m (\<lambda>a. pbind (k a) h)"
  by (auto simp: pbind_def fun_eq_iff split: outcome.splits prod.splits)

lemma pseq_assoc: "pbind (pseq m k) h = pseq m (pbind k h)"
  by (simp add: pseq_def pbind_assoc)

lemma pseq_pseq: "pseq (pseq m k) h = pseq m (pseq k h)"
  by (simp add: pseq_def pbind_assoc)

lemma pseq_pbind: "pseq (pbind m k) h = pbind m (\<lambda>a. pseq (k a) h)"
  by (simp add: pseq_def pbind_assoc)

lemmas run_simps = pbind_assoc pseq_assoc pseq_pseq pseq_pbind

lemma sys_st [simp]:
  "sys c f (st (r # rs) tr fs) = (Val (f r), st rs (tr @ [c]) fs)"
  "sys c f (st [] tr fs) = (Abort Blocked, st [] (tr @ [c]) fs)"
  by (simp_all add: sys_def st_def)

lemma emit_st [simp]: "emit c (st rs tr fs) = (Val (), st rs (tr @ [c]) fs)"
  by (simp add: emit_def st_def)

lemma pbind_sys_st [simp]:
  "pbind (sys c f) k (st (r # rs) tr fs) = k (f r) (st rs (tr @ [c]) fs)"
  "pbind (sys c f) k (st [] tr fs) = (Abort Blocked, st [] (tr @ [c]) fs)"
  by (simp_all add: pbind_def)

lemma pseq_sys_st [simp]:
  "pseq (sys c f) k (st (r # rs) tr fs) = k (st rs (tr @ [c]) fs)"
  "pseq (sys c f) k (st [] tr fs) = (Abort Blocked, st [] (tr @ [c]) fs)"
  by (simp_all add: pseq_def)

lemma pseq_emit_st [simp]: "pseq (emit c) k (st rs tr fs) = k (st rs (tr @ [c]) fs)"
  by (simp add: pseq_def pbind_def)

lemma store_ok [simp]: "0 \<le> i \<Longrightarrow> i < int (length buf) \<Longrightarrow> store buf i c = pret (buf[nat i := c])"
  by (simp add: store_def)

lemma store_bad: "i < 0 \<or> int (length buf) \<le> i \<Longrightarrow> store buf i c = pfault OutOfBounds"
  by (auto simp: store_def)

lemma deliver_ok [simp]: "off + length d \<le> length buf \<Longrightarrow> deliver buf off d = pret (overlay buf off d)"
  by (simp add: deliver_def)

lemma cstring_ok [simp]: "terminated buf \<Longrightarrow> cstring buf = pret (c_str buf)"
  by (simp add: cstring_def)

lemma pbind_cstring_update:
  "i < length buf \<Longrightarrow> pbind (cstring (buf[i := NUL])) k = k (c_str (buf[i := NUL]))"
  by (simp add: terminated_update)

lemma loop_Stop: "body s w = (Val (Stop r), w') \<Longrightarrow> loop body s w = (Val r, w')"
  by (subst loop.simps) simp

lemma loop_Abort: "body s w = (Abort x, w') \<Longrightarrow> loop body s w = (Abort x, w')"
  by (subst loop.simps) simp

lemma loop_Next:
  "body s w = (Val (Next s'), w') \<Longrightarrow> length (replies w') < length (replies w) \<Longrightarrow>
   loop body s w = loop body s' w'"
  by (subst loop.simps) simp

lemmas loop_step = loop_Next loop_Stop loop_Abort

text \<open>Replies for scripts: bytes delivered, a return value, a failure.\<close>

definition no_addr :: sockaddr_in where
  "no_addr = \<lparr>sin_family = 0, sin_port = 0, sin_addr = 0\<rparr>"

definition data :: "string \<Rightarrow> reply" where
  "data d = \<lparr>r_ret = int (length d), r_data = d, r_from = no_addr, r_errno = 0, r_fds = []\<rparr>"

definition rc :: "int \<Rightarrow> reply" where
  "rc n = \<lparr>r_ret = n, r_data = [], r_from = no_addr, r_errno = 0, r_fds = []\<rparr>"

definition failed :: "int \<Rightarrow> reply" where
  "failed e = \<lparr>r_ret = -1, r_data = [], r_from = no_addr, r_errno = e, r_fds = []\<rparr>"

definition ready :: "fd list \<Rightarrow> reply" where
  "ready ds = \<lparr>r_ret = int (length ds), r_data = [], r_from = no_addr, r_errno = 0, r_fds = ds\<rparr>"

definition dgram :: "string \<Rightarrow> sockaddr_in \<Rightarrow> reply" where
  "dgram d a = \<lparr>r_ret = int (length d), r_data = d, r_from = a, r_errno = 0, r_fds = []\<rparr>"

lemma reply_sel [simp]:
  "r_ret (data d) = int (length d)" "r_data (data d) = d"
  "r_ret (rc n) = n" "r_data (rc n) = []" "r_ret (failed e) = -1" "r_data (failed e) = []"
  "r_errno (failed e) = e" "r_ret (dgram d a) = int (length d)" "r_data (dgram d a) = d"
  "r_from (dgram d a) = a" "r_errno (rc n) = 0" "r_ret (ready ds) = int (length ds)" "r_fds (ready ds) = ds"
  by (simp_all add: data_def rc_def failed_def dgram_def ready_def)

lemma got_simps [simp]:
  "length d \<le> n \<Longrightarrow> got n (data d) = (int (length d), d)"
  "got n (failed e) = (-1, [])"
  "length d \<le> n \<Longrightarrow> got n (dgram d a) = (int (length d), d)"
  by (simp_all add: got_def)

lemma got_cases:
  obtains (fail) "r_ret r < 0" "got n r = (-1, [])"
  | (bytes) d where "got n r = (int (length d), d)" "length d \<le> n"
  by (cases "r_ret r < 0") (auto simp: got_def)

lemma got_length: "got n r = (k, d) \<Longrightarrow> length d \<le> n \<and> (k = -1 \<and> d = [] \<or> k = int (length d))"
  by (auto simp: got_def split: if_splits)

section \<open>Predicate transformers\<close>

text \<open>
  \<open>wp m Q E w\<close>: run from \<open>w\<close>, the program returns with \<open>Q\<close> or ends abnormally with
  \<open>E\<close>. Programs are deterministic in the script, so this is total correctness.
\<close>

definition wp :: "'a prog \<Rightarrow> ('a \<Rightarrow> os \<Rightarrow> bool) \<Rightarrow> (abort \<Rightarrow> os \<Rightarrow> bool) \<Rightarrow> os \<Rightarrow> bool" where
  "wp m Q E w = (case m w of (Val a, w') \<Rightarrow> Q a w' | (Abort x, w') \<Rightarrow> E x w')"

lemma wp_pret [wp_simps]: "wp (pret a) Q E w = Q a w"
  by (simp add: wp_def pret_def)

lemma wp_pabort [wp_simps]: "wp (pabort x) Q E w = E x w"
  by (simp add: wp_def pabort_def)

lemma wp_pbind [wp_simps]: "wp (pbind m k) Q E w = wp m (\<lambda>a. wp (k a) Q E) E w"
  by (simp add: wp_def pbind_def split: outcome.splits prod.splits)

lemma wp_pseq [wp_simps]: "wp (pseq m k) Q E w = wp m (\<lambda>_. wp k Q E) E w"
  by (simp add: pseq_def wp_pbind)

lemma wp_if [wp_simps]: "wp (if b then m else n) Q E w = (if b then wp m Q E w else wp n Q E w)"
  by simp

lemma wp_let [wp_simps]: "wp (let x = a in m x) Q E w = wp (m a) Q E w"
  by simp

lemma wp_case_prod [wp_simps]: "wp (case p of (a, b) \<Rightarrow> m a b) Q E w = (case p of (a, b) \<Rightarrow> wp (m a b) Q E w)"
  by (simp split: prod.splits)

lemma wp_sys [wp_simps]:
  "wp (sys c f) Q E w = (case replies w of
       [] \<Rightarrow> E Blocked (w\<lparr>trace := trace w @ [c]\<rparr>)
     | r # rs \<Rightarrow> Q (f r) (w\<lparr>replies := rs, trace := trace w @ [c]\<rparr>))"
  by (simp add: wp_def sys_def split: list.splits)

lemma wp_emit [wp_simps]: "wp (emit c) Q E w = Q () (w\<lparr>trace := trace w @ [c]\<rparr>)"
  by (simp add: wp_def emit_def)

lemma wp_store [wp_simps]:
  "wp (store buf i c) Q E w =
     (if 0 \<le> i \<and> i < int (length buf) then Q (buf[nat i := c]) w else E (Fault OutOfBounds) w)"
  by (simp add: store_def wp_pret wp_pabort)

lemma wp_deliver [wp_simps]:
  "wp (deliver buf off d) Q E w =
     (if off + length d \<le> length buf then Q (overlay buf off d) w else E (Fault OutOfBounds) w)"
  by (simp add: deliver_def wp_pret wp_pabort)

lemma wp_cstring [wp_simps]:
  "wp (cstring buf) Q E w = (if terminated buf then Q (c_str buf) w else E (Fault Unterminated) w)"
  by (simp add: cstring_def wp_pret wp_pabort)

lemma wp_mono:
  "wp m Q E w \<Longrightarrow> (\<And>a w'. Q a w' \<Longrightarrow> Q' a w') \<Longrightarrow> (\<And>x w'. E x w' \<Longrightarrow> E' x w') \<Longrightarrow> wp m Q' E' w"
  by (auto simp: wp_def split: outcome.splits prod.splits)

text \<open>
  The loop rule: an invariant over the loop variables and the state; an iteration that
  consumed no reply must be allowed to end as \<open>Spin\<close>.
\<close>

lemma wp_loop:
  assumes init: "Inv s w"
    and step: "\<And>s w. Inv s w \<Longrightarrow> wp (body s)
      (\<lambda>r w'. case r of
           Next s' \<Rightarrow> (if length (replies w') < length (replies w) then Inv s' w' else E Spin w')
         | Stop x \<Rightarrow> Q x w') E w"
  shows "wp (loop body s) Q E w"
  using init
proof (induction "length (replies w)" arbitrary: s w rule: less_induct)
  case less
  note body = step [OF less.prems]
  obtain r w' where run: "body s w = (r, w')"
    by fastforce
  show ?case
  proof (cases "\<exists>s'. r = Val (Next s') \<and> length (replies w') < length (replies w)")
    case True
    then obtain s' where nxt: "body s w = (Val (Next s'), w')"
      and shorter: "length (replies w') < length (replies w)"
      using run by auto
    from body nxt shorter have "Inv s' w'"
      by (simp add: wp_def)
    with less.hyps [OF shorter] have "wp (loop body s') Q E w'" .
    with nxt shorter show ?thesis
      by (simp add: wp_def loop_Next)
  next
    case False
    with body run show ?thesis
      by (auto simp: wp_def loop.simps [of body s w] split: outcome.splits iter.splits)
  qed
qed

text \<open>A server loop: every iteration goes on or ends the process.\<close>

lemma wp_loop_forever:
  assumes "Inv s"
    and "\<And>s w. Inv s \<Longrightarrow> wp (body s)
      (\<lambda>r w'. \<exists>s'. r = Next s' \<and> Inv s' \<and> length (replies w') < length (replies w)) E w"
  shows "wp (loop body s) Q E w"
proof (rule wp_loop [where Inv = "\<lambda>s _. Inv s"])
  show "Inv s" by fact
  fix s w assume "Inv s"
  from assms(2) [OF this] show "wp (body s)
      (\<lambda>r w'. case r of
           Next s' \<Rightarrow> (if length (replies w') < length (replies w) then Inv s' else E Spin w')
         | Stop x \<Rightarrow> Q x w') E w"
    by (rule wp_mono) auto
qed

lemma wp_pfor:
  assumes "Inv xs s w"
    and "\<And>x xs s w. Inv (x # xs) s w \<Longrightarrow> wp (body x s) (Inv xs) E w"
    and "\<And>s w. Inv [] s w \<Longrightarrow> Q s w"
  shows "wp (pfor xs body s) Q E w"
  using assms(1)
proof (induction xs arbitrary: s w)
  case Nil
  with assms(3) show ?case by (simp add: wp_pret)
next
  case (Cons x xs)
  from assms(2) [OF Cons.prems] Cons.IH show ?case
    by (auto simp: wp_pbind elim: wp_mono)
qed

text \<open>Memory safety: no outcome of the run is a fault.\<close>

fun no_fault :: "abort \<Rightarrow> bool" where
  "no_fault (Fault f) = False"
| "no_fault _ = True"

definition safe :: "'a prog \<Rightarrow> os \<Rightarrow> bool" where
  "safe m w = wp m (\<lambda>_ _. True) (\<lambda>x _. no_fault x) w"

text \<open>
  A condition on the replies still to come survives every call, since calls only consume
  them. It is how a statement restricts the kernel's answers.
\<close>

definition answers :: "(reply \<Rightarrow> bool) \<Rightarrow> os \<Rightarrow> bool" where
  "answers P w = list_all P (replies w)"

lemma answers_Cons [simp]:
  "replies w = r # rs \<Longrightarrow> answers P w = (P r \<and> list_all P rs)"
  by (simp add: answers_def)

lemma answers_upd [simp]:
  "answers P (w\<lparr>trace := t\<rparr>) = answers P w" "answers P (w\<lparr>replies := rs\<rparr>) = list_all P rs"
  "answers P (w\<lparr>files := f\<rparr>) = answers P w"
  by (simp_all add: answers_def)

end
