(* ===== verification/Checksum.thy ===== *)
theory Checksum
  imports NetPrelude
begin

text \<open>
  The Internet checksum of the raw-socket programs: \<open>in_cksum\<close> of fri/raw/myping.c and
  \<open>cksum_in\<close> of fri/raw/my_ping2.c and fri/port_stat/port_scan_sys.c, against one
  reference, the ones' complement sum of the 16-bit words of the block. The interface the
  packet builders rely on is the locale \<open>internet_checksum\<close>; both routines are
  interpretations of it.
\<close>

section \<open>The routines\<close>

text \<open>A \<open>short\<close> read from two consecutive bytes of a little-endian machine.\<close>

definition le16 :: "u8 \<Rightarrow> u8 \<Rightarrow> u16" where
  "le16 b0 b1 = ucast b0 + 256 * ucast b1"

text \<open>\<open>while(nleft>1) { sum += *w++; nleft -= 2; }\<close> of \<open>in_cksum\<close>.\<close>

fun in_cksum_loop :: "u8 list \<Rightarrow> int \<Rightarrow> u32 \<Rightarrow> u8 list \<times> int \<times> u32" where
  "in_cksum_loop (b0 # b1 # w) nleft acc =
     (if nleft > 1 then in_cksum_loop w (nleft - 2) (acc + ucast (le16 b0 b1))
      else (b0 # b1 # w, nleft, acc))"
| "in_cksum_loop w nleft acc = (w, nleft, acc)"

definition in_cksum :: "u8 list \<Rightarrow> int \<Rightarrow> u16" where
  "in_cksum addr len =
     (let (w, nleft, acc) = in_cksum_loop addr len 0;
          acc = (if nleft = -1 then (case w of [] \<Rightarrow> acc | b # _ \<Rightarrow> acc + ucast b) else acc);
          acc = signed_drop_bit 16 acc + (acc AND 0xffff);
          acc = acc + signed_drop_bit 16 acc
      in NOT (ucast acc))"

text \<open>The loop of \<open>cksum_in\<close>: it folds the sum whenever its top bit is set.\<close>

fun cksum_in_loop :: "u8 list \<Rightarrow> int \<Rightarrow> u32 \<Rightarrow> u8 list \<times> int \<times> u32" where
  "cksum_in_loop (b0 # b1 # w) nleft acc =
     (if nleft > 1 then
        let acc = acc + ucast (le16 b0 b1);
            acc = (if acc AND 0x80000000 \<noteq> 0 then (acc AND 0xffff) + drop_bit 16 acc else acc)
        in cksum_in_loop w (nleft - 2) acc
      else (b0 # b1 # w, nleft, acc))"
| "cksum_in_loop w nleft acc = (w, nleft, acc)"

lemma drop_bit_16_nat: "unat (drop_bit 16 (s::u32)) = unat s div 65536"
  unfolding unat_drop_bit_eq by (simp add: drop_bit_eq_div)

lemma and_ffff_nat: "unat ((s::u32) AND 0xffff) = unat s mod 65536"
proof -
  have "s AND 0xffff = take_bit 16 s"
    by (simp add: take_bit_eq_mask mask_eq_exp_minus_1)
  then have "unat (s AND 0xffff) = take_bit 16 (unat s)"
    by (simp only: unsigned_take_bit_eq)
  then show ?thesis
    by (simp add: take_bit_eq_mod)
qed

lemma unat_u32_bound: "unat (s::u32) < 4294967296"
  using unsigned_less [of s] by simp

lemma unat_fold: "unat ((s AND 0xffff) + drop_bit 16 (s::u32)) = unat s mod 65536 + unat s div 65536"
proof -
  have "unat s div 65536 < 65536"
    using unat_u32_bound [of s] by (simp add: less_mult_imp_div_less)
  moreover have "unat s mod 65536 < 65536"
    by simp
  ultimately show ?thesis
    by (subst unat_add_lem [THEN iffD1]) (simp_all add: and_ffff_nat drop_bit_16_nat)
qed

text \<open>\<open>while(sum >> 16) sum = (sum & 0xffff) + (sum >> 16);\<close>\<close>

function cksum_fold :: "u32 \<Rightarrow> u32" where
  "cksum_fold acc = (if drop_bit 16 acc \<noteq> 0 then cksum_fold ((acc AND 0xffff) + drop_bit 16 acc) else acc)"
  by pat_completeness auto
termination
proof (relation "measure unat")
  fix s :: u32
  assume "drop_bit 16 s \<noteq> 0"
  then have "unat s div 65536 \<noteq> 0"
    by (metis drop_bit_16_nat unat_eq_zero)
  then have "unat s mod 65536 + unat s div 65536 < unat s"
    using mult_div_mod_eq [of 65536 "unat s"] by linarith
  then show "((s AND 0xffff) + drop_bit 16 s, s) \<in> measure unat"
    by (simp add: unat_fold)
qed auto

declare cksum_fold.simps [simp del]

definition cksum_in :: "u8 list \<Rightarrow> int \<Rightarrow> u16" where
  "cksum_in addr len =
     (let (w, nleft, acc) = cksum_in_loop addr len 0;
          acc = (if nleft = 1 then (case w of [] \<Rightarrow> acc | b # _ \<Rightarrow> acc + ucast b) else acc);
          acc = cksum_fold acc
      in if acc = 0xffff then ucast acc else ucast (NOT acc))"

section \<open>The reference: ones' complement sums\<close>

text \<open>The sum of the words of a block, an odd last byte standing for a word with a zero.\<close>

fun wsum :: "u8 list \<Rightarrow> nat" where
  "wsum (a # b # bs) = unat a + 256 * unat b + wsum bs"
| "wsum [a] = unat a"
| "wsum [] = 0"

text \<open>
  The end-around-carry value of a sum: the representative of the sum modulo \<open>2^16 - 1\<close>
  that is zero for a zero sum only.
\<close>

definition ocsum :: "nat \<Rightarrow> nat" where
  "ocsum s = (if s = 0 then 0 else if s mod 65535 = 0 then 65535 else s mod 65535)"

lemma ocsum_bound: "ocsum s \<le> 65535"
  using mod_less_divisor [of 65535 s] by (simp add: ocsum_def)

lemma ocsum_0_iff [simp]: "ocsum s = 0 \<longleftrightarrow> s = 0"
  by (simp add: ocsum_def)

lemma ocsum_small: "s \<le> 65535 \<Longrightarrow> ocsum s = s"
  by (cases "s = 65535") (auto simp: ocsum_def)

lemma ocsum_cong: "(a = 0 \<longleftrightarrow> b = 0) \<Longrightarrow> a mod 65535 = b mod 65535 \<Longrightarrow> ocsum a = ocsum b"
  by (simp add: ocsum_def)

lemma fold_mod: "(s mod 65536 + s div 65536 + t) mod 65535 = (s + t) mod (65535::nat)"
proof -
  have "s + t = 65535 * (s div 65536) + (s mod 65536 + s div 65536 + t)"
    using mult_div_mod_eq [of 65536 s] by linarith
  then show ?thesis
    by (metis mod_mult_self4 mult.commute)
qed

lemma ocsum_fold_add: "ocsum (s mod 65536 + s div 65536 + t) = ocsum (s + t)"
proof (rule ocsum_cong)
  show "(s mod 65536 + s div 65536 + t = 0) \<longleftrightarrow> (s + t = 0)"
    using mult_div_mod_eq [of 65536 s] by linarith
qed (rule fold_mod)

lemmas ocsum_fold = ocsum_fold_add [of s 0 for s, simplified]

text \<open>Adding the complement of a sum to it gives all ones.\<close>

lemma ocsum_complement: "ocsum (s + (65535 - ocsum s)) = 65535"
proof -
  have "(s + (65535 - ocsum s)) mod 65535 = 0"
  proof (cases "s mod 65535 = 0")
    case True
    then show ?thesis by (auto simp: ocsum_def)
  next
    case False
    define q r where "q = s div 65535" and "r = s mod 65535"
    have "s = 65535 * q + r" and "r < 65535"
      by (simp_all add: q_def r_def)
    then have "s + (65535 - r) = 65535 * (q + 1)" by presburger
    then have "s + (65535 - s mod 65535) = 65535 * (s div 65535 + 1)"
      unfolding q_def r_def .
    with False show ?thesis by (simp add: ocsum_def)
  qed
  moreover have "s + (65535 - ocsum s) \<noteq> 0"
    by (cases "s = 0") (auto simp: ocsum_def)
  ultimately show ?thesis by (simp add: ocsum_def)
qed

lemma ocsum_add_full: "ocsum s = 65535 \<Longrightarrow> ocsum (s + 65535) = 65535"
  by (auto simp: ocsum_def split: if_splits)

section \<open>The routines compute the complement of the ones' complement sum\<close>

lemma unat_le16: "unat (le16 a b) = unat a + 256 * unat b"
proof -
  have "unat a < 256" "unat b < 256"
    using unsigned_less [of a] unsigned_less [of b] by auto
  then show ?thesis
    by (simp add: le16_def unat_word_ariths unsigned_ucast_eq take_bit_eq_mod)
qed

lemma unat_acc_le16:
  "unat (acc::u32) + unat a + 256 * unat b < 4294967296 \<Longrightarrow>
   unat (acc + ucast (le16 a b)) = unat acc + unat a + 256 * unat b"
  by (simp add: unat_word_ariths unsigned_ucast_eq take_bit_eq_mod unat_le16)

lemma wsum_bound: "wsum bs \<le> 65535 * ((length bs + 1) div 2)"
proof (induction bs rule: wsum.induct)
  case (1 a b bs)
  have "unat a < 256" "unat b < 256"
    using unsigned_less [of a] unsigned_less [of b] by auto
  with 1 show ?case by simp
next
  case (2 a)
  have "unat a < 256"
    using unsigned_less [of a] by auto
  then show ?case by simp
qed simp

lemma wsum_append: "even (length xs) \<Longrightarrow> wsum (xs @ ys) = wsum xs + wsum ys"
  by (induction xs rule: wsum.induct) auto

lemma in_cksum_loop_sum:
  "unat acc + wsum bs < 4294967296 \<Longrightarrow> even (length bs) \<Longrightarrow>
   \<exists>acc'. in_cksum_loop bs (int (length bs)) acc = ([], 0, acc') \<and> unat acc' = unat acc + wsum bs"
proof (induction bs "int (length bs)" acc rule: in_cksum_loop.induct)
  case (1 b0 b1 w acc)
  then show ?case by (simp add: unat_acc_le16 add.assoc)
qed auto

lemma in_cksum_loop_rest:
  "even (length bs) \<Longrightarrow> \<exists>s. in_cksum_loop bs (int (length bs)) acc = ([], 0, s)"
  by (induction bs "int (length bs)" acc rule: in_cksum_loop.induct) auto

text \<open>An odd trailing byte stays behind with \<open>nleft == 1\<close>.\<close>

lemma in_cksum_loop_odd:
  "even (length bs) \<Longrightarrow> in_cksum_loop (bs @ [b]) (int (length bs) + 1) acc =
     (let (_, _, acc') = in_cksum_loop bs (int (length bs)) acc in ([b], 1, acc'))"
proof (induction bs "int (length bs)" acc rule: in_cksum_loop.induct)
  case (1 b0 b1 w acc)
  then show ?case by (auto simp: algebra_simps)
qed auto

text \<open>Two steps of folding reduce a sum that fits 31 bits.\<close>

lemma signed_drop_small:
  assumes "unat (s::u32) < 2147483648"
  shows "signed_drop_bit 16 s = drop_bit 16 s"
proof -
  have "\<not> bit (unat s) 31"
    using assms by (simp add: bit_iff_odd)
  then have "\<not> bit s 31"
    by (simp add: bit_unsigned_iff)
  then show ?thesis
    by (intro bit_word_eqI) (auto simp: bit_simps not_less le_less_Suc_eq dest: bit_imp_le_length)
qed

lemma unat_not16: "unat (NOT (w::u16)) = 65535 - unat w"
proof -
  have "NOT w = -1 - w"
    by (simp add: not_eq_complement)
  then have "unat (NOT w) = unat (-1 :: u16) - unat w"
    by (simp add: unat_sub)
  then show ?thesis
    by (simp add: unsigned_minus_1_eq_mask mask_eq_exp_minus_1)
qed

lemma two_folds:
  fixes s :: u32
  assumes "unat s < 2147483648"
  defines "f \<equiv> signed_drop_bit 16 s + (s AND 0xffff)"
  shows "unat (ucast (f + signed_drop_bit 16 f) :: u16) = ocsum (unat s)"
proof -
  define F where "F = unat s mod 65536 + unat s div 65536"
  have "unat s div 65536 < 32768"
    using assms(1) by (simp add: less_mult_imp_div_less)
  then have F: "F < 65536 + 32768"
    using mod_less_divisor [of 65536 "unat s"] unfolding F_def by linarith
  have f: "unat f = F"
    using unat_fold [of s] by (simp add: f_def F_def signed_drop_small [OF assms(1)] add.commute)
  have g: "unat (f + signed_drop_bit 16 f) = F + F div 65536"
  proof -
    have "F div 65536 \<le> 1" using F by simp
    then show ?thesis
      using F f by (simp add: signed_drop_small unat_word_ariths drop_bit_16_nat)
  qed
  have "(F + F div 65536) mod 65536 = ocsum F"
  proof (cases "F < 65536")
    case True
    then show ?thesis by (simp add: ocsum_small)
  next
    case False
    then obtain r where r: "F = 65536 + r" "r < 32768"
      using F by (metis add_less_cancel_left le_add_diff_inverse not_less)
    then have "F mod 65535 = r + 1" by (simp add: le_mod_geq)
    then have "ocsum F = r + 1" by (simp add: ocsum_def r)
    moreover have "F div 65536 = 1"
      using r by (intro div_nat_eqI) auto
    ultimately show ?thesis
      using r by (simp add: le_mod_geq)
  qed
  also have "ocsum F = ocsum (unat s)"
    unfolding F_def by (rule ocsum_fold)
  finally show ?thesis
    using g by (simp add: unsigned_ucast_eq take_bit_eq_mod)
qed

lemma in_cksum_even:
  assumes "even (length bs)" and "wsum bs < 2147483648"
  shows "unat (in_cksum bs (int (length bs))) = 65535 - ocsum (wsum bs)"
proof -
  obtain s where "in_cksum_loop bs (int (length bs)) 0 = ([], 0, s)" and s: "unat s = wsum bs"
    using in_cksum_loop_sum [of 0 bs] assms by auto
  then show ?thesis
    using two_folds [of s] assms(2) by (simp add: in_cksum_def Let_def unat_not16 add.commute)
qed

text \<open>The guard \<open>nleft == -1\<close> never holds, so an odd last byte is not summed.\<close>

lemma in_cksum_odd:
  assumes "even (length bs)"
  shows "in_cksum (bs @ [b]) (int (length bs) + 1) = in_cksum bs (int (length bs))"
proof -
  obtain s where "in_cksum_loop bs (int (length bs)) 0 = ([], 0, s)"
    using in_cksum_loop_rest [OF assms] by blast
  then show ?thesis
    using in_cksum_loop_odd [OF assms, of b 0] by (simp add: in_cksum_def Let_def)
qed

section \<open>\<open>cksum_in\<close>\<close>

lemma top_bit_nat: "(s::u32) AND 0x80000000 \<noteq> 0 \<longleftrightarrow> 2147483648 \<le> unat s"
proof -
  have "s AND 0x80000000 \<noteq> 0 \<longleftrightarrow> bit s 31"
    using and_exp_eq_0_iff_not_bit [of s 31] by simp
  also have "\<dots> \<longleftrightarrow> bit (unat s) 31"
    by (simp add: bit_unsigned_iff)
  also have "\<dots> \<longleftrightarrow> odd (unat s div 2 ^ 31)"
    by (simp add: bit_iff_odd)
  also have "\<dots> \<longleftrightarrow> unat s div 2147483648 \<noteq> 0"
  proof -
    have "unat s div 2147483648 < 2"
      using unat_u32_bound [of s] by (simp add: less_mult_imp_div_less)
    then show ?thesis by (cases "unat s div 2147483648") auto
  qed
  finally show ?thesis
    by (simp add: div_eq_0_iff not_less)
qed

lemma cksum_in_loop_sum:
  "unat acc < 2147483648 \<Longrightarrow> even (length bs) \<Longrightarrow>
   \<exists>acc'. cksum_in_loop bs (int (length bs)) acc = ([], 0, acc') \<and> unat acc' < 2147483648 \<and>
     ocsum (unat acc') = ocsum (unat acc + wsum bs)"
proof (induction bs arbitrary: acc rule: wsum.induct)
  case (1 b0 b1 w)
  define s where "s = acc + ucast (le16 b0 b1)"
  define s' where "s' = (if s AND 0x80000000 \<noteq> 0 then (s AND 0xffff) + drop_bit 16 s else s)"
  have "unat b0 < 256" "unat b1 < 256"
    using unsigned_less [of b0] unsigned_less [of b1] by auto
  with "1.prems" have s: "unat s = unat acc + unat b0 + 256 * unat b1"
    unfolding s_def by (intro unat_acc_le16) linarith
  have small: "unat s' < 2147483648"
  proof (cases "s AND 0x80000000 = 0")
    case True
    then show ?thesis using top_bit_nat [of s] by (simp add: s'_def)
  next
    case False
    have "unat s div 65536 < 65536" "unat s mod 65536 < 65536"
      using unat_u32_bound [of s] by (simp_all add: less_mult_imp_div_less)
    with False show ?thesis by (simp add: s'_def unat_fold)
  qed
  have same: "ocsum (unat s' + t) = ocsum (unat s + t)" for t
    by (simp add: s'_def unat_fold ocsum_fold_add)
  have "\<exists>acc'. cksum_in_loop w (int (length w)) s' = ([], 0, acc') \<and> unat acc' < 2147483648 \<and>
     ocsum (unat acc') = ocsum (unat s' + wsum w)"
    using "1.prems"(2) small by (intro "1.IH") simp_all
  moreover have "cksum_in_loop (b0 # b1 # w) (int (length (b0 # b1 # w))) acc
      = cksum_in_loop w (int (length w)) s'"
    by (simp add: s_def s'_def Let_def)
  ultimately show ?case
    by (simp add: s same add.assoc)
qed auto

lemma unat_cksum_fold: "unat (cksum_fold s) = ocsum (unat s)"
proof (induction s rule: cksum_fold.induct)
  case (1 s)
  show ?case
  proof (cases "drop_bit 16 s = 0")
    case True
    then have "unat s div 65536 = 0"
      by (metis drop_bit_16_nat unat_0)
    with True show ?thesis
      by (simp add: cksum_fold.simps [of s] ocsum_small div_eq_0_iff)
  next
    case False
    with 1 show ?thesis
      by (simp add: cksum_fold.simps [of s] unat_fold ocsum_fold)
  qed
qed

text \<open>
  \<open>cksum_in\<close> returns the complement of the sum, except that the complement \<open>0\<close> of
  \<open>0xffff\<close> is returned as \<open>0xffff\<close>.
\<close>

lemma cksum_in_finish:
  fixes s :: u32
  defines "f \<equiv> cksum_fold s"
  shows "unat ((if f = 0xffff then ucast f else ucast (NOT f)) :: u16) =
    (if ocsum (unat s) = 65535 then 65535 else 65535 - ocsum (unat s))"
proof -
  have f: "unat f = ocsum (unat s)"
    by (simp add: f_def unat_cksum_fold)
  have lo: "unat (ucast f :: u16) = ocsum (unat s)"
    using ocsum_bound [of "unat s"] by (simp add: f unsigned_ucast_eq take_bit_eq_mod)
  have "ucast (NOT f) = (NOT (ucast f) :: u16)"
    by (rule bit_word_eqI) (simp add: bit_simps)
  then have "unat (ucast (NOT f) :: u16) = 65535 - ocsum (unat s)"
    by (simp add: unat_not16 lo)
  moreover have "f = 0xffff \<longleftrightarrow> ocsum (unat s) = 65535"
    unfolding f [symmetric] by (simp add: word_unat_eq_iff)
  ultimately show ?thesis using lo by simp
qed

lemma cksum_in_even:
  assumes "even (length bs)"
  shows "unat (cksum_in bs (int (length bs))) =
    (if ocsum (wsum bs) = 65535 then 65535 else 65535 - ocsum (wsum bs))"
proof -
  obtain s where "cksum_in_loop bs (int (length bs)) 0 = ([], 0, s)"
    and s: "ocsum (unat s) = ocsum (wsum bs)"
    using cksum_in_loop_sum [of 0 bs] assms by auto
  then have "cksum_in bs (int (length bs)) =
      (if cksum_fold s = 0xffff then ucast (cksum_fold s) else ucast (NOT (cksum_fold s)))"
    by (simp add: cksum_in_def Let_def)
  then show ?thesis
    by (simp only: cksum_in_finish s)
qed

text \<open>An odd last byte is summed as a word whose high byte is zero.\<close>

lemma cksum_in_loop_odd:
  "even (length bs) \<Longrightarrow> cksum_in_loop (bs @ [b]) (int (length bs) + 1) acc =
     (let (_, _, acc') = cksum_in_loop bs (int (length bs)) acc in ([b], 1, acc'))"
proof (induction bs arbitrary: acc rule: wsum.induct)
  case (1 b0 b1 w)
  have "int (length w) + 2 - 2 + 1 = int (length w) + 1" by simp
  with 1 show ?case by (simp add: Let_def algebra_simps)
qed auto

lemma cksum_in_odd:
  assumes "even (length bs)"
  shows "unat (cksum_in (bs @ [b]) (int (length bs) + 1)) =
    (if ocsum (wsum (bs @ [b])) = 65535 then 65535 else 65535 - ocsum (wsum (bs @ [b])))"
proof -
  obtain s where run: "cksum_in_loop bs (int (length bs)) 0 = ([], 0, s)"
    and small: "unat s < 2147483648" and s: "ocsum (unat s) = ocsum (wsum bs)"
    using cksum_in_loop_sum [of 0 bs] assms by auto
  have "unat b < 256"
    using unsigned_less [of b] by simp
  with small have "unat (s + ucast b) = unat s + unat b"
    by (simp add: unat_word_ariths unsigned_ucast_eq take_bit_eq_mod)
  moreover have "ocsum (unat s + unat b) = ocsum (wsum (bs @ [b]))"
  proof -
    have "(unat s = 0) = (wsum bs = 0)" "unat s mod 65535 = wsum bs mod 65535"
      using s by (auto simp: ocsum_def split: if_splits)
    then have "(unat s + unat b) mod 65535 = (wsum bs + unat b) mod 65535"
      by (metis mod_add_left_eq)
    with \<open>(unat s = 0) = (wsum bs = 0)\<close> show ?thesis
      by (intro ocsum_cong) (simp_all add: wsum_append [OF assms])
  qed
  ultimately have total: "ocsum (unat (s + ucast b)) = ocsum (wsum (bs @ [b]))"
    by simp
  have "cksum_in (bs @ [b]) (int (length bs) + 1) =
      (if cksum_fold (s + ucast b) = 0xffff then ucast (cksum_fold (s + ucast b))
       else ucast (NOT (cksum_fold (s + ucast b))))"
    using cksum_in_loop_odd [OF assms, of b 0] run by (simp add: cksum_in_def Let_def)
  then show ?thesis
    by (simp only: cksum_in_finish total)
qed

section \<open>The interface the packet builders use\<close>

text \<open>
  What a sender promises the receiver: storing the routine's result in a zeroed 16-bit field at
  an even offset makes the ones' complement sum of the whole block all ones, the test of a
  receiver. Blocks of up to 64 KiB, the largest IP datagram.
\<close>

definition put16 :: "u16 \<Rightarrow> u8 list" where
  "put16 w = [ucast w, ucast (drop_bit 8 w)]"

lemma wsum_put16: "wsum (put16 w) = unat w"
proof -
  have w: "unat w < 65536"
    using unsigned_less [of w] by simp
  have hi: "unat (drop_bit 8 w) = unat w div 256"
    by (simp only: unat_drop_bit_eq) (simp add: drop_bit_eq_div)
  with w have "unat (drop_bit 8 w) < 256"
    by (simp add: less_mult_imp_div_less)
  with hi show ?thesis
    by (simp add: put16_def unsigned_ucast_eq take_bit_eq_mod)
qed

lemma length_put16 [simp]: "length (put16 w) = 2"
  by (simp add: put16_def)

lemma le16_put16: "put16 w = [a, b] \<Longrightarrow> le16 a b = w"
  using wsum_put16 [of w] by (simp add: word_unat_eq_iff unat_le16)

lemma put16_le16: "put16 (le16 a b) = [a, b]"
proof -
  have "unat a < 256" "unat b < 256"
    using unsigned_less [of a] unsigned_less [of b] by auto
  then have "unat (le16 a b) mod 256 = unat a" "unat (le16 a b) div 256 = unat b"
    by (simp_all add: unat_le16)
  moreover have "unat (drop_bit 8 (le16 a b)) = unat (le16 a b) div 256"
    by (simp only: unat_drop_bit_eq) (simp add: drop_bit_eq_div)
  ultimately show ?thesis
    using \<open>unat b < 256\<close>
    by (simp add: put16_def word_unat_eq_iff unsigned_ucast_eq take_bit_eq_mod)
qed

locale internet_checksum =
  fixes cks :: "u8 list \<Rightarrow> u16"
  assumes complements: "even (length bs) \<Longrightarrow> length bs \<le> 65536 \<Longrightarrow>
    ocsum (wsum bs + unat (cks bs)) = 65535"
begin

text \<open>A packet with the checksum in place verifies.\<close>

lemma field_verifies:
  assumes "even (length pre)" and "even (length post)" and "length pre + length post \<le> 65534"
  shows "ocsum (wsum (pre @ put16 (cks (pre @ [0, 0] @ post)) @ post)) = 65535"
proof -
  let ?c = "cks (pre @ [0, 0] @ post)"
  have "wsum (pre @ put16 ?c @ post) = wsum (pre @ [0, 0] @ post) + unat ?c"
    using assms(1) wsum_put16 [of ?c] by (simp add: wsum_append put16_def)
  then show ?thesis
    using complements [of "pre @ [0, 0] @ post"] assms by simp
qed

end

lemma wsum_64k: "length bs \<le> 65536 \<Longrightarrow> wsum bs < 2147483648"
proof -
  assume "length bs \<le> 65536"
  then have "(length bs + 1) div 2 \<le> 32768" by simp
  then have "65535 * ((length bs + 1) div 2) \<le> 65535 * 32768"
    by (rule mult_le_mono2)
  with wsum_bound [of bs] show ?thesis by simp
qed

interpretation myping: internet_checksum "\<lambda>bs. in_cksum bs (int (length bs))"
  by unfold_locales (simp add: in_cksum_even wsum_64k ocsum_complement)

interpretation ping2: internet_checksum "\<lambda>bs. cksum_in bs (int (length bs))"
  by unfold_locales (simp add: cksum_in_even ocsum_complement ocsum_add_full)

section \<open>The routines against each other\<close>

text \<open>
  C28. The two checksum routines, one that folds twice at the end and one that folds when the top
  bit is set and adjusts the result, agree: on every packet of whole 16-bit words up to 64 KiB
  both return the complement of the ones' complement sum, except that a sum of all ones gives
  \<open>0\<close> in the first and \<open>0xffff\<close>, the other zero of ones' complement, in the second.
\<close>

theorem checksums_agree:
  assumes "even (length bs)" "length bs \<le> 65536"
  shows "unat (in_cksum bs (int (length bs))) = 65535 - ocsum (wsum bs) \<and>
    cksum_in bs (int (length bs)) =
      (if in_cksum bs (int (length bs)) = 0 then 0xffff else in_cksum bs (int (length bs)))"
proof -
  note in_even = in_cksum_even [OF assms(1) wsum_64k [OF assms(2)]]
  have "in_cksum bs (int (length bs)) = 0 \<longleftrightarrow> ocsum (wsum bs) = 65535"
    using in_even ocsum_bound [of "wsum bs"] by (auto simp: unat_eq_0 [symmetric])
  then show ?thesis
    using in_even cksum_in_even [OF assms(1)] by (auto simp: word_unat_eq_iff)
qed

theorem checksums_agree_witness:
  "unat (in_cksum [0x45, 0x00, 0x01, 0x02] 4) = 65535 - ocsum (wsum [0x45, 0x00, 0x01, 0x02]) \<and>
   cksum_in [0x45, 0x00, 0x01, 0x02] 4 =
     (if in_cksum [0x45, 0x00, 0x01, 0x02] 4 = 0 then 0xffff else in_cksum [0x45, 0x00, 0x01, 0x02] 4)"
  using checksums_agree [of "[0x45, 0x00, 0x01, 0x02]"] by simp

end
