(* ===== verification/Libc.thy ===== *)
theory Libc
  imports NetPrelude
begin

text \<open>
  The parts of the C library the programs compute with: bytes and characters, the memory
  layout of \<open>short\<close> and \<open>int\<close>, decimal numerals, \<open>atoi\<close>, and the text form of IPv4
  addresses. The programs print an address with \<open>inet_ntoa\<close> and read one with
  \<open>inet_aton\<close> or \<open>inet_addr\<close>; the round trip of the two is proved here and used by the
  address demonstrations.
\<close>

section \<open>Bytes and memory layout\<close>

definition byte_of :: "char \<Rightarrow> u8" where
  "byte_of c = word_of_nat (of_char c)"

definition char_of_byte :: "u8 \<Rightarrow> char" where
  "char_of_byte b = char_of (unat b)"

lemma byte_of_char [simp]: "byte_of (char_of_byte b) = b"
proof -
  have "unat b < 256"
    using unsigned_less [of b] by simp
  then show ?thesis
    by (simp add: byte_of_def char_of_byte_def of_char_of)
qed

lemma char_of_byte_of [simp]: "char_of_byte (byte_of c) = c"
proof -
  have "(of_char c :: nat) < 256"
    by simp
  then show ?thesis
    by (simp add: byte_of_def char_of_byte_def unat_of_nat)
qed

definition bytes_of :: "string \<Rightarrow> u8 list" where
  "bytes_of = map byte_of"

definition string_of :: "u8 list \<Rightarrow> string" where
  "string_of = map char_of_byte"

lemma bytes_of_string_of [simp]: "bytes_of (string_of bs) = bs"
  by (simp add: bytes_of_def string_of_def comp_def)

lemma string_of_bytes_of [simp]: "string_of (bytes_of s) = s"
  by (simp add: bytes_of_def string_of_def comp_def)

lemma length_bytes_of [simp]: "length (bytes_of s) = length s"
  by (simp add: bytes_of_def)

lemma length_string_of [simp]: "length (string_of bs) = length bs"
  by (simp add: string_of_def)

text \<open>The four bytes of a 32-bit value in memory, least significant first.\<close>

definition put32 :: "u32 \<Rightarrow> u8 list" where
  "put32 w = [ucast w, ucast (drop_bit 8 w), ucast (drop_bit 16 w), ucast (drop_bit 24 w)]"

fun get32 :: "u8 list \<Rightarrow> u32" where
  "get32 (a # b # c # d # _) =
     ucast a OR push_bit 8 (ucast b) OR push_bit 16 (ucast c) OR push_bit 24 (ucast d)"
| "get32 _ = 0"

lemma length_put32 [simp]: "length (put32 w) = 4"
  by (simp add: put32_def)

lemma get32_put32 [simp]: "get32 (put32 w @ bs) = w"
proof (rule bit_word_eqI)
  fix n
  assume "n < LENGTH(32)"
  then consider "n < 8" | "8 \<le> n" "n < 16" | "16 \<le> n" "n < 24" | "24 \<le> n" "n < 32"
    by fastforce
  then show "bit (get32 (put32 w @ bs)) n = bit w n"
    by cases (auto simp: put32_def bit_simps)
qed

lemma get32_append: "4 \<le> length xs \<Longrightarrow> get32 (xs @ ys) = get32 xs"
  by (cases xs rule: get32.cases) auto

lemma put32_get32 [simp]: "put32 (get32 [a, b, c, d]) = [a, b, c, d]"
  unfolding put32_def
proof (intro list.inject [THEN iffD2] conjI refl)
  have [simp]: "\<not> bit (w::u8) n" if "8 \<le> n" for w n
    using that by (auto dest: bit_imp_le_length)
  show "ucast (get32 [a, b, c, d]) = a" "ucast (drop_bit 8 (get32 [a, b, c, d])) = b"
    "ucast (drop_bit 16 (get32 [a, b, c, d])) = c" "ucast (drop_bit 24 (get32 [a, b, c, d])) = d"
    by (rule bit_word_eqI, force simp: bit_simps)+
qed

text \<open>\<open>htonl\<close> and \<open>ntohl\<close> reverse the four bytes.\<close>

definition htonl :: "u32 \<Rightarrow> u32" where
  "htonl w = get32 (rev (put32 w))"

lemma htonl_htonl [simp]: "htonl (htonl w) = w"
proof -
  obtain a b c d where p: "put32 w = [a, b, c, d]"
    by (simp add: put32_def)
  then show ?thesis
    using get32_put32 [of w "[]"] by (simp add: htonl_def del: get32.simps)
qed

text \<open>An \<open>int\<close> sent as \<open>(char *)&n, sizeof(n)\<close> and received the same way.\<close>

definition put_int :: "int \<Rightarrow> string" where
  "put_int n = string_of (put32 (word_of_int n))"

definition get_int :: "string \<Rightarrow> int" where
  "get_int s = sint (get32 (bytes_of s))"

lemma length_put_int [simp]: "length (put_int n) = 4"
  by (simp add: put_int_def)

lemma get_int_put_int:
  assumes "- 2147483648 \<le> n" and "n < 2147483648"
  shows "get_int (put_int n) = n"
proof -
  have "get_int (put_int n) = sint (word_of_int n :: u32)"
    using get32_put32 [of "word_of_int n" "[]"] by (simp add: get_int_def put_int_def)
  also have "\<dots> = n"
    using assms by (simp add: signed_of_int signed_take_bit_int_eq_self)
  finally show ?thesis .
qed

section \<open>Numerals\<close>

definition digit :: "nat \<Rightarrow> char" where
  "digit n = char_of (48 + n)"

fun dec :: "nat \<Rightarrow> string" where
  "dec n = (if n < 10 then [digit n] else dec (n div 10) @ [digit (n mod 10)])"

declare dec.simps [simp del]

text \<open>The value of a digit character in any base up to 16.\<close>

definition digit_val :: "char \<Rightarrow> nat option" where
  "digit_val c = (let n = of_char c :: nat in
     if 48 \<le> n \<and> n \<le> 57 then Some (n - 48)
     else if 97 \<le> n \<and> n \<le> 102 then Some (n - 87)
     else if 65 \<le> n \<and> n \<le> 70 then Some (n - 55)
     else None)"

text \<open>Reads digits of a base as far as they go: the value so far and what follows.\<close>

fun digits_from :: "nat \<Rightarrow> nat \<Rightarrow> string \<Rightarrow> nat \<times> string" where
  "digits_from base acc (c # s) =
     (case digit_val c of
        Some d \<Rightarrow> if d < base then digits_from base (acc * base + d) s else (acc, c # s)
      | None \<Rightarrow> (acc, c # s))"
| "digits_from base acc [] = (acc, [])"

definition is_space :: "char \<Rightarrow> bool" where
  "is_space c \<longleftrightarrow> c = CHR '' '' \<or> (let n = of_char c :: nat in 9 \<le> n \<and> n \<le> 13)"

text \<open>\<open>atoi\<close>: leading space, an optional sign, decimal digits; no digits give 0.\<close>

definition atoi :: "string \<Rightarrow> int" where
  "atoi s = (let t = dropWhile is_space s in
     case t of
       CHR ''-'' # u \<Rightarrow> - int (fst (digits_from 10 0 u))
     | CHR ''+'' # u \<Rightarrow> int (fst (digits_from 10 0 u))
     | _ \<Rightarrow> int (fst (digits_from 10 0 t)))"

lemma digit_val_digit: "n < 10 \<Longrightarrow> digit_val (digit n) = Some n"
  by (simp add: digit_val_def digit_def of_char_of)

lemma digits_from_digit:
  "n < 10 \<Longrightarrow> n < base \<Longrightarrow> digits_from base acc (digit n # s) = digits_from base (acc * base + n) s"
  by (simp add: digit_val_digit)

declare digits_from.simps(1) [simp del]

text \<open>Reading back a decimal numeral that is not followed by a digit.\<close>

definition stops :: "string \<Rightarrow> bool" where
  "stops s \<longleftrightarrow> (case s of [] \<Rightarrow> True | c # _ \<Rightarrow> digit_val c = None)"

lemma digits_from_stops: "stops s \<Longrightarrow> digits_from base acc s = (acc, s)"
  by (cases s) (auto simp: stops_def digits_from.simps)

lemma digits_from_dec_gen:
  "\<exists>k. digits_from 10 acc (dec n @ s) = digits_from 10 (acc * k + n) s"
proof (induction n arbitrary: acc s rule: dec.induct)
  case (1 n)
  show ?case
  proof (cases "n < 10")
    case True
    then show ?thesis
      by (intro exI [of _ 10]) (simp add: dec.simps [of n] digits_from_digit)
  next
    case False
    obtain k where k: "digits_from 10 acc (dec (n div 10) @ digit (n mod 10) # s) =
        digits_from 10 (acc * k + n div 10) (digit (n mod 10) # s)"
      using "1.IH" [OF False] by blast
    have "digits_from 10 acc (dec n @ s) = digits_from 10 (acc * (k * 10) + n) s"
      using False k by (simp add: dec.simps [of n] digits_from_digit algebra_simps)
    then show ?thesis by blast
  qed
qed

lemma digits_from_dec: "stops s \<Longrightarrow> digits_from 10 0 (dec n @ s) = (n, s)"
  using digits_from_dec_gen [of 0 n s] by (auto simp: digits_from_stops)

text \<open>A numeral starts with a digit, with a zero only for the number zero.\<close>

lemma dec_head: "\<exists>d u. dec n = digit d # u \<and> d < 10 \<and> (d = 0 \<longrightarrow> n = 0 \<and> u = [])"
proof (induction n rule: dec.induct)
  case (1 n)
  show ?case
  proof (cases "n < 10")
    case True
    then show ?thesis by (auto simp: dec.simps [of n])
  next
    case False
    with 1 obtain d u where "dec (n div 10) = digit d # u" "d < 10"
      and "d = 0 \<longrightarrow> n div 10 = 0 \<and> u = []" by blast
    with False show ?thesis by (auto simp: dec.simps [of n])
  qed
qed

section \<open>IPv4 addresses as text\<close>

text \<open>\<open>inet_ntoa\<close>: the bytes of \<open>s_addr\<close> in memory order, in decimal, with dots.\<close>

definition inet_ntoa :: "u32 \<Rightarrow> string" where
  "inet_ntoa a = (case put32 a of
     [p, q, r, t] \<Rightarrow> dec (unat p) @ ''.'' @ dec (unat q) @ ''.'' @ dec (unat r) @ ''.'' @ dec (unat t)
   | _ \<Rightarrow> [])"

text \<open>
  \<open>inet_aton\<close> accepts one to four parts, each decimal, octal (leading 0) or hexadecimal
  (leading 0x); all but the last fit a byte and the last fills the bytes left over. Space may
  follow the address.
\<close>

definition parse_part :: "string \<Rightarrow> (nat \<times> string) option" where
  "parse_part s = (case s of
     [] \<Rightarrow> None
   | c # u \<Rightarrow>
      (case digit_val c of
         None \<Rightarrow> None
       | Some d \<Rightarrow>
          if 10 \<le> d then None
          else if d \<noteq> 0 then Some (digits_from 10 0 s)
          else (case u of
              [] \<Rightarrow> Some (0, [])
            | x # v \<Rightarrow>
               if x = CHR ''x'' \<or> x = CHR ''X''
               then (let (n, r) = digits_from 16 0 v in if r = v then Some (0, u) else Some (n, r))
               else Some (digits_from 8 0 u))))"

fun aton_parts :: "nat \<Rightarrow> string \<Rightarrow> nat list option" where
  "aton_parts 0 s = None"
| "aton_parts (Suc k) s =
     (case parse_part s of
        None \<Rightarrow> None
      | Some (v, r) \<Rightarrow>
         (case r of
            [] \<Rightarrow> Some [v]
          | c # t \<Rightarrow>
             if c = CHR ''.'' then map_option (Cons v) (aton_parts k t)
             else if is_space c then Some [v] else None))"

fun aton_value :: "nat list \<Rightarrow> nat option" where
  "aton_value [a] = (if a < 2 ^ 32 then Some a else None)"
| "aton_value [a, b] = (if a < 256 \<and> b < 2 ^ 24 then Some (a * 2 ^ 24 + b) else None)"
| "aton_value [a, b, c] =
     (if a < 256 \<and> b < 256 \<and> c < 2 ^ 16 then Some (a * 2 ^ 24 + b * 2 ^ 16 + c) else None)"
| "aton_value [a, b, c, d] =
     (if a < 256 \<and> b < 256 \<and> c < 256 \<and> d < 256
      then Some (a * 2 ^ 24 + b * 2 ^ 16 + c * 2 ^ 8 + d) else None)"
| "aton_value _ = None"

definition inet_aton :: "string \<Rightarrow> u32 option" where
  "inet_aton s = (case aton_parts 4 s of
     None \<Rightarrow> None
   | Some ps \<Rightarrow> map_option (\<lambda>v. htonl (word_of_nat v)) (aton_value ps))"

text \<open>\<open>inet_addr\<close> returns \<open>INADDR_NONE\<close>, all ones, for a malformed address.\<close>

definition inet_addr :: "string \<Rightarrow> u32" where
  "inet_addr s = (case inet_aton s of None \<Rightarrow> - 1 | Some a \<Rightarrow> a)"

text \<open>
  \<open>inet_pton\<close> takes a dotted quad of decimal numbers without leading zeros only, that is,
  the text \<open>inet_ntoa\<close> prints.
\<close>

definition inet_pton :: "string \<Rightarrow> u32 option" where
  "inet_pton s = (case inet_aton s of
     None \<Rightarrow> None
   | Some a \<Rightarrow> if inet_ntoa a = s then Some a else None)"

definition INADDR_ANY :: u32 where
  "INADDR_ANY = 0"

lemma stops_sep [simp]: "stops []" "stops (CHR ''.'' # s)"
  by (simp_all add: stops_def digit_val_def)

lemma parse_part_dec:
  assumes "s = [] \<or> (\<exists>t. s = CHR ''.'' # t)"
  shows "parse_part (dec n @ s) = Some (n, s)"
proof -
  have stop: "stops s" using assms by auto
  obtain d u where dec: "dec n = digit d # u" and d: "d < 10" and zero: "d = 0 \<longrightarrow> n = 0 \<and> u = []"
    using dec_head by blast
  show ?thesis
  proof (cases "d = 0")
    case True
    with zero dec assms stop show ?thesis
      by (auto simp: parse_part_def digit_val_digit digits_from_stops)
  next
    case False
    then show ?thesis
      using digits_from_dec [OF stop, of n] dec d by (simp add: parse_part_def digit_val_digit)
  qed
qed

lemma aton_parts_last: "aton_parts (Suc k) (dec n) = Some [n]"
  using parse_part_dec [of "[]" n] by simp

lemma aton_parts_dot:
  "aton_parts (Suc k) (dec n @ CHR ''.'' # s) = map_option (Cons n) (aton_parts k s)"
  using parse_part_dec [of "CHR ''.'' # s" n] by simp

lemma put32_of_nat:
  assumes "a < 256" "b < 256" "c < 256" "d < 256"
  shows "put32 (word_of_nat (a * 2 ^ 24 + b * 2 ^ 16 + c * 2 ^ 8 + d)) =
    [word_of_nat d, word_of_nat c, word_of_nat b, word_of_nat a]"
proof -
  define N where "N = a * 2 ^ 24 + b * 2 ^ 16 + c * 2 ^ 8 + d"
  have "N < 4294967296"
    using assms unfolding N_def by simp
  then have small: "unat (word_of_nat N :: u32) = N"
    by (simp add: unat_of_nat)
  have byte: "(ucast (drop_bit k (word_of_nat N :: u32)) :: u8) = word_of_nat (N div 2 ^ k)" for k
    by (rule word_unat_eq_iff [THEN iffD2], simp only: unsigned_ucast_eq unat_drop_bit_eq small)
      (simp add: unat_of_nat take_bit_eq_mod drop_bit_eq_div)
  have low: "(word_of_nat n :: u8) = word_of_nat m" if "n mod 256 = m mod 256" for n m
    using that by (simp add: word_unat_eq_iff unat_of_nat)
  have N: "N = d + 256 * (c + 256 * (b + 256 * a))"
    by (simp add: N_def)
  then have d1: "N div 256 = c + 256 * (b + 256 * a)"
    using assms by simp
  then have d2: "N div 65536 = b + 256 * a"
    using assms div_mult2_eq [of N 256 256] by simp
  then have d3: "N div 16777216 = a"
    using assms div_mult2_eq [of N 65536 256] by simp
  have "N mod 256 = d mod 256"
    unfolding N by (rule mod_mult_self2)
  then have b0: "ucast (word_of_nat N :: u32) = (word_of_nat d :: u8)"
    using byte [of 0] low [of N d] by simp
  have "N div 256 mod 256 = c mod 256"
    unfolding d1 by (rule mod_mult_self2)
  then have b1: "ucast (drop_bit 8 (word_of_nat N :: u32)) = (word_of_nat c :: u8)"
    using byte [of 8] low [of "N div 256" c] by simp
  have "N div 65536 mod 256 = b mod 256"
    unfolding d2 by (rule mod_mult_self2)
  then have b2: "ucast (drop_bit 16 (word_of_nat N :: u32)) = (word_of_nat b :: u8)"
    using byte [of 16] low [of "N div 65536" b] by simp
  have b3: "ucast (drop_bit 24 (word_of_nat N :: u32)) = (word_of_nat a :: u8)"
    using byte [of 24] d3 by simp
  show ?thesis
    unfolding N_def [symmetric] put32_def by (simp only: b0 b1 b2 b3)
qed

lemma inet_aton_ntoa: "inet_aton (inet_ntoa a) = Some a"
proof -
  obtain p q r t where a: "put32 a = [p, q, r, t]"
    by (simp add: put32_def)
  have bounds: "unat p < 256" "unat q < 256" "unat r < 256" "unat t < 256"
    using unsigned_less [of p] unsigned_less [of q] unsigned_less [of r] unsigned_less [of t] by auto
  have "aton_parts 4 (inet_ntoa a) = Some [unat p, unat q, unat r, unat t]"
    by (simp add: inet_ntoa_def a numeral_eq_Suc aton_parts_dot aton_parts_last del: aton_parts.simps)
  moreover have "htonl (word_of_nat (unat p * 2 ^ 24 + unat q * 2 ^ 16 + unat r * 2 ^ 8 + unat t)) = a"
    using get32_put32 [of a "[]"] put32_of_nat [OF bounds] by (simp add: htonl_def a)
  ultimately show ?thesis
    using bounds by (simp add: inet_aton_def)
qed

end
