(* ===== verification/Ping.thy ===== *)
theory Ping
  imports Process Checksum Libc
begin

text \<open>
  The two ping programs on raw ICMP sockets. \<open>myping\<close> (fri/raw/myping.c) sends an echo
  request a second, waits with \<open>select\<close> and counts missing answers; \<open>my_ping2\<close>
  (fri/raw/my_ping2.c) sends from a SIGALRM handler and reports the round-trip time from the
  time stamp in the packet.
\<close>

section \<open>ICMP headers in memory\<close>

text \<open>\<open>struct icmphdr\<close> for echo messages; the 16-bit fields are in host byte order.\<close>

record icmphdr =
  icmp_type :: u8
  icmp_code :: u8
  icmp_cksum :: u16
  icmp_id :: u16
  icmp_seq :: u16

definition icmp_bytes :: "icmphdr \<Rightarrow> u8 list" where
  "icmp_bytes h = [icmp_type h, icmp_code h] @ put16 (icmp_cksum h) @
                  put16 (icmp_id h) @ put16 (icmp_seq h)"

text \<open>The header at the start of a block of at least eight bytes.\<close>

fun icmp_of :: "u8 list \<Rightarrow> icmphdr" where
  "icmp_of (t # c # k0 # k1 # i0 # i1 # s0 # s1 # _) =
     \<lparr>icmp_type = t, icmp_code = c, icmp_cksum = le16 k0 k1, icmp_id = le16 i0 i1, icmp_seq = le16 s0 s1\<rparr>"
| "icmp_of _ = \<lparr>icmp_type = 0, icmp_code = 0, icmp_cksum = 0, icmp_id = 0, icmp_seq = 0\<rparr>"

lemma length_icmp_bytes [simp]: "length (icmp_bytes h) = 8"
  by (simp add: icmp_bytes_def)

lemma icmp_of_bytes: "icmp_of (icmp_bytes h @ bs) = h"
  by (simp add: icmp_bytes_def put16_def le16_put16 [OF put16_def])

definition ICMP_ECHO :: u8 where "ICMP_ECHO = 8"
definition ICMP_ECHOREPLY :: u8 where "ICMP_ECHOREPLY = 0"

section \<open>myping\<close>

text \<open>
  \<open>send_ping\<close> clears \<open>sizeof(struct icmp)\<close> = 28 bytes of the send buffer, fills the
  header, sums all 28 bytes and sends the first 8. \<open>seqnum\<close> is a global \<open>int\<close> that is
  truncated into the header, as is the process id.
\<close>

definition ping_request :: "int \<Rightarrow> int \<Rightarrow> icmphdr" where
  "ping_request pid seqnum =
     (let icmp = \<lparr>icmp_type = ICMP_ECHO, icmp_code = 0, icmp_cksum = 0,
                  icmp_id = word_of_int pid, icmp_seq = word_of_int seqnum\<rparr>
      in icmp\<lparr>icmp_cksum := in_cksum (icmp_bytes icmp @ replicate 20 0) 28\<rparr>)"

definition prn_icmp :: "icmphdr \<Rightarrow> unit prog" where
  "prn_icmp icmp =
     pseq (printf ''[icmp](id:%d '' [I (uint (icmp_id icmp))])
    (pseq (printf ''seq:%d '' [I (uint (icmp_seq icmp))])
    (pseq (printf ''code:%d '' [I (uint (icmp_code icmp))])
          (printf ''type:%d )\<newline>'' [I (uint (icmp_type icmp))])))"

definition send_ping :: "fd \<Rightarrow> sockaddr_in \<Rightarrow> int \<Rightarrow> int \<Rightarrow> int prog" where
  "send_ping rawsock sendaddr pid seqnum =
     (let icmp = ping_request pid seqnum in
      pbind (sys_ret (SendTo rawsock (string_of (icmp_bytes icmp)) sendaddr)) (\<lambda>sendsize.
      pseq (prn_icmp icmp)
      (pret sendsize)))"

text \<open>
  \<open>prn_rcvping\<close> reads the IP header length from the low nibble of the first byte, and the
  ICMP header behind it, out of the 4096-byte receive buffer.
\<close>

definition ip_headlen :: "u8 list \<Rightarrow> nat" where
  "ip_headlen ip = unat (ip ! 0 AND 15) * 4"

definition ip_saddr :: "u8 list \<Rightarrow> u32" where
  "ip_saddr ip = get32 (drop 12 ip)"

definition prn_rcvping :: "u8 list \<Rightarrow> int \<Rightarrow> int prog" where
  "prn_rcvping ipdata recvsize =
     (let headlen = ip_headlen ipdata;
          icmp_len = recvsize - int headlen;
          icmp = icmp_of (drop headlen ipdata)
      in if icmp_type icmp \<noteq> ICMP_ECHOREPLY then pret (-1)
         else pseq (printf ''%d bytes recv from (%s) '' [I icmp_len, S (inet_ntoa (ip_saddr ipdata))])
             (pseq (prn_icmp icmp)
             (pret 0)))"

definition RBUFSIZE :: nat where "RBUFSIZE = 4096"

text \<open>
  The loop variables: the sequence number, the count of timeouts without an answer, and the
  receive buffer, which keeps what earlier packets left in it.
\<close>

record ping_state =
  seqnum :: int
  notrecv :: int
  recvbuf :: string

definition errquit :: "string \<Rightarrow> 'a prog" where
  "errquit msg = pseq (perror msg) (pexit 0)"

definition ping_iter :: "fd \<Rightarrow> sockaddr_in \<Rightarrow> int \<Rightarrow> ping_state \<Rightarrow> (ping_state, unit) iter prog" where
  "ping_iter rawsock sendaddr pid s =
     pbind (send_ping rawsock sendaddr pid (seqnum s)) (\<lambda>_.
     let s = s\<lparr>seqnum := seqnum s + 1\<rparr> in
     pbind (sys_ret (Select (rawsock + 1) [rawsock])) (\<lambda>ret.
     if ret = 0 then
       (let s = s\<lparr>notrecv := notrecv s + 1\<rparr> in
        if notrecv s = 3
        then pseq (printf ''Request Timeout ... \<newline>'' []) (pret (Next (s\<lparr>notrecv := 0\<rparr>)))
        else pret (Next s))
     else if ret < 0 then errquit ''select fail''
     else
       pbind (rrecvfrom rawsock RBUFSIZE) (\<lambda>(recvsize, d, _).
       if recvsize < 0 then errquit ''recvfrom fail ''
       else
         pbind (deliver (recvbuf s) 0 d) (\<lambda>buf.
         let s = s\<lparr>notrecv := 0, recvbuf := buf\<rparr> in
         pbind (prn_rcvping (bytes_of buf) recvsize) (\<lambda>_.
         pseq (sys_do (Sleep 1))
         (pret (Next s)))))))"

definition myping_main :: "string list \<Rightarrow> int \<Rightarrow> unit prog" where
  "myping_main argv pid =
     (if length argv \<noteq> 2 then
        pseq (printf ''Usage : %s  ip_address \<newline>'' [S (hd argv)]) (pexit 1)
      else
        let sendaddr = \<lparr>sin_family = 2, sin_port = htons 0,
              sin_addr = (case inet_pton (argv ! 1) of Some a \<Rightarrow> a | None \<Rightarrow> 0)\<rparr> in
        pbind (sys_ret (Socket 2 3 1)) (\<lambda>rawsock.
        if rawsock < 0 then errquit ''socket fail'' else
        pbind (sys_ret (Connect rawsock sendaddr)) (\<lambda>r.
        if r \<noteq> 0 then errquit ''connect fail '' else
        pseq (loop (ping_iter rawsock sendaddr pid)
                \<lparr>seqnum = 0, notrecv = 0, recvbuf = replicate RBUFSIZE NUL\<rparr>)
        (pexit 0))))"

section \<open>Properties of myping\<close>

text \<open>
  The sum covers 28 bytes while 8 are sent; the 20 bytes that stay behind are zero, so the 8
  bytes on the wire verify.
\<close>

lemma wsum_zeros: "wsum (replicate (2 * n) 0) = 0"
  by (induction n) auto

lemma wsum_replicate_20 [simp]: "wsum (replicate 20 0) = 0"
  using wsum_zeros [of 10] by simp

lemma icmp_cksum_field:
  "icmp_bytes h = [icmp_type h, icmp_code h] @ put16 (icmp_cksum h) @ (put16 (icmp_id h) @ put16 (icmp_seq h))"
  by (simp add: icmp_bytes_def)

text \<open>
  Every echo request \<open>myping\<close> sends carries a correct Internet checksum: for every
  process id and sequence number the ones' complement sum over the eight bytes on the wire is
  all ones, although \<open>send_ping\<close> sums 28 bytes of its buffer.
\<close>

theorem ping_request_verifies: "ocsum (wsum (icmp_bytes (ping_request pid n))) = 65535"
proof -
  let ?h = "\<lparr>icmp_type = ICMP_ECHO, icmp_code = 0, icmp_cksum = 0,
             icmp_id = word_of_int pid, icmp_seq = word_of_int n\<rparr>"
  let ?pre = "[ICMP_ECHO, 0]" and ?post = "put16 (icmp_id ?h) @ put16 (icmp_seq ?h)"
  have "put16 0 = [0, 0]" by (simp add: put16_def)
  then have zeroed: "icmp_bytes ?h @ replicate 20 0 = ?pre @ [0, 0] @ (?post @ replicate 20 0)"
    by (simp add: icmp_bytes_def)
  have "wsum (icmp_bytes (ping_request pid n)) = wsum (icmp_bytes (ping_request pid n) @ replicate 20 0)"
    by (simp add: wsum_append)
  also have "\<dots> = wsum (?pre @ put16 (in_cksum (?pre @ [0, 0] @ (?post @ replicate 20 0)) 28)
      @ (?post @ replicate 20 0))"
    unfolding ping_request_def Let_def zeroed by (simp add: icmp_bytes_def)
  finally show ?thesis
    using myping.field_verifies [of ?pre "?post @ replicate 20 0"] by simp
qed

text \<open>The loop variables between iterations.\<close>

definition ping_inv :: "ping_state \<Rightarrow> bool" where
  "ping_inv s \<longleftrightarrow> length (recvbuf s) = RBUFSIZE \<and> 0 \<le> notrecv s \<and> notrecv s < 3"

lemma got_bound: "length (snd (got n r)) \<le> n"
  by (simp add: got_def)

lemma wp_prn_icmp [wp_simps]:
  "wp (prn_icmp h) Q E w = Q () (w\<lparr>trace := trace w @
     [Printf ''[icmp](id:%d '' [I (uint (icmp_id h))], Printf ''seq:%d '' [I (uint (icmp_seq h))],
      Printf ''code:%d '' [I (uint (icmp_code h))],
      Printf ''type:%d )\<newline>'' [I (uint (icmp_type h))]]\<rparr>)"
  by (simp add: prn_icmp_def wp_simps)

lemma wp_prn_rcvping:
  "(\<And>r t. Q r (w\<lparr>trace := t\<rparr>)) \<Longrightarrow> wp (prn_rcvping ip n) Q E w"
  by (simp add: prn_rcvping_def wp_simps Let_def) (metis os.surjective os.update_convs(2))

lemma ping_iter_wp:
  assumes "ping_inv s"
  shows "wp (ping_iter rawsock a pid s)
    (\<lambda>r w'. \<exists>s'. r = Next s' \<and> ping_inv s' \<and> length (replies w') < length (replies w))
    (\<lambda>x _. no_fault x) w"
  using assms
  by (auto simp: ping_iter_def send_ping_def rrecvfrom_def errquit_def wp_simps Let_def ping_inv_def
        got_bound split: list.splits intro!: wp_prn_rcvping)


text \<open>
  The timeout counter: after any number of seconds without an answer the loop is still running
  and has printed one message for every three of them.
\<close>

abbreviation timeout_line :: call where
  "timeout_line \<equiv> Printf ''Request Timeout ... \<newline>'' []"

definition timeouts :: "call list \<Rightarrow> nat" where
  "timeouts tr = length (filter (\<lambda>c. c = timeout_line) tr)"

lemma timeouts_append [simp]: "timeouts (xs @ ys) = timeouts xs + timeouts ys"
  by (simp add: timeouts_def)

lemma timeouts_Cons [simp]: "timeouts (c # cs) = (if c = timeout_line then 1 else 0) + timeouts cs"
  by (simp add: timeouts_def)

lemma timeouts_Nil [simp]: "timeouts [] = 0"
  by (simp add: timeouts_def)

text \<open>A second without an answer: \<open>sendto\<close> succeeds and \<open>select\<close> returns 0.\<close>

definition silent :: "nat \<Rightarrow> reply list" where
  "silent k = concat (replicate k [rc 8, rc 0])"

lemma silent_simps [simp]: "silent 0 = []" "silent (Suc k) = rc 8 # rc 0 # silent k"
  by (simp_all add: silent_def)

lemma ping_iter_silent:
  "\<exists>tr'. ping_iter rawsock a pid s (st (rc 8 # rc 0 # rs) tr fs) =
     (Val (Next (s\<lparr>seqnum := seqnum s + 1,
        notrecv := (if notrecv s = 2 then 0 else notrecv s + 1)\<rparr>)), st rs (tr @ tr') fs) \<and>
     timeouts tr' = (if notrecv s = 2 then 1 else 0)"
  by (auto simp: ping_iter_def send_ping_def prn_icmp_def Let_def run_simps)

lemma ping_iter_blocked:
  "ping_iter rawsock a pid s (st [] tr fs) =
     (Abort Blocked, st [] (tr @ [SendTo rawsock (string_of (icmp_bytes (ping_request pid (seqnum s)))) a]) fs)"
  by (simp add: ping_iter_def send_ping_def Let_def run_simps)

text \<open>
  The timeout counter of \<open>myping\<close>: after \<open>k\<close> requests without an answer the loop is
  still waiting, and it has printed one timeout message for every three unanswered requests,
  counting those the counter held at the start.
\<close>

theorem ping_timeouts:
  assumes "0 \<le> notrecv s" and "notrecv s < 3"
  shows "\<exists>tr'. loop (ping_iter rawsock a pid) s (st (silent k) tr fs) = (Abort Blocked, st [] tr' fs) \<and>
     timeouts tr' = timeouts tr + (nat (notrecv s) + k) div 3"
  using assms
proof (induction k arbitrary: s tr)
  case 0
  then have "nat (notrecv s) div 3 = 0" by simp
  then show ?case
    by (simp add: loop_Abort [where body = "ping_iter rawsock a pid", OF ping_iter_blocked])
next
  case (Suc k)
  let ?s = "s\<lparr>seqnum := seqnum s + 1, notrecv := (if notrecv s = 2 then 0 else notrecv s + 1)\<rparr>"
  obtain tr1 where step: "ping_iter rawsock a pid s (st (silent (Suc k)) tr fs) =
      (Val (Next ?s), st (silent k) (tr @ tr1) fs)"
    and printed: "timeouts tr1 = (if notrecv s = 2 then 1 else 0)"
    using ping_iter_silent [of rawsock a pid s "silent k" tr fs] by auto
  have "(nat (notrecv s) + Suc k) div 3 = timeouts tr1 + (nat (notrecv ?s) + k) div 3"
    using Suc.prems printed by (auto simp: nat_add_distrib)
  moreover have "0 \<le> notrecv ?s" "notrecv ?s < 3"
    using Suc.prems by auto
  ultimately obtain tr' where "loop (ping_iter rawsock a pid) ?s (st (silent k) (tr @ tr1) fs) =
      (Abort Blocked, st [] tr' fs)"
    and "timeouts tr' = timeouts tr + (nat (notrecv s) + Suc k) div 3"
    using Suc.IH [of ?s "tr @ tr1"] by auto
  with loop_Next [where body = "ping_iter rawsock a pid", OF step] show ?case
    by auto
qed

theorem ping_timeouts_witness:
  "\<exists>tr'. loop (ping_iter 3 no_addr 1) \<lparr>seqnum = 0, notrecv = 0, recvbuf = []\<rparr>
      (st (silent 7) [] Map.empty) = (Abort Blocked, st [] tr' Map.empty) \<and> timeouts tr' = 2"
  using ping_timeouts [of "\<lparr>seqnum = 0, notrecv = 0, recvbuf = []\<rparr>" 3 no_addr 1 7 "[]" Map.empty]
  by (simp add: numeral_2_eq_2)

section \<open>my_ping2\<close>

record timeval =
  tv_sec :: int
  tv_usec :: int

definition tv_sub :: "timeval \<Rightarrow> timeval \<Rightarrow> timeval" where
  "tv_sub out inn =
     (let out = out\<lparr>tv_usec := tv_usec out - tv_usec inn\<rparr>;
          out = (if tv_usec out < 0
                 then out\<lparr>tv_sec := tv_sec out - 1, tv_usec := tv_usec out + 1000000\<rparr> else out)
      in out\<lparr>tv_sec := tv_sec out - tv_sec inn\<rparr>)"

text \<open>A \<open>struct timeval\<close> in memory: two \<open>long\<close>s of 32 bits.\<close>

definition tv_bytes :: "timeval \<Rightarrow> u8 list" where
  "tv_bytes t = put32 (word_of_int (tv_sec t)) @ put32 (word_of_int (tv_usec t))"

definition tv_of :: "u8 list \<Rightarrow> timeval" where
  "tv_of bs = \<lparr>tv_sec = sint (get32 bs), tv_usec = sint (get32 (drop 4 bs))\<rparr>"

text \<open>
  \<open>send_msg\<close>: an echo request with 56 bytes of data \<open>0xa5\<close>, the time of day over the
  first eight, and the sum of all 64 bytes.
\<close>

definition send_msg :: "u16 \<Rightarrow> int \<Rightarrow> timeval \<Rightarrow> u8 list" where
  "send_msg pid nsent now =
     (let icmp = \<lparr>icmp_type = ICMP_ECHO, icmp_code = 0, icmp_cksum = 0,
                  icmp_id = pid, icmp_seq = word_of_int nsent\<rparr>;
          body = tv_bytes now @ replicate 48 0xa5;
          c = cksum_in (icmp_bytes icmp @ body) 64
      in icmp_bytes (icmp\<lparr>icmp_cksum := c\<rparr>) @ body)"

text \<open>What the loop body of \<open>handlePing\<close> does with a received packet.\<close>

datatype verdict = Leave | Ignore | Report int u16 u8 timeval

definition ping2_packet :: "u16 \<Rightarrow> u32 \<Rightarrow> int \<Rightarrow> u8 list \<Rightarrow> timeval \<Rightarrow> verdict" where
  "ping2_packet pid target len rbuf now =
     (let hlen = ip_headlen rbuf in
      if rbuf ! 9 \<noteq> 1 then Leave
      else if ip_saddr rbuf = target then
        (let icmp = icmp_of (drop hlen rbuf); icmplen = len - int hlen in
         if icmp_type icmp = ICMP_ECHOREPLY then
           (if icmp_id icmp \<noteq> pid then Leave
            else Report icmplen (icmp_seq icmp) (rbuf ! 8)
                   (tv_sub now (tv_of (drop (hlen + 8) rbuf))))
         else Ignore)
      else Ignore)"

text \<open>
  The program is driven by two kinds of events: the alarm signal, whose handler sends a request
  and arms the alarm again, and the return of \<open>recvfrom\<close>.
\<close>

datatype ping2_event = SigAlrm timeval | Packet string timeval | RecvFailed

datatype ping2_output = Sent "u8 list" | Armed nat | Shown verdict | Message string

datatype ending = Running | Returned | Exited int

record ping2 =
  nsent :: int
  rbuf :: string
  outputs :: "ping2_output list"

definition sig_alrm :: "u16 \<Rightarrow> timeval \<Rightarrow> ping2 \<Rightarrow> ping2" where
  "sig_alrm pid now p = p\<lparr>nsent := nsent p + 1,
     outputs := outputs p @ [Sent (send_msg pid (nsent p) now), Armed 1]\<rparr>"

fun ping2_step :: "u16 \<Rightarrow> u32 \<Rightarrow> ping2 \<Rightarrow> ping2_event \<Rightarrow> ping2 \<times> ending" where
  "ping2_step pid target p (SigAlrm now) = (sig_alrm pid now p, Running)"
| "ping2_step pid target p RecvFailed =
     (p\<lparr>outputs := outputs p @ [Message ''read error'']\<rparr>, Exited (-1))"
| "ping2_step pid target p (Packet d now) =
     (let d = take 1500 d; p = p\<lparr>rbuf := overlay (rbuf p) 0 d\<rparr> in
      case ping2_packet pid target (int (length d)) (bytes_of (rbuf p)) now of
        Leave \<Rightarrow> (p, Returned)
      | Ignore \<Rightarrow> (p, Running)
      | v \<Rightarrow> (p\<lparr>outputs := outputs p @ [Shown v]\<rparr>, Running))"

fun ping2_run :: "u16 \<Rightarrow> u32 \<Rightarrow> ping2 \<Rightarrow> ping2_event list \<Rightarrow> ping2 \<times> ending" where
  "ping2_run pid target p [] = (p, Running)"
| "ping2_run pid target p (e # es) =
     (case ping2_step pid target p e of
        (p', Running) \<Rightarrow> ping2_run pid target p' es
      | (p', x) \<Rightarrow> (p', x))"

text \<open>\<open>main\<close> and the start of \<open>handlePing\<close>: a first call of \<open>sig_alrm\<close>, then the loop.\<close>

definition my_ping2_main :: "string list \<Rightarrow> int \<Rightarrow> int \<Rightarrow> timeval \<Rightarrow> string \<Rightarrow> ping2_event list \<Rightarrow> ping2 \<times> ending" where
  "my_ping2_main argv getpid sd now junk events =
     (let p = \<lparr>nsent = 0, rbuf = junk, outputs = []\<rparr> in
      if length argv \<noteq> 2 then (p\<lparr>outputs := [Message ''usage : ping doman_name'']\<rparr>, Exited (-1))
      else if sd < 0 then (p\<lparr>outputs := [Message ''socket open error'']\<rparr>, Exited (-1))
      else
        let pid = word_of_int getpid in
        ping2_run pid (inet_addr (argv ! 1)) (sig_alrm pid now p) events)"

section \<open>Properties of my_ping2\<close>

definition tv_us :: "timeval \<Rightarrow> int" where
  "tv_us t = tv_sec t * 1000000 + tv_usec t"

definition tv_normal :: "timeval \<Rightarrow> bool" where
  "tv_normal t \<longleftrightarrow> 0 \<le> tv_usec t \<and> tv_usec t < 1000000"

lemma tv_sub_us: "tv_us (tv_sub a b) = tv_us a - tv_us b"
  by (simp add: tv_sub_def tv_us_def Let_def algebra_simps)

lemma tv_sub_normal: "tv_normal a \<Longrightarrow> tv_normal b \<Longrightarrow> tv_normal (tv_sub a b)"
  by (auto simp: tv_sub_def tv_normal_def Let_def)

text \<open>A time of day that fits the 32-bit fields.\<close>

definition tv_fits :: "timeval \<Rightarrow> bool" where
  "tv_fits t \<longleftrightarrow> tv_normal t \<and> 0 \<le> tv_sec t \<and> tv_sec t < 2147483648"

lemma tv_of_bytes: "tv_fits t \<Longrightarrow> tv_of (tv_bytes t @ bs) = t"
  using get_int_put_int [of "tv_sec t"] get_int_put_int [of "tv_usec t"]
  by (simp add: tv_of_def tv_bytes_def tv_fits_def tv_normal_def signed_of_int
      signed_take_bit_int_eq_self)

lemma length_send_msg [simp]: "length (send_msg pid n t) = 64"
  by (simp add: send_msg_def Let_def tv_bytes_def)

text \<open>
  Every request of \<open>my_ping2\<close> verifies: the ones' complement sum over the 64 bytes sent,
  header, time stamp and padding, is all ones.
\<close>

theorem ping2_request_verifies: "ocsum (wsum (send_msg pid n now)) = 65535"
proof -
  let ?pre = "[ICMP_ECHO, 0]"
  let ?post = "(put16 pid @ put16 (word_of_int n)) @ tv_bytes now @ replicate 48 0xa5"
  have zero: "put16 0 = [0, 0]" by (simp add: put16_def)
  have "send_msg pid n now = ?pre @ put16 (cksum_in (?pre @ [0, 0] @ ?post) 64) @ ?post"
    by (simp add: send_msg_def icmp_bytes_def zero Let_def)
  then show ?thesis
    using ping2.field_verifies [of ?pre ?post] by (simp add: tv_bytes_def)
qed

text \<open>
  The echo reply of a host: an IP header without options, the type 0 and some code and
  checksum, and the rest of the request as it was sent.
\<close>

definition ip_header :: "u32 \<Rightarrow> u8 list \<Rightarrow> bool" where
  "ip_header src h \<longleftrightarrow> length h = 20 \<and> h ! 0 AND 15 = 5 \<and> h ! 9 = 1 \<and> get32 (drop 12 h) = src"

definition echo_reply :: "u8 list \<Rightarrow> u8 list \<Rightarrow> u8 list \<Rightarrow> u8 list" where
  "echo_reply h ck req = h @ ICMP_ECHOREPLY # ck @ drop 4 req"

lemma send_msg_tail:
  "drop 4 (send_msg pid n t) = put16 pid @ put16 (word_of_int n) @ tv_bytes t @ replicate 48 0xa5"
  by (simp add: send_msg_def icmp_bytes_def Let_def)

lemma ping2_packet_reply:
  assumes h: "ip_header target h" and ck: "length ck = 3" and fits: "tv_fits sent"
  shows "ping2_packet pid target len (echo_reply h ck (send_msg ident n sent) @ rest) now =
    (if ident = pid then Report (len - 20) (word_of_int n) (h ! 8) (tv_sub now sent) else Leave)"
proof -
  let ?r = "echo_reply h ck (send_msg ident n sent) @ rest"
  obtain c k0 k1 where ck': "ck = [c, k0, k1]"
    using ck by (auto simp: numeral_3_eq_3 length_Suc_conv)
  have len: "length h = 20" and ihl: "ip_headlen ?r = 20"
    using h by (simp_all add: ip_header_def ip_headlen_def echo_reply_def nth_append)
  have src: "ip_saddr ?r = target"
    using h by (simp add: ip_header_def ip_saddr_def echo_reply_def get32_append)
  let ?icmp = "\<lparr>icmp_type = ICMP_ECHOREPLY, icmp_code = c, icmp_cksum = le16 k0 k1,
      icmp_id = ident, icmp_seq = word_of_int n\<rparr>"
  have behind: "drop 20 ?r = icmp_bytes ?icmp @ tv_bytes sent @ replicate 48 0xa5 @ rest"
    using len ck' by (simp add: echo_reply_def send_msg_tail icmp_bytes_def put16_le16)
  have icmp: "icmp_of (drop 20 ?r) = ?icmp"
    unfolding behind by (rule icmp_of_bytes)
  have "drop (20 + 8) ?r = drop 8 (drop 20 ?r)"
    by (simp only: drop_drop add.commute)
  also have "\<dots> = tv_bytes sent @ replicate 48 0xa5 @ rest"
    unfolding behind by simp
  finally have "tv_of (drop (20 + 8) ?r) = sent"
    by (simp only: tv_of_bytes [OF fits])
  note icmp = icmp this
  have "?r ! 9 = 1" "?r ! 8 = h ! 8"
    using h by (simp_all add: ip_header_def echo_reply_def nth_append)
  note parts = this
  show ?thesis
    by (simp only: ping2_packet_def Let_def ihl src icmp parts) simp
qed

text \<open>The receive buffer is long enough for the reply.\<close>

lemma ping2_step_reply:
  assumes h: "ip_header target h" and ck: "length ck = 3" and fits: "tv_fits sent"
    and buf: "length (rbuf p) = 1500"
  shows "ping2_step pid target p (Packet (string_of (echo_reply h ck (send_msg ident n sent))) now) =
    (let p' = p\<lparr>rbuf := overlay (rbuf p) 0 (string_of (echo_reply h ck (send_msg ident n sent)))\<rparr> in
     if ident = pid
     then (p'\<lparr>outputs := outputs p @ [Shown (Report 64 (word_of_int n) (h ! 8) (tv_sub now sent))]\<rparr>, Running)
     else (p', Returned))"
proof -
  let ?d = "string_of (echo_reply h ck (send_msg ident n sent))"
  have len: "length ?d = 84"
    using h ck by (simp add: echo_reply_def ip_header_def)
  have "bytes_of (overlay (rbuf p) 0 ?d) =
      echo_reply h ck (send_msg ident n sent) @ bytes_of (drop 84 (rbuf p))"
    using len by (simp add: overlay_def bytes_of_def) (simp add: bytes_of_def [symmetric])
  with len show ?thesis
    by (simp add: ping2_packet_reply [OF h ck fits])
qed

text \<open>
  C30. The round trip of \<open>my_ping2\<close>: the echo reply to one of its own requests is reported
  with the request's sequence number, 64 bytes, the TTL of the reply, and the time elapsed
  between the stamp in the request and the arrival, to the microsecond; the program goes on.
\<close>

theorem ping2_round_trip:
  assumes "ip_header target h" and "length ck = 3" and "tv_fits sent" and "length (rbuf p) = 1500"
  shows "\<exists>rtt buf. ping2_step pid target p
      (Packet (string_of (echo_reply h ck (send_msg pid n sent))) now) =
      (p\<lparr>rbuf := buf, outputs := outputs p @ [Shown (Report 64 (word_of_int n) (h ! 8) rtt)]\<rparr>, Running) \<and>
    tv_us rtt = tv_us now - tv_us sent"
  by (rule exI [of _ "tv_sub now sent"])
    (auto simp: ping2_step_reply [OF assms] tv_sub_us Let_def simp del: ping2_step.simps)

definition sample_ip :: "u8 list" where
  "sample_ip = [0x45, 0, 0, 84, 0, 0, 0, 0, 64, 1, 0, 0, 127, 0, 0, 1, 127, 0, 0, 1]"

lemma sample_ip_header: "ip_header 0x0100007f sample_ip"
  by (simp add: ip_header_def sample_ip_def)

definition ping2_start :: ping2 where
  "ping2_start = \<lparr>nsent = 1, rbuf = replicate 1500 NUL, outputs = []\<rparr>"

lemma ping2_start_rbuf: "length (rbuf ping2_start) = 1500"
  by (simp add: ping2_start_def)

theorem ping2_round_trip_witness:
  "\<exists>rtt buf. ping2_step 7 0x0100007f ping2_start (Packet (string_of (echo_reply sample_ip [0, 0, 0]
       (send_msg 7 1 \<lparr>tv_sec = 5, tv_usec = 999900\<rparr>))) \<lparr>tv_sec = 6, tv_usec = 150\<rparr>) =
     (ping2_start\<lparr>rbuf := buf, outputs := outputs ping2_start @ [Shown (Report 64 (word_of_int 1) (sample_ip ! 8) rtt)]\<rparr>,
      Running) \<and>
     tv_us rtt = tv_us \<lparr>tv_sec = 6, tv_usec = 150\<rparr> - tv_us \<lparr>tv_sec = 5, tv_usec = 999900\<rparr>"
  by (rule ping2_round_trip [OF sample_ip_header _ _ ping2_start_rbuf])
    (simp_all add: tv_fits_def tv_normal_def)

text \<open>
  A reply to another process's request (a second ping running on the host, since a raw socket
  receives every ICMP packet) ends \<open>my_ping2\<close>: \<open>handlePing\<close> returns from inside its
  loop, and whatever arrives later is not looked at.
\<close>

theorem ping2_foreign_reply_ends:
  assumes "ip_header target h" and "length ck = 3" and "tv_fits sent" and "length (rbuf p) = 1500"
    and "ident \<noteq> pid"
  shows "snd (ping2_run pid target p
      (Packet (string_of (echo_reply h ck (send_msg ident n sent))) now # es)) = Returned"
  using assms(5) by (simp add: ping2_step_reply [OF assms(1-4)] Let_def del: ping2_step.simps)

theorem ping2_foreign_reply_ends_witness:
  "snd (ping2_run 7 0x0100007f ping2_start (Packet (string_of (echo_reply sample_ip [0, 0, 0]
       (send_msg 8 1 \<lparr>tv_sec = 5, tv_usec = 0\<rparr>))) \<lparr>tv_sec = 6, tv_usec = 0\<rparr> # [])) = Returned"
  by (rule ping2_foreign_reply_ends [OF sample_ip_header _ _ ping2_start_rbuf])
    (simp_all add: tv_fits_def tv_normal_def)

end
