(* ===== verification/PortScan.thy ===== *)
theory PortScan
  imports Process Checksum Libc
begin

text \<open>
  Raw TCP: the SYN scanner (fri/port_stat/port_scan_sys.c) builds IP and TCP headers by hand and
  reads the answers off a raw socket, the packet reader (fri/read/read_packet.c) prints the
  headers of whatever arrives, and the state server (fri/port_stat/port_stat.c) accepts and
  greets. Raw packets are read at offsets the packet itself gives, so every field access
  checks the bounds of the 40-byte buffer.
\<close>

section \<open>Headers in memory\<close>

record iphdr =
  ip_version :: u8
  ip_ihl :: u8
  ip_tos :: u8
  ip_tot_len :: u16
  ip_id :: u16
  ip_frag_off :: u16
  ip_ttl :: u8
  ip_protocol :: u8
  ip_check :: u16
  ip_src :: u32
  ip_dst :: u32

record tcphdr =
  source :: u16
  dest :: u16
  seq :: u32
  ack_seq :: u32
  doff :: u8
  res1 :: u8
  fin :: bool
  syn :: bool
  rst :: bool
  psh :: bool
  ack :: bool
  urg :: bool
  window :: u16
  tcp_check :: u16
  urg_ptr :: u16

record pseudohdr =
  ph_saddr :: u32
  ph_daddr :: u32
  ph_zero :: u8
  ph_protocol :: u8
  ph_length :: u16

definition ip_bytes :: "iphdr \<Rightarrow> u8 list" where
  "ip_bytes h = [ip_ihl h OR push_bit 4 (ip_version h), ip_tos h] @ put16 (ip_tot_len h) @
     put16 (ip_id h) @ put16 (ip_frag_off h) @ [ip_ttl h, ip_protocol h] @ put16 (ip_check h) @
     put32 (ip_src h) @ put32 (ip_dst h)"

definition tcp_flags :: "tcphdr \<Rightarrow> u8" where
  "tcp_flags h = of_bool (fin h) + 2 * of_bool (syn h) + 4 * of_bool (rst h) +
     8 * of_bool (psh h) + 16 * of_bool (ack h) + 32 * of_bool (urg h)"

definition tcp_bytes :: "tcphdr \<Rightarrow> u8 list" where
  "tcp_bytes h = put16 (source h) @ put16 (dest h) @ put32 (seq h) @ put32 (ack_seq h) @
     [res1 h OR push_bit 4 (doff h), tcp_flags h] @ put16 (window h) @ put16 (tcp_check h) @
     put16 (urg_ptr h)"

definition pseudo_bytes :: "pseudohdr \<Rightarrow> u8 list" where
  "pseudo_bytes h = put32 (ph_saddr h) @ put32 (ph_daddr h) @ [ph_zero h, ph_protocol h] @
     put16 (ph_length h)"

section \<open>The probe\<close>

text \<open>The scanner's own copy of the checksum routine is that of \<open>my_ping2\<close>.\<close>

definition scan_cksum_in :: "u8 list \<Rightarrow> int \<Rightarrow> u16" where
  "scan_cksum_in = cksum_in"

definition LOCAL_IP :: string where "LOCAL_IP = ''192.168.100.2''"
definition LOCAL_PORT :: u16 where "LOCAL_PORT = 9000"
definition IPPROTO_TCP :: u8 where "IPPROTO_TCP = 6"

definition pseudo_header :: "u32 \<Rightarrow> pseudohdr" where
  "pseudo_header target = \<lparr>ph_saddr = inet_addr LOCAL_IP, ph_daddr = target, ph_zero = 0,
     ph_protocol = IPPROTO_TCP, ph_length = htons 20\<rparr>"

text \<open>
  \<open>random() % time(NULL)\<close> is the argument \<open>rnd\<close>; \<open>htons\<close> keeps 16 bits of it, and the
  result goes into the 32-bit sequence number.
\<close>

definition syn_header :: "u32 \<Rightarrow> int \<Rightarrow> int \<Rightarrow> tcphdr" where
  "syn_header target port rnd =
     (let tcph = \<lparr>source = htons LOCAL_PORT, dest = htons (word_of_int port),
            seq = ucast (htons (word_of_int rnd)), ack_seq = 0, doff = 5, res1 = 0,
            fin = False, syn = True, rst = False, psh = False, ack = False, urg = False,
            window = htons 1024, tcp_check = 0, urg_ptr = 0\<rparr>
      in tcph\<lparr>tcp_check := scan_cksum_in (tcp_bytes tcph @ pseudo_bytes (pseudo_header target)) 32\<rparr>)"

definition ip_header_out :: "u32 \<Rightarrow> iphdr" where
  "ip_header_out target =
     (let iph = \<lparr>ip_version = 4, ip_ihl = 5, ip_tos = 0, ip_tot_len = htons 52 - 12,
            ip_id = 0, ip_frag_off = 0, ip_ttl = 64, ip_protocol = IPPROTO_TCP, ip_check = 0,
            ip_src = inet_addr LOCAL_IP, ip_dst = target\<rparr>
      in iph\<lparr>ip_check := scan_cksum_in (ip_bytes iph) 20\<rparr>)"

text \<open>\<open>sendto\<close> sends the first 40 of the 52 bytes of \<open>tx_packet\<close>.\<close>

definition tx_packet :: "u32 \<Rightarrow> int \<Rightarrow> int \<Rightarrow> u8 list" where
  "tx_packet target port rnd = ip_bytes (ip_header_out target) @
     tcp_bytes (syn_header target port rnd) @ pseudo_bytes (pseudo_header target)"

section \<open>Reading packets\<close>

definition peek :: "u8 list \<Rightarrow> nat \<Rightarrow> u8 prog" where
  "peek bs i = (if i < length bs then pret (bs ! i) else pfault OutOfBounds)"

definition peek16 :: "u8 list \<Rightarrow> nat \<Rightarrow> u16 prog" where
  "peek16 bs i = pbind (peek bs i) (\<lambda>a. pbind (peek bs (i + 1)) (\<lambda>b. pret (le16 a b)))"

text \<open>The six flag characters of a TCP header, as both programs print them.\<close>

definition flag_char :: "u8 \<Rightarrow> nat \<Rightarrow> string \<Rightarrow> unit prog" where
  "flag_char flags i name = (if bit flags i then printf name [] else printf ''-'' [])"

definition print_flags :: "u8 \<Rightarrow> unit prog" where
  "print_flags flags =
     pseq (flag_char flags 5 ''U'') (pseq (flag_char flags 4 ''A'') (pseq (flag_char flags 3 ''P'')
     (pseq (flag_char flags 2 ''R'') (pseq (flag_char flags 1 ''S'') (flag_char flags 0 ''F'')))))"

definition ihl_of :: "u8 \<Rightarrow> nat" where
  "ihl_of b = unat (b AND 15) * 4"

definition RX_SIZE :: nat where "RX_SIZE = 40"

section \<open>scan_syn_port\<close>

text \<open>
  The services database is the argument \<open>services\<close>; the code uses the answer of
  \<open>getservbyport\<close> without a test for NULL.
\<close>

definition scan_reply :: "(u16 \<Rightarrow> string option) \<Rightarrow> int \<Rightarrow> u8 list \<Rightarrow> nat \<Rightarrow> u16 \<Rightarrow> u16 \<Rightarrow> unit prog" where
  "scan_reply services port rx off src dst =
     pseq (printf ''[rx] %u->%u  '' [I (uint (ntohs src)), I (uint (ntohs dst))])
    (pbind (peek rx (off + 13)) (\<lambda>flags.
     pseq (print_flags flags)
     (if bit flags 1 \<and> bit flags 4 then
        (case services (htons (word_of_int port)) of
           Some name \<Rightarrow> printf '' port[%d] open/%s \<newline>'' [I (uint (ntohs src)), S name]
         | None \<Rightarrow> pfault NullPointer)
      else if bit flags 2 then printf '' *\<newline>'' []
      else pseq (printf ''protocol error\<newline>'' []) (pexit (-1)))))"

definition scan_iter :: "(u16 \<Rightarrow> string option) \<Rightarrow> fd \<Rightarrow> u32 \<Rightarrow> int \<Rightarrow> u8 list \<Rightarrow> (u8 list, unit) iter prog" where
  "scan_iter services sd target port rx =
     pbind (rrecvfrom sd RX_SIZE) (\<lambda>(n, d, _).
     if n \<le> 0 then pret (Stop ()) else
     pbind (deliver (string_of rx) 0 d) (\<lambda>buf.
     let rx = bytes_of buf; off = ihl_of (rx ! 0) in
     if get32 (drop 12 rx) \<noteq> target then pret (Next rx) else
     pbind (peek16 rx (off + 2)) (\<lambda>dst.
     if LOCAL_PORT \<noteq> ntohs dst then pret (Next rx) else
     pbind (peek16 rx off) (\<lambda>src.
     if word_of_int port \<noteq> ntohs src then pret (Next rx) else
     pseq (scan_reply services port rx off src dst)
     (pret (Stop ()))))))"

definition scan_syn_port ::
  "(u16 \<Rightarrow> string option) \<Rightarrow> int \<Rightarrow> u8 list \<Rightarrow> u32 \<Rightarrow> int \<Rightarrow> unit prog" where
  "scan_syn_port services rnd junk target port =
     pbind (sys_ret (Socket 2 3 6)) (\<lambda>sd.
     if sd < 0 then pseq (printf ''socket open error\<newline>'' []) (pexit (-1)) else
     pbind (sys_ret (Sockopt sd 0 3)) (\<lambda>r.
     if r < 0 then pseq (printf ''set socket option error\<newline>'' []) (pexit (-2)) else
     let packet = tx_packet target port rnd; tcph = syn_header target port rnd in
     pbind (sys_ret (SendTo sd (string_of (take 40 packet)) \<lparr>sin_family = 2, sin_port = 0, sin_addr = target\<rparr>)) (\<lambda>r.
     if r < 0 then pseq (printf ''send error\<newline>'' []) (pexit (-3)) else
     pseq (printf ''[tx] %u->%u '' [I (uint (ntohs (source tcph))), I (uint (ntohs (dest tcph)))])
    (pseq (print_flags (tcp_flags tcph))
    (pseq (loop (scan_iter services sd target port) junk)
    (emit (Close sd)))))))"

definition START_PORT :: int where "START_PORT = 80"
definition END_PORT :: int where "END_PORT = 90"

text \<open>
  \<open>resolve\<close> is \<open>gethostbyname\<close>; each port draws its own random number and gets whatever
  \<open>malloc\<close> left in the receive buffer.
\<close>

definition portscan_main ::
  "(string \<Rightarrow> u32 option) \<Rightarrow> (u16 \<Rightarrow> string option) \<Rightarrow> (int \<Rightarrow> int) \<Rightarrow> (int \<Rightarrow> u8 list) \<Rightarrow> string list \<Rightarrow> unit prog" where
  "portscan_main resolve services rnd junk argv =
     (let scan = (\<lambda>target. pfor [START_PORT..END_PORT] (\<lambda>port _.
            pseq (printf ''port %d scanning..'' [I port])
              (scan_syn_port services (rnd port) (junk port) target port)) ())
      in if length argv < 2 then pseq (printf ''usage : portscan domain_name\<newline>'' []) (pexit (-1))
      else if inet_addr (argv ! 1) = - 1 then
        (case resolve (argv ! 1) of
           None \<Rightarrow> pseq (printf ''gethostbyname error\<newline>'' []) (pexit 4)
         | Some target \<Rightarrow> scan target)
      else scan (inet_addr (argv ! 1)))"

section \<open>read_packet\<close>

definition print_ip :: "u8 list \<Rightarrow> unit prog" where
  "print_ip rx =
     pseq (printf ''[IP  HEADER] VER: %1u HL : %2u Protocol : %3u ''
        [I (uint (drop_bit 4 (rx ! 0))), I (uint (rx ! 0 AND 15)), I (uint (rx ! 9))])
    (pseq (printf ''SRC  IP: %15s '' [S (inet_ntoa (get32 (drop 12 rx)))])
     (printf ''DEST IP: %15s \<newline>'' [S (inet_ntoa (get32 (drop 16 rx)))]))"

definition print_tcp :: "u8 list \<Rightarrow> nat \<Rightarrow> unit prog" where
  "print_tcp rx off =
     pbind (peek16 rx off) (\<lambda>src. pbind (peek16 rx (off + 2)) (\<lambda>dst.
     pseq (printf ''[TCP HEADER] src port: %5u dest port : %5u  '' [I (uint (ntohs src)), I (uint (ntohs dst))])
    (pbind (peek rx (off + 13)) (\<lambda>flags.
     pseq (print_flags flags)
     (printf ''\<newline>\<newline>'' [])))))"

definition read_packet_iter :: "fd \<Rightarrow> unit \<Rightarrow> (unit, unit) iter prog" where
  "read_packet_iter sd _ =
     pbind (rrecvfrom sd RX_SIZE) (\<lambda>(n, d, _).
     if n < 0 then pseq (printf ''recvfrom error\<newline>'' []) (pexit (-2)) else
     pbind (deliver (replicate RX_SIZE NUL) 0 d) (\<lambda>buf.
     let rx = bytes_of buf in
     pseq (print_ip rx)
    (pseq (print_tcp rx (ihl_of (rx ! 0)))
     (pret (Next ())))))"

definition read_packet_main :: "unit prog" where
  "read_packet_main =
     pbind (sys_ret (Socket 2 3 6)) (\<lambda>sd.
     if sd < 0 then pseq (printf ''socket open error\<newline>'' []) (pexit (-1)) else
     pseq (loop (read_packet_iter sd) ()) (emit (Close sd)))"

section \<open>port_stat\<close>

text \<open>
  \<open>exit -1;\<close> is an expression whose value is thrown away: after the usage message the
  program goes on, and \<open>argv[1]\<close> is NULL if there is no argument.
\<close>

definition arg_at :: "string list \<Rightarrow> nat \<Rightarrow> string prog" where
  "arg_at argv i = (if i < length argv then pret (argv ! i) else pfault NullPointer)"

definition port_stat_iter :: "fd \<Rightarrow> unit \<Rightarrow> (unit, unit) iter prog" where
  "port_stat_iter s _ =
     pbind (sys_ret (Accept s)) (\<lambda>c.
     pseq (sys_do (Write c ''TCP state test''))
     (pret (Next ())))"

definition port_stat_main :: "string list \<Rightarrow> unit prog" where
  "port_stat_main argv =
     pseq (if length argv \<noteq> 2 then printf ''usage: TCPserver port_number\<newline>'' [] else pret ())
    (pbind (sys_ret (Socket 2 1 0)) (\<lambda>s.
     pbind (arg_at argv 1) (\<lambda>port.
     pbind (sys_ret (Bind s \<lparr>sin_family = 2, sin_port = htons (word_of_int (atoi port)), sin_addr = INADDR_ANY\<rparr>)) (\<lambda>r.
     if r = -1 then pseq (printf ''Can not Bind\<newline>'' []) (pexit (-1)) else
     pbind (sys_ret (Listen s 5)) (\<lambda>r.
     if r = -1 then pseq (printf ''listen Fail\<newline>'' []) (pexit (-1)) else
     loop (port_stat_iter s) ())))))"

section \<open>Properties of the probe\<close>

lemma put16_zero: "put16 0 = [0, 0]"
  by (simp add: put16_def)

lemma length_headers [simp]:
  "length (ip_bytes h) = 20" "length (tcp_bytes t) = 20" "length (pseudo_bytes p) = 12"
  by (simp_all add: ip_bytes_def tcp_bytes_def pseudo_bytes_def)

text \<open>
  C32. The probe is a valid segment: the checksum \<open>scan_syn_port\<close> stores makes the ones'
  complement sum over the pseudo header and the TCP header all ones, the test the target's
  TCP applies, although the code sums the pseudo header after the segment; and the IP header
  verifies in the same way.
\<close>

theorem probe_verifies:
  "ocsum (wsum (pseudo_bytes (pseudo_header target) @ tcp_bytes (syn_header target port rnd))) = 65535 \<and>
   ocsum (wsum (ip_bytes (ip_header_out target))) = 65535"
proof
  let ?h = "syn_header target port rnd" and ?ps = "pseudo_bytes (pseudo_header target)"
  let ?pre = "put16 (source ?h) @ put16 (dest ?h) @ put32 (seq ?h) @ put32 (ack_seq ?h) @
     [res1 ?h OR push_bit 4 (doff ?h), tcp_flags ?h] @ put16 (window ?h)"
  let ?post = "put16 (urg_ptr ?h) @ ?ps"
  have "tcp_bytes ?h @ ?ps = ?pre @ put16 (cksum_in (?pre @ [0, 0] @ ?post) 32) @ ?post"
    by (simp add: tcp_bytes_def syn_header_def scan_cksum_in_def Let_def put16_zero tcp_flags_def)
  then have "ocsum (wsum (tcp_bytes ?h @ ?ps)) = 65535"
    using ping2.field_verifies [of ?pre ?post] by simp
  then show "ocsum (wsum (?ps @ tcp_bytes ?h)) = 65535"
    by (simp add: wsum_append add.commute)
next
  let ?h = "ip_header_out target"
  let ?pre = "[ip_ihl ?h OR push_bit 4 (ip_version ?h), ip_tos ?h] @ put16 (ip_tot_len ?h) @
     put16 (ip_id ?h) @ put16 (ip_frag_off ?h) @ [ip_ttl ?h, ip_protocol ?h]"
  let ?post = "put32 (ip_src ?h) @ put32 (ip_dst ?h)"
  have "ip_bytes ?h = ?pre @ put16 (cksum_in (?pre @ [0, 0] @ ?post) 20) @ ?post"
    by (simp add: ip_bytes_def ip_header_out_def scan_cksum_in_def Let_def put16_zero)
  then show "ocsum (wsum (ip_bytes ?h)) = 65535"
    using ping2.field_verifies [of ?pre ?post] by simp
qed

text \<open>
  The total length in the header: 12 is subtracted after the conversion to network byte order,
  so the field says 62515 bytes for the 40 that are sent.
\<close>

lemma probe_total_length:
  "ntohs (ip_tot_len (ip_header_out target)) = 62515" "length (take 40 (tx_packet target port rnd)) = 40"
  by (simp_all add: ip_header_out_def htons_def tx_packet_def Let_def)

section \<open>Properties of the scan\<close>

lemma string_bytes_overlay:
  "length d \<le> length rx \<Longrightarrow> bytes_of (overlay (string_of rx) 0 d) = bytes_of d @ drop (length d) rx"
  by (simp add: overlay_def bytes_of_def string_of_def drop_map comp_def)

text \<open>The fields of an answer whose IP header has no options.\<close>

definition answer :: "iphdr \<Rightarrow> tcphdr \<Rightarrow> string" where
  "answer ih th = string_of (ip_bytes ih @ tcp_bytes th)"

lemma bytes_of_answer [simp]: "bytes_of (answer ih th) = ip_bytes ih @ tcp_bytes th"
  by (simp add: answer_def)

lemma length_answer [simp]: "length (answer ih th) = 40"
  by (simp add: answer_def)

lemma ip_bytes_src: "get32 (drop 12 (ip_bytes h) @ bs) = ip_src h"
  by (simp add: ip_bytes_def put16_def)

lemma low_nibble: "(5 OR push_bit 4 (v::u8)) AND 15 = 5"
proof -
  have "push_bit 4 v AND mask 4 = 0"
    by (simp only: take_bit_eq_mask [symmetric] take_bit_push_bit) simp
  then have "push_bit 4 v AND 15 = 0"
    by (simp add: mask_eq_exp_minus_1)
  then show ?thesis
    by (simp add: bit.conj_disj_distrib2)
qed

lemma ihl_answer: "ip_ihl ih = 5 \<Longrightarrow> ihl_of ((ip_bytes ih @ bs) ! 0) = 20"
  by (simp add: ip_bytes_def ihl_of_def low_nibble)

lemma peek16_put16: "length pre = i \<Longrightarrow> peek16 (pre @ put16 w @ post) i = pret w"
  by (simp add: peek16_def peek_def nth_append put16_def le16_put16 [OF put16_def])

lemma peek_tcp:
  assumes "length h = 20"
  shows "peek16 (h @ tcp_bytes t @ bs) 20 = pret (source t)"
    and "peek16 (h @ tcp_bytes t @ bs) 22 = pret (dest t)"
    and "peek (h @ tcp_bytes t @ bs) 33 = pret (tcp_flags t)"
proof -
  show "peek16 (h @ tcp_bytes t @ bs) 20 = pret (source t)"
    using peek16_put16 [of h 20 "source t"] assms by (simp add: tcp_bytes_def)
  show "peek16 (h @ tcp_bytes t @ bs) 22 = pret (dest t)"
    using peek16_put16 [of "h @ put16 (source t)" 22 "dest t"] assms by (simp add: tcp_bytes_def)
  show "peek (h @ tcp_bytes t @ bs) 33 = pret (tcp_flags t)"
    using assms by (simp add: peek_def tcp_bytes_def nth_append)
qed

lemma bit_flags:
  "bit (tcp_flags t) 1 = syn t" "bit (tcp_flags t) 2 = rst t" "bit (tcp_flags t) 4 = ack t"
  by (cases "fin t"; cases "syn t"; cases "rst t"; cases "psh t"; cases "ack t"; cases "urg t";
      simp add: tcp_flags_def)+

text \<open>Packets from other hosts are skipped.\<close>

definition foreign :: "u32 \<Rightarrow> string \<Rightarrow> bool" where
  "foreign target d \<longleftrightarrow> 20 \<le> length d \<and> length d \<le> RX_SIZE \<and> get32 (drop 12 (bytes_of d)) \<noteq> target"

lemma scan_iter_foreign:
  assumes "foreign target d" and "length rx = RX_SIZE"
  shows "scan_iter services sd target port rx (st (data d # rs) tr fs) =
    (Val (Next (bytes_of d @ drop (length d) rx)), st rs (tr @ [RecvFrom sd RX_SIZE]) fs)"
proof -
  have "get32 (drop 12 (bytes_of d @ drop (length d) rx)) = get32 (drop 12 (bytes_of d))"
    using assms by (auto simp: foreign_def intro!: get32_append)
  with assms show ?thesis
    by (auto simp: scan_iter_def rrecvfrom_def foreign_def Let_def string_bytes_overlay)
qed

lemma scan_skips_foreign:
  "list_all (foreign target) ds \<Longrightarrow> length rx = RX_SIZE \<Longrightarrow>
   \<exists>rx' tr'. length rx' = RX_SIZE \<and>
     loop (scan_iter services sd target port) rx (st (map data ds @ rs) tr fs) =
     loop (scan_iter services sd target port) rx' (st rs (tr @ tr') fs)"
proof (induction ds arbitrary: rx tr)
  case Nil
  then show ?case by (intro exI [of _ rx] exI [of _ "[]"]) simp
next
  case (Cons d ds)
  let ?rx = "bytes_of d @ drop (length d) rx"
  from Cons.prems have len: "length ?rx = RX_SIZE"
    by (auto simp: foreign_def)
  have "loop (scan_iter services sd target port) rx (st (map data (d # ds) @ rs) tr fs) =
      loop (scan_iter services sd target port) ?rx (st (map data ds @ rs) (tr @ [RecvFrom sd RX_SIZE]) fs)"
    using Cons.prems
    by (simp add: loop_Next [where body = "scan_iter services sd target port", OF scan_iter_foreign])
  moreover obtain rx' tr' where "length rx' = RX_SIZE"
    "loop (scan_iter services sd target port) ?rx (st (map data ds @ rs) (tr @ [RecvFrom sd RX_SIZE]) fs) =
     loop (scan_iter services sd target port) rx' (st rs ((tr @ [RecvFrom sd RX_SIZE]) @ tr') fs)"
    using Cons.IH [OF _ len] Cons.prems by fastforce
  ultimately show ?case
    by (intro exI [of _ rx'] exI [of _ "[RecvFrom sd RX_SIZE] @ tr'"]) simp
qed

text \<open>What the scanner prints last, and how it goes on, for an answer from the scanned port.\<close>

definition scan_verdict :: "int \<Rightarrow> string \<Rightarrow> tcphdr \<Rightarrow> call \<times> unit outcome" where
  "scan_verdict port name th =
     (if syn th \<and> ack th
      then (Printf '' port[%d] open/%s \<newline>'' [I (uint (ntohs (source th))), S name], Val ())
      else if rst th then (Printf '' *\<newline>'' [], Val ())
      else (Printf ''protocol error\<newline>'' [], Abort (Exit (-1))))"

definition flag_calls :: "u8 \<Rightarrow> call list" where
  "flag_calls f = map (\<lambda>(i, name). Printf (if bit f i then name else ''-'') [])
     [(5, ''U''), (4, ''A''), (3, ''P''), (2, ''R''), (1, ''S''), (0, ''F'')]"

lemma flag_char_printf: "flag_char f i name = printf (if bit f i then name else ''-'') []"
  by (simp add: flag_char_def)

lemma pseq_print_flags: "pseq (print_flags f) k (st rs tr fs) = k (st rs (tr @ flag_calls f) fs)"
  by (simp add: print_flags_def flag_char_printf flag_calls_def run_simps)

lemma scan_reply_run:
  assumes "services (htons (word_of_int port)) = Some name" and "length h = 20"
  shows "\<exists>cs. scan_reply services port (h @ tcp_bytes th @ bs) 20 (source th) dst (st rs tr fs) =
    (snd (scan_verdict port name th), st rs (tr @ cs @ [fst (scan_verdict port name th)]) fs)"
  using assms
  by (intro exI [of _ "Printf ''[rx] %u->%u  '' [I (uint (ntohs (source th))), I (uint (ntohs dst))] #
      flag_calls (tcp_flags th)"])
    (simp add: scan_reply_def scan_verdict_def peek_tcp pseq_print_flags bit_flags
      del: One_nat_def)

lemma scan_iter_answer:
  assumes ih: "ip_ihl ih = 5" "ip_src ih = target"
    and th: "ntohs (source th) = word_of_int port" "ntohs (dest th) = LOCAL_PORT"
    and name: "services (htons (word_of_int port)) = Some name"
    and len: "length rx = RX_SIZE"
  shows "\<exists>cs. loop (scan_iter services sd target port) rx (st (data (answer ih th) # rs) tr fs) =
    (snd (scan_verdict port name th), st rs (tr @ cs @ [fst (scan_verdict port name th)]) fs)"
proof -
  have rx: "bytes_of (overlay (string_of rx) 0 (answer ih th)) = ip_bytes ih @ tcp_bytes th @ []"
    using len by (simp add: string_bytes_overlay RX_SIZE_def)
  have it: "scan_iter services sd target port rx (st (data (answer ih th) # rs) tr fs) =
    pseq (scan_reply services port (ip_bytes ih @ tcp_bytes th @ []) 20 (source th) (dest th))
      (pret (Stop ())) (st rs (tr @ [RecvFrom sd RX_SIZE]) fs)"
    using ih th len
    unfolding scan_iter_def rrecvfrom_def
    by (simp add: RX_SIZE_def Let_def rx ihl_answer ip_bytes_src
        peek_tcp peek_tcp [of _ _ "[]", simplified])
  obtain cs where rp: "scan_reply services port (ip_bytes ih @ tcp_bytes th @ []) 20 (source th) (dest th)
      (st rs (tr @ [RecvFrom sd RX_SIZE]) fs) =
    (snd (scan_verdict port name th), st rs ((tr @ [RecvFrom sd RX_SIZE]) @ cs @ [fst (scan_verdict port name th)]) fs)"
    using scan_reply_run [of services port name "ip_bytes ih" th "[]" "dest th" rs "tr @ [RecvFrom sd RX_SIZE]"]
      name by auto
  show ?thesis
    by (subst loop.simps, rule exI [of _ "RecvFrom sd RX_SIZE # cs"])
      (simp only: it, simp add: pseq_def pbind_def rp scan_verdict_def del: append_Nil2)
qed


definition sample_noise :: "u8 list" where
  "sample_noise = [0x45, 0, 0, 40, 0, 0, 0, 0, 64, 6, 0, 0, 10, 0, 0, 1, 10, 0, 0, 2]"

definition sample_answer :: "bool \<Rightarrow> bool \<Rightarrow> iphdr \<times> tcphdr" where
  "sample_answer s r =
    (\<lparr>ip_version = 4, ip_ihl = 5, ip_tos = 0, ip_tot_len = htons 40, ip_id = 0, ip_frag_off = 0,
      ip_ttl = 64, ip_protocol = 6, ip_check = 0, ip_src = 0x0100007f, ip_dst = 0x0264a8c0\<rparr>,
     \<lparr>source = htons 80, dest = htons 9000, seq = 1, ack_seq = 2, doff = 5, res1 = 0, fin = False,
      syn = s, rst = r, psh = False, ack = True, urg = False, window = 0, tcp_check = 0, urg_ptr = 0\<rparr>)"


text \<open>
  The receive buffer has 40 bytes while the header length comes from the packet: a packet of
  the target with IP options of eight bytes or more makes the loop read behind the buffer.
\<close>

lemma scan_options_fault:
  assumes "length d = RX_SIZE" and "length rx = RX_SIZE" and "get32 (drop 12 (bytes_of d)) = target"
    and "40 \<le> ihl_of (bytes_of d ! 0)"
  shows "loop (scan_iter services sd target port) rx (st (data d # rs) tr fs) =
    (Abort (Fault OutOfBounds), st rs (tr @ [RecvFrom sd RX_SIZE]) fs)"
  using assms
  by (intro loop_Abort [where body = "scan_iter services sd target port"])
    (simp add: scan_iter_def rrecvfrom_def string_bytes_overlay Let_def peek16_def peek_def,
     simp add: RX_SIZE_def)

text \<open>
  An open port without a name crashes the scanner: \<open>getservbyport\<close> answers NULL for most
  of the ports 80 to 90, and \<open>serv->s_name\<close> is read without a test, right on the path that
  found what the program looks for.
\<close>

theorem scan_unnamed_open_port:
  assumes "services (htons (word_of_int port)) = None" and "length h = 20" and "syn th" and "ack th"
  shows "fst (scan_reply services port (h @ tcp_bytes th @ bs) 20 (source th) dst (st rs tr fs)) =
    Abort (Fault NullPointer)"
  using assms by (simp add: scan_reply_def peek_tcp pseq_print_flags bit_flags del: One_nat_def)

theorem scan_unnamed_open_port_witness:
  "fst (scan_reply (\<lambda>_. None) 81 (replicate 20 0 @ tcp_bytes (snd (sample_answer True False)) @ []) 20
      (source (snd (sample_answer True False))) (htons 9000) (st [] [] Map.empty)) = Abort (Fault NullPointer)"
  by (rule scan_unnamed_open_port) (simp_all add: sample_answer_def)

section \<open>Properties of the state server\<close>

definition opened :: "call list \<Rightarrow> nat" where
  "opened tr = length (filter (\<lambda>c. case c of Accept _ \<Rightarrow> True | _ \<Rightarrow> False) tr)"

definition closed_fds :: "call list \<Rightarrow> nat" where
  "closed_fds tr = length (filter (\<lambda>c. case c of Close _ \<Rightarrow> True | _ \<Rightarrow> False) tr)"

lemma opened_append [simp]: "opened (xs @ ys) = opened xs + opened ys"
  by (simp add: opened_def)

lemma closed_fds_append [simp]: "closed_fds (xs @ ys) = closed_fds xs + closed_fds ys"
  by (simp add: closed_fds_def)

lemma port_stat_serves:
  "\<exists>cs. loop (port_stat_iter s) () (st (concat (map (\<lambda>c. [rc c, rc 14]) conns)) tr fs) =
     (Abort Blocked, st [] (tr @ cs) fs) \<and> opened cs = length conns + 1 \<and> closed_fds cs = 0"
proof (induction conns arbitrary: tr)
  case Nil
  have "port_stat_iter s () (st [] tr fs) = (Abort Blocked, st [] (tr @ [Accept s]) fs)"
    by (simp add: port_stat_iter_def)
  then show ?case
    by (auto simp: loop_Abort [where body = "port_stat_iter s"] opened_def closed_fds_def)
next
  case (Cons c conns)
  have "port_stat_iter s () (st (rc c # rc 14 # rs) tr fs) =
      (Val (Next ()), st rs (tr @ [Accept s, Write c ''TCP state test'']) fs)" for rs
    by (simp add: port_stat_iter_def run_simps)
  then have "loop (port_stat_iter s) () (st (rc c # rc 14 # rs) tr fs) =
      loop (port_stat_iter s) () (st rs (tr @ [Accept s, Write c ''TCP state test'']) fs)" for rs
    by (simp add: loop_Next [where body = "port_stat_iter s"])
  moreover obtain cs where "loop (port_stat_iter s) ()
      (st (concat (map (\<lambda>c. [rc c, rc 14]) conns)) (tr @ [Accept s, Write c ''TCP state test'']) fs) =
     (Abort Blocked, st [] ((tr @ [Accept s, Write c ''TCP state test'']) @ cs) fs)"
    and "opened cs = length conns + 1" "closed_fds cs = 0"
    using Cons.IH by blast
  ultimately show ?case
    by (intro exI [of _ "[Accept s, Write c ''TCP state test''] @ cs"])
      (simp add: opened_def closed_fds_def)
qed

lemma port_stat_no_argument:
  "fst (port_stat_main [prog] (st [rc 3] tr fs)) = Abort (Fault NullPointer)"
  by (simp add: port_stat_main_def arg_at_def pseq_assoc pseq_pseq)

end
