(* ===== verification/FileTransfer.thy ===== *)
theory FileTransfer
  imports Process Libc
begin

text \<open>
  The two file transfer protocols. In hw1 (tue/file_transfer/hw1) the client sends a name of 256
  bytes and the file, and the server writes what it receives until the connection closes. In
  hw2 (thu/hw2) the server answers the name with the number of bytes it already has, the client
  sends the length of the rest and the rest, and the server appends it. The messages that the
  sources print in Korean are given in English.
\<close>

section \<open>Files\<close>

text \<open>
  The files of a host are part of the state. A reply below zero makes \<open>fopen\<close> fail for
  other reasons than a missing file; \<open>fwrite\<close> writes as many bytes as the reply says, and the
  result is \<open>ferror\<close>.
\<close>

definition contents :: "(string \<Rightarrow> string option) \<Rightarrow> string \<Rightarrow> string" where
  "contents fs path = (case fs path of Some s \<Rightarrow> s | None \<Rightarrow> [])"

definition opened_file :: "string \<Rightarrow> string \<Rightarrow> (string \<Rightarrow> string option) \<Rightarrow> bool \<times> (string \<Rightarrow> string option)" where
  "opened_file path mode fs =
     (if mode = ''wb'' then (True, fs(path \<mapsto> []))
      else if mode = ''ab'' then (True, fs(path \<mapsto> contents fs path))
      else (fs path \<noteq> None, fs))"

definition fopen :: "string \<Rightarrow> string \<Rightarrow> bool prog" where
  "fopen path mode = pbind (sys_ret (FOpen path mode)) (\<lambda>r w.
     if r < 0 then (Val False, w)
     else (Val (fst (opened_file path mode (files w))), w\<lparr>files := snd (opened_file path mode (files w))\<rparr>))"

definition fwrite :: "string \<Rightarrow> string \<Rightarrow> bool prog" where
  "fwrite path d = pbind (sys_ret (FWrite path d)) (\<lambda>k w.
     (Val (k < int (length d)), w\<lparr>files := (files w)(path \<mapsto> contents (files w) path @ take (nat k) d)\<rparr>))"

text \<open>\<open>fread\<close> of at most \<open>n\<close> bytes at a position; the reply may cut it short.\<close>

definition fread :: "string \<Rightarrow> nat \<Rightarrow> nat \<Rightarrow> string prog" where
  "fread path pos n = pbind (sys_ret (FRead n)) (\<lambda>k w.
     (Val (take (nat k) (take n (drop pos (contents (files w) path)))), w))"

definition filesize :: "string \<Rightarrow> int prog" where
  "filesize path = (\<lambda>w. (Val (int (length (contents (files w) path))), w))"

definition strncpy :: "string \<Rightarrow> nat \<Rightarrow> string" where
  "strncpy s n = take n (s @ replicate n NUL)"

definition err_quit :: "string \<Rightarrow> 'a prog" where
  "err_quit msg = pseq (perror msg) (pexit 1)"

abbreviation err_display :: "string \<Rightarrow> unit prog" where
  "err_display msg \<equiv> perror msg"

text \<open>\<open>socket\<close>, \<open>bind\<close>, \<open>listen\<close> of both servers, \<open>socket\<close>, \<open>connect\<close> of both clients.\<close>

definition tcp_listen :: "string \<Rightarrow> fd prog" where
  "tcp_listen port =
     pbind (sys_ret (Socket 2 1 0)) (\<lambda>listen_sock.
     if listen_sock < 0 then err_quit ''socket()'' else
     pbind (sys_ret (Bind listen_sock
       \<lparr>sin_family = 2, sin_port = htons (word_of_int (atoi port)), sin_addr = htonl INADDR_ANY\<rparr>)) (\<lambda>retval.
     if retval < 0 then err_quit ''bind()'' else
     pbind (sys_ret (Listen listen_sock 5)) (\<lambda>retval.
     if retval < 0 then err_quit ''listen()'' else pret listen_sock)))"

definition tcp_connect :: "string \<Rightarrow> string \<Rightarrow> fd prog" where
  "tcp_connect ip port =
     pbind (sys_ret (Socket 2 1 0)) (\<lambda>sock.
     if sock < 0 then err_quit ''socket()'' else
     pbind (sys_ret (Connect sock
       \<lparr>sin_family = 2, sin_port = htons (word_of_int (atoi port)), sin_addr = inet_addr ip\<rparr>)) (\<lambda>retval.
     if retval < 0 then err_quit ''connect()'' else pret sock))"

section \<open>hw1: the server\<close>

text \<open>
  The arrays live on the stack and keep what earlier connections left in them; their first
  contents are arguments of \<open>main\<close>.
\<close>

record server1 =
  filename1 :: string
  buf1 :: string

definition BUFSIZE :: nat where "BUFSIZE = 1024"

text \<open>The inner loop: the last \<open>retval\<close>, the bytes written so far and the buffer.\<close>

definition recv_file_iter :: "fd \<Rightarrow> string \<Rightarrow> int \<times> string \<Rightarrow> (int \<times> string, int \<times> int \<times> string) iter prog" where
  "recv_file_iter client_sock path = (\<lambda>(totalbytes, buf).
     pbind (rrecv client_sock BUFSIZE False) (\<lambda>(retval, d).
     if retval < 0 then pseq (err_display ''recv()'') (pret (Stop (retval, totalbytes, buf)))
     else if retval = 0 then pret (Stop (retval, totalbytes, buf))
     else
       pbind (deliver buf 0 d) (\<lambda>buf.
       pbind (fwrite path (take (nat retval) buf)) (\<lambda>ferror.
       if ferror then pseq (perror ''fwrite()'') (pret (Stop (retval, totalbytes, buf)))
       else pret (Next (totalbytes + retval, buf))))))"

definition serve_file1 :: "fd \<Rightarrow> server1 \<Rightarrow> server1 prog" where
  "serve_file1 client_sock s =
     pbind (rrecv client_sock 256 True) (\<lambda>(retval, d).
     pbind (deliver (filename1 s) 0 d) (\<lambda>filename.
     let s = s\<lparr>filename1 := filename\<rparr> in
     if retval \<le> 0 then pseq (err_display ''recv()'') (pret s) else
     pbind (cstring filename) (\<lambda>path.
     pseq (printf ''-> file name: %s\<newline>'' [S path])
    (pbind (fopen path ''wb'') (\<lambda>fp.
     if \<not> fp then pseq (perror ''fopen()'') (pret s) else
     pbind (loop (recv_file_iter client_sock path) (0, buf1 s)) (\<lambda>(retval, totalbytes, buf).
     pseq (if retval = 0 then printf ''-> transfer complete! (%d bytes)\<newline>'' [I totalbytes]
           else printf ''-> transfer failed!\<newline>'' [])
     (pret (s\<lparr>buf1 := buf\<rparr>)))))))) "

definition peer :: "reply \<Rightarrow> int \<times> sockaddr_in" where
  "peer r = (r_ret r, r_from r)"

definition fileserver1_iter :: "fd \<Rightarrow> server1 \<Rightarrow> (server1, unit) iter prog" where
  "fileserver1_iter listen_sock s =
     pbind (sys (Accept listen_sock) peer) (\<lambda>(client_sock, clientaddr).
     if client_sock < 0 then pseq (err_display ''accept()'') (pret (Stop ())) else
     pseq (printf ''\<newline>[TCP server] client connected: IP address=%s, port=%d\<newline>''
       [S (inet_ntoa (sin_addr clientaddr)), I (uint (ntohs (sin_port clientaddr)))])
    (pbind (serve_file1 client_sock s) (\<lambda>s.
     pseq (emit (Close client_sock))
    (pseq (printf ''[TCP server] client closed: IP address=%s, port=%d\<newline>''
       [S (inet_ntoa (sin_addr clientaddr)), I (uint (ntohs (sin_port clientaddr)))])
     (pret (Next s))))))"

definition fileserver1_main :: "server1 \<Rightarrow> string list \<Rightarrow> unit prog" where
  "fileserver1_main junk argv =
     (if length argv \<noteq> 2 then pseq (printf ''[Usage] %s port_number\<newline>'' [S (hd argv)]) (pexit 1)
      else pbind (tcp_listen (argv ! 1)) (\<lambda>listen_sock.
        pseq (loop (fileserver1_iter listen_sock) junk)
        (emit (Close listen_sock))))"

section \<open>hw1: the client\<close>

text \<open>\<open>malloc_ok n\<close>: whether \<open>malloc\<close> finds \<open>n\<close> bytes.\<close>

definition fileclient1_main :: "(int \<Rightarrow> bool) \<Rightarrow> string list \<Rightarrow> unit prog" where
  "fileclient1_main malloc_ok argv =
     (if length argv \<noteq> 4
      then pseq (printf ''[Usage] %s ip_address port_number file_name\<newline>'' [S (hd argv)]) (pexit 1)
      else let path = argv ! 3 in
        pbind (tcp_connect (argv ! 1) (argv ! 2)) (\<lambda>sock.
        pbind (fopen path ''rb'') (\<lambda>fp.
        if \<not> fp then pseq (perror ''fopen()'') (pexit 1) else
        pbind (sys_ret (Send sock (strncpy path 256))) (\<lambda>retval.
        if retval < 0 then err_quit ''send()'' else
        pbind (filesize path) (\<lambda>len.
        if \<not> malloc_ok len then pseq (printf ''malloc() error!\<newline>'' []) (pexit 1) else
        pbind (fread path 0 (nat len)) (\<lambda>buf.
        pseq (if int (length buf) = len then
                pbind (sys_ret (Send sock buf)) (\<lambda>retval.
                if retval < 0 then err_quit ''send()''
                else printf ''-> transfer complete! (%d bytes)\<newline>'' [I len])
              else perror ''fread()'')
        (emit (Close sock))))))))"

section \<open>hw2: the server\<close>

record server2 =
  filename2 :: string
  totalbytes2 :: string
  buf2 :: string

text \<open>The result of the loop is the number of bytes received.\<close>

definition append_iter :: "fd \<Rightarrow> string \<Rightarrow> int \<times> string \<Rightarrow> (int \<times> string, int \<times> string) iter prog" where
  "append_iter client_sock path = (\<lambda>(numtotal, buf).
     pbind (rrecv client_sock BUFSIZE True) (\<lambda>(retval, d).
     if retval > 0 then
       pbind (deliver buf 0 d) (\<lambda>buf.
       pbind (fwrite path (take (nat retval) buf)) (\<lambda>ferror.
       if ferror then pseq (perror ''file I/O error'') (pret (Stop (numtotal, buf)))
       else pret (Next (numtotal + retval, buf))))
     else if retval = 0 then pret (Stop (numtotal, buf))
     else pseq (err_display ''recv()'') (pret (Stop (numtotal, buf)))))"

text \<open>\<open>search_file\<close>: whether the file exists.\<close>

definition search_file :: "string \<Rightarrow> bool prog" where
  "search_file path = pseq (emit (Access path)) (\<lambda>w. (Val (files w path \<noteq> None), w))"

text \<open>The size of the part the server has; \<open>None\<close> if an existing file cannot be opened.\<close>

definition current_size :: "string \<Rightarrow> int option prog" where
  "current_size path =
     pbind (search_file path) (\<lambda>found.
     if found then
       pbind (fopen path ''rb'') (\<lambda>fp.
       if \<not> fp then pret None else pbind (filesize path) (\<lambda>n. pret (Some n)))
     else pret (Some 0))"

text \<open>
  From the answer of the size on. In this and the next definition the flag is false after an
  early \<open>continue\<close>, which skips the last message of the connection.
\<close>

definition receive_rest :: "fd \<Rightarrow> server2 \<Rightarrow> string \<Rightarrow> int \<Rightarrow> (server2 \<times> bool) prog" where
  "receive_rest client_sock s path currbytes =
     pbind (sys_ret (Send client_sock (put_int currbytes))) (\<lambda>retval.
     if retval < 0 then pseq (err_display ''send()'') (pret (s, False)) else
     pbind (rrecv client_sock 4 True) (\<lambda>(retval, d).
     if retval < 0 then pseq (err_display ''recv()'') (pret (s, False)) else
     pbind (deliver (totalbytes2 s) 0 d) (\<lambda>raw.
     let s = s\<lparr>totalbytes2 := raw\<rparr>; totalbytes = get_int raw in
     pseq (printf ''-> size of the data: %d of %d bytes\<newline> (%d bytes already received)\<newline>''
             [I (currbytes + totalbytes), I totalbytes, I currbytes])
    (pbind (fopen path ''ab'') (\<lambda>fp.
     if \<not> fp then pseq (perror ''file I/O error'') (pret (s, False)) else
     pbind (loop (append_iter client_sock path) (0, buf2 s)) (\<lambda>(numtotal, buf).
     pseq (if numtotal = totalbytes then printf ''-> transfer complete!\<newline>'' []
           else printf ''-> transfer failed!\<newline>'' [])
     (pret (s\<lparr>buf2 := buf\<rparr>, True))))))))"

definition serve_file2 :: "fd \<Rightarrow> server2 \<Rightarrow> (server2 \<times> bool) prog" where
  "serve_file2 client_sock s =
     pbind (rrecv client_sock 256 True) (\<lambda>(retval, d).
     pbind (deliver (filename2 s) 0 d) (\<lambda>filename.
     if retval < 0 then pseq (err_display ''recv()'') (pret (s, False)) else
     pbind (store filename retval NUL) (\<lambda>filename.
     let s = s\<lparr>filename2 := filename\<rparr> in
     pbind (cstring filename) (\<lambda>path.
     pseq (printf ''-> file name: %s\<newline>'' [S path])
    (pbind (current_size path) (\<lambda>currbytes.
     case currbytes of
       None \<Rightarrow> pseq (perror ''file I/O error'') (pret (s, False))
     | Some currbytes \<Rightarrow> receive_rest client_sock s path currbytes))))))"

definition fileserver2_iter :: "fd \<Rightarrow> server2 \<Rightarrow> (server2, unit) iter prog" where
  "fileserver2_iter listen_sock s =
     pbind (sys (Accept listen_sock) peer) (\<lambda>(client_sock, clientaddr).
     if client_sock < 0 then pseq (err_display ''accept()'') (pret (Stop ())) else
     pseq (printf ''\<newline>fileclient connected: IP address=%s, port=%d\<newline>''
       [S (inet_ntoa (sin_addr clientaddr)), I (uint (ntohs (sin_port clientaddr)))])
    (pbind (serve_file2 client_sock s) (\<lambda>(s, finished).
     pseq (emit (Close client_sock))
    (pseq (if finished then printf ''fileclient closed: IP address=%s, port=%d\<newline>''
             [S (inet_ntoa (sin_addr clientaddr)), I (uint (ntohs (sin_port clientaddr)))]
           else pret ())
     (pret (Next s))))))"

definition fileserver2_main :: "server2 \<Rightarrow> string list \<Rightarrow> unit prog" where
  "fileserver2_main junk argv =
     (if length argv \<noteq> 2 then pseq (printf ''[Usage] %s port_number\<newline>'' [S (hd argv)]) (pexit 1)
      else pbind (tcp_listen (argv ! 1)) (\<lambda>listen_sock.
        pseq (loop (fileserver2_iter listen_sock) junk)
        (emit (Close listen_sock))))"

section \<open>hw2: the client\<close>

text \<open>
  The loop variables are \<open>numtotal\<close> and the position in the file. A position beyond the end
  (\<open>fseek\<close> with the server's larger count) reads nothing; a negative one makes \<open>fseek\<close>
  fail and leaves the position at the end, where the size was taken.
\<close>

definition send_rest_iter :: "fd \<Rightarrow> string \<Rightarrow> int \<Rightarrow> int \<Rightarrow> int \<times> nat \<Rightarrow> (int \<times> nat, unit) iter prog" where
  "send_rest_iter sock path fsize totalbytes = (\<lambda>(numtotal, pos).
     pbind (fread path pos BUFSIZE) (\<lambda>buf.
     let numread = int (length buf) in
     if numread > 0 then
       pbind (sys_ret (Send sock buf)) (\<lambda>retval.
       if retval < 0 then pseq (err_display ''send()'') (pret (Stop ()))
       else pseq (printf ''.'' []) (pseq (emit (Usleep 10000))
              (pret (Next (numtotal + numread, pos + length buf)))))
     else if numread = 0 \<and> numtotal = totalbytes
     then pseq (printf ''\<newline>transfer complete!: %d bytes sent\<newline>'' [I fsize]) (pret (Stop ()))
     else pseq (perror ''file I/O error'') (pret (Stop ()))))"

definition fileclient2_main :: "string \<Rightarrow> string list \<Rightarrow> unit prog" where
  "fileclient2_main junk argv =
     (if length argv \<noteq> 4
      then pseq (printf ''[Usage] %s ip_address port_number file_name\<newline>'' [S (hd argv)]) (pexit 1)
      else let path = argv ! 3 in
        pbind (tcp_connect (argv ! 1) (argv ! 2)) (\<lambda>sock.
        pbind (fopen path ''rb'') (\<lambda>fp.
        if \<not> fp then pseq (perror ''file I/O error'') (pexit 1) else
        pbind (sys_ret (Send sock (strncpy path 256))) (\<lambda>retval.
        if retval < 0 then err_quit ''send()'' else
        pbind (rrecv sock 4 True) (\<lambda>(retval, d).
        if retval < 0 then err_quit ''recv()'' else
        pbind (deliver junk 0 d) (\<lambda>raw.
        let currbytes = get_int raw in
        pseq (printf ''### transfer starts at offset %d ###\<newline>'' [I currbytes])
       (pbind (filesize path) (\<lambda>fsize.
        let totalbytes = fsize - currbytes in
        pbind (sys_ret (Send sock (put_int totalbytes))) (\<lambda>retval.
        if retval < 0 then err_quit ''send()'' else
        let pos = (if currbytes < 0 then nat fsize else nat currbytes) in
        pseq (loop (send_rest_iter sock path fsize totalbytes) (0, pos))
        (emit (Close sock)))))))))))"

section \<open>Equations for execution\<close>

lemma pbind_fopen_st [simp]:
  "pbind (fopen path mode) k (st (r # rs) tr fs) =
     (if r_ret r < 0 then k False (st rs (tr @ [FOpen path mode]) fs)
      else k (fst (opened_file path mode fs)) (st rs (tr @ [FOpen path mode]) (snd (opened_file path mode fs))))"
  by (simp add: fopen_def pbind_def sys_def st_def)

lemma pbind_fwrite_st [simp]:
  "pbind (fwrite path d) k (st (r # rs) tr fs) =
     k (r_ret r < int (length d)) (st rs (tr @ [FWrite path d])
       (fs(path \<mapsto> contents fs path @ take (nat (r_ret r)) d)))"
  by (simp add: fwrite_def pbind_def sys_def st_def)

lemma pbind_fread_st [simp]:
  "pbind (fread path pos n) k (st (r # rs) tr fs) =
     k (take (nat (r_ret r)) (take n (drop pos (contents fs path)))) (st rs (tr @ [FRead n]) fs)"
  by (simp add: fread_def pbind_def sys_def st_def)

lemma pbind_filesize_st [simp]:
  "pbind (filesize path) k (st rs tr fs) = k (int (length (contents fs path))) (st rs tr fs)"
  by (simp add: filesize_def pbind_def)

lemma pbind_search_file_st [simp]:
  "pbind (search_file path) k (st rs tr fs) = k (fs path \<noteq> None) (st rs (tr @ [Access path]) fs)"
  by (simp add: search_file_def pseq_def pbind_def)

lemma contents_upd [simp]: "contents (fs(p \<mapsto> s)) p = s"
  by (simp add: contents_def)

lemma pbind_rrecv_st [simp]:
  "pbind (rrecv d n w) k (st (r # rs) tr fs) = k (got n r) (st rs (tr @ [Recv d n w]) fs)"
  by (simp add: rrecv_def)

section \<open>The receiving loops\<close>

text \<open>
  Both servers receive a file as a stream that the network cuts into pieces of its own. What
  they promise is stated once: each piece is appended, and the end of the stream ends the loop
  with the number of bytes received. \<open>fed\<close> is the script of a stream arriving in given
  pieces, with every \<open>fwrite\<close> complete.
\<close>

definition pieces :: "string list \<Rightarrow> bool" where
  "pieces cs = list_all (\<lambda>c. c \<noteq> [] \<and> length c \<le> BUFSIZE) cs"

definition fed :: "string list \<Rightarrow> reply list" where
  "fed cs = concat (map (\<lambda>c. [data c, rc (int (length c))]) cs)"

lemma fed_simps [simp]: "fed [] = []" "fed (c # cs) = data c # rc (int (length c)) # fed cs"
  by (simp_all add: fed_def)

lemma pieces_simps [simp]:
  "pieces []" "pieces (c # cs) \<longleftrightarrow> c \<noteq> [] \<and> length c \<le> BUFSIZE \<and> pieces cs"
  by (simp_all add: pieces_def)

text \<open>The bytes a program sent on a descriptor.\<close>

definition wire :: "fd \<Rightarrow> call list \<Rightarrow> string" where
  "wire d tr = concat (map (\<lambda>c. case c of Send d' x \<Rightarrow> if d' = d then x else [] | _ \<Rightarrow> []) tr)"

lemma wire_simps [simp]:
  "wire d [] = []" "wire d (tr @ tr') = wire d tr @ wire d tr'"
  "wire d (c # tr) = (case c of Send d' x \<Rightarrow> if d' = d then x else [] | _ \<Rightarrow> []) @ wire d tr"
  by (simp_all add: wire_def)

locale file_receiver =
  fixes body :: "int \<times> string \<Rightarrow> (int \<times> string, 'r) iter prog"
    and path :: string
    and receive :: call
    and final :: "int \<Rightarrow> string \<Rightarrow> 'r"
  assumes piece: "c \<noteq> [] \<Longrightarrow> length c \<le> BUFSIZE \<Longrightarrow> BUFSIZE \<le> length buf \<Longrightarrow>
      body (n, buf) (st (data c # rc (int (length c)) # rs) tr fs) =
        (Val (Next (n + int (length c), overlay buf 0 c)),
         st rs (tr @ [receive, FWrite path c]) (fs(path \<mapsto> contents fs path @ c)))"
    and eof: "body (n, buf) (st (data [] # rs) tr fs) = (Val (Stop (final n buf)), st rs (tr @ [receive]) fs)"
    and quiet: "wire d [receive] = []"
begin

lemma receives_all:
  "pieces cs \<Longrightarrow> BUFSIZE \<le> length buf \<Longrightarrow> fs path = Some old \<Longrightarrow>
   \<exists>tr' buf'. loop body (n, buf) (st (fed cs @ data [] # rs) tr fs) =
     (Val (final (n + int (length (concat cs))) buf'),
      st rs (tr @ tr') (fs(path \<mapsto> old @ concat cs))) \<and> length buf' = length buf \<and> wire d tr' = []"
proof (induction cs arbitrary: n buf tr fs old)
  case Nil
  then have "fs(path \<mapsto> old) = fs" by auto
  then show ?case
    by (intro exI [of _ "[receive]"] exI [of _ buf]) (simp add: loop_Stop [where body = body, OF eof] quiet [simplified])
next
  case (Cons c cs)
  let ?fs = "fs(path \<mapsto> old @ c)"
  have "loop body (n, buf) (st (fed (c # cs) @ data [] # rs) tr fs) =
      loop body (n + int (length c), overlay buf 0 c) (st (fed cs @ data [] # rs) (tr @ [receive, FWrite path c]) ?fs)"
    using Cons.prems by (simp add: loop_Next [where body = body, OF piece] contents_def)
  moreover obtain tr' buf' where "loop body (n + int (length c), overlay buf 0 c)
      (st (fed cs @ data [] # rs) (tr @ [receive, FWrite path c]) ?fs) =
     (Val (final (n + int (length c) + int (length (concat cs))) buf'),
      st rs ((tr @ [receive, FWrite path c]) @ tr') (?fs(path \<mapsto> (old @ c) @ concat cs)))"
    and "length buf' = length (overlay buf 0 c)" and "wire d tr' = []"
    using Cons.IH [of "overlay buf 0 c" ?fs "old @ c" "n + int (length c)" "tr @ [receive, FWrite path c]"]
      Cons.prems by (auto simp del: fun_upd_apply simp add: fun_upd_same)
  ultimately show ?case
    using Cons.prems
    by (intro exI [of _ "[receive, FWrite path c] @ tr'"] exI [of _ buf']) (simp add: algebra_simps quiet [simplified] del: fun_upd_apply)
qed

end

interpretation hw1: file_receiver "recv_file_iter client_sock path" path "Recv client_sock BUFSIZE False"
  "\<lambda>n buf. (0, n, buf)" for client_sock path
  by unfold_locales (auto simp: recv_file_iter_def take_overlay_0)

interpretation hw2: file_receiver "append_iter client_sock path" path "Recv client_sock BUFSIZE True"
  "\<lambda>n buf. (n, buf)" for client_sock path
  by unfold_locales (auto simp: append_iter_def take_overlay_0)

section \<open>hw1: end to end\<close>

lemma length_strncpy [simp]: "length (strncpy s n) = n"
  by (simp add: strncpy_def)

text \<open>A name that leaves room for its terminator arrives as it was sent.\<close>

lemma c_str_strncpy:
  "NUL \<notin> set s \<Longrightarrow> length s < n \<Longrightarrow> c_str (strncpy s n) = s \<and> terminated (strncpy s n)"
  by (cases "n - length s") (auto simp: strncpy_def c_str_def terminated_def takeWhile_append takeWhile_eq_Nil_iff)

lemma overlay_whole: "length d = length buf \<Longrightarrow> overlay buf 0 d = d"
  by (simp add: overlay_def)

lemma got_data [simp]: "length d \<le> n \<Longrightarrow> got n (data d) = (int (length d), d)"
  by simp

lemma serve_file1_receives:
  assumes name: "NUL \<notin> set name" "length name < 256"
    and bufs: "length (filename1 s) = 256" "BUFSIZE \<le> length (buf1 s)" and cs: "pieces cs"
  shows "\<exists>tr' s'. serve_file1 c s (st (data (strncpy name 256) # rc 0 # fed cs @ data [] # rs) tr fs) =
      (Val s', st rs (tr @ tr' @ [Printf ''-> transfer complete! (%d bytes)\<newline>'' [I (int (length (concat cs)))]])
        (fs(name \<mapsto> concat cs))) \<and>
    length (filename1 s') = 256 \<and> length (buf1 s') = length (buf1 s)"
proof -
  obtain tr' buf' where run: "loop (recv_file_iter c name) (0, buf1 s) (st (fed cs @ data [] # rs)
      (tr @ [Recv c 256 True, Printf ''-> file name: %s\<newline>'' [S name], FOpen name ''wb'']) (fs(name \<mapsto> []))) =
      (Val (0, int (length (concat cs)), buf'), st rs ((tr @ [Recv c 256 True,
        Printf ''-> file name: %s\<newline>'' [S name], FOpen name ''wb'']) @ tr') (fs(name \<mapsto> concat cs)))"
    and len: "length buf' = length (buf1 s)"
    using hw1.receives_all [OF cs bufs(2), where fs = "fs(name \<mapsto> [])" and path = name and old = "[]"
      and client_sock = c and n = 0 and rs = rs and d = c and tr = "tr @ [Recv c 256 True,
        Printf ''-> file name: %s\<newline>'' [S name], FOpen name ''wb'']"] by auto
  show ?thesis
    using c_str_strncpy [OF name] bufs len
    by (simp add: serve_file1_def Let_def overlay_whole opened_file_def pbind_Val [where m = "loop (recv_file_iter c name) (0, buf1 s)", OF run])
qed

lemma fileclient1_run:
  assumes there: "cfs name = Some content" and "0 \<le> sock" and "malloc_ok (int (length content))"
  shows "fileclient1_main malloc_ok [prog, ip, port, name]
      (st [rc sock, rc 0, rc 0, rc 256, rc (int (length content)), rc (int (length content))] tr cfs) =
    (Val (), st [] (tr @ [Socket 2 1 0,
       Connect sock \<lparr>sin_family = 2, sin_port = htons (word_of_int (atoi port)), sin_addr = inet_addr ip\<rparr>,
       FOpen name ''rb'', Send sock (strncpy name 256), FRead (length content), Send sock content,
       Printf ''-> transfer complete! (%d bytes)\<newline>'' [I (int (length content))], Close sock]) cfs)"
  using assms
  by (simp add: fileclient1_main_def tcp_connect_def pbind_assoc opened_file_def contents_def Let_def pseq_pbind)



text \<open>
  A name of 256 characters or more fills the array without a terminator, and the server prints
  and opens whatever the memory behind it holds.
\<close>

lemma hw1_long_name:
  assumes "NUL \<notin> set name" and "256 \<le> length name" and "length (filename1 s) = 256"
  shows "serve_file1 c s (st (data (strncpy name 256) # rs) tr fs) =
    (Abort (Fault Unterminated), st rs (tr @ [Recv c 256 True]) fs)"
proof -
  have "\<not> terminated (strncpy name 256)"
    using assms by (auto simp: strncpy_def terminated_def dest: in_set_takeD)
  with assms(3) show ?thesis
    by (simp add: serve_file1_def overlay_whole Let_def cstring_def)
qed

section \<open>hw2: resuming\<close>

text \<open>
  The replies of \<open>fread\<close> and \<open>send\<close> while the client sends a rest, block by block.
\<close>

function blocks :: "string \<Rightarrow> reply list" where
  "blocks s = (if s = [] then [rc 0]
     else rc (int (length (take BUFSIZE s))) # rc (int (length (take BUFSIZE s))) # blocks (drop BUFSIZE s))"
  by pat_completeness auto
termination
  by (relation "measure length") (auto simp: BUFSIZE_def)

declare blocks.simps [simp del]

lemma send_rest_step:
  assumes "drop pos (contents fs path) \<noteq> []"
  shows "send_rest_iter sock path fsize ttl (n, pos)
      (st (rc (int (length (take BUFSIZE (drop pos (contents fs path))))) # rc k # rs) tr fs) =
    (if k < 0 then (Val (Stop ()), st rs (tr @ [FRead BUFSIZE, Send sock (take BUFSIZE (drop pos (contents fs path))), PError ''send()'']) fs)
     else (Val (Next (n + int (length (take BUFSIZE (drop pos (contents fs path)))),
                 pos + length (take BUFSIZE (drop pos (contents fs path))))),
           st rs (tr @ [FRead BUFSIZE, Send sock (take BUFSIZE (drop pos (contents fs path))),
                 Printf ''.'' [], Usleep 10000]) fs))"
proof -
  define b where "b = take BUFSIZE (drop pos (contents fs path))"
  then have "b \<noteq> []"
    using assms by (simp add: BUFSIZE_def)
  then show ?thesis
    unfolding b_def [symmetric]
    by (simp add: send_rest_iter_def Let_def b_def [symmetric] del: take_take)
qed

lemma send_rest_end:
  assumes "drop pos (contents fs path) = []"
  shows "loop (send_rest_iter sock path fsize ttl) (n, pos) (st (rc 0 # rs) tr fs) =
    (Val (), st rs (tr @ [FRead BUFSIZE, if n = ttl then
      Printf ''\<newline>transfer complete!: %d bytes sent\<newline>'' [I fsize] else PError ''file I/O error'']) fs)"
  using assms
  by (intro loop_Stop [where body = "send_rest_iter sock path fsize ttl"])
    (simp add: send_rest_iter_def)

lemma send_rest_run:
  "\<exists>tr'. loop (send_rest_iter sock path fsize ttl) (n, pos)
      (st (blocks (drop pos (contents fs path)) @ rs) tr fs) =
    (Val (), st rs (tr @ tr' @ [if n + int (length (drop pos (contents fs path))) = ttl
      then Printf ''\<newline>transfer complete!: %d bytes sent\<newline>'' [I fsize] else PError ''file I/O error'']) fs) \<and>
    wire sock tr' = drop pos (contents fs path)"
proof (induction "length (contents fs path) - pos" arbitrary: n pos tr rule: less_induct)
  case less
  let ?rest = "drop pos (contents fs path)" and ?b = "take BUFSIZE (drop pos (contents fs path))"
  show ?case
  proof (cases "?rest = []")
    case True
    then show ?thesis
      by (intro exI [of _ "[FRead BUFSIZE]"]) (simp add: blocks.simps [of "[]"] send_rest_end)
  next
    case False
    let ?tr = "[FRead BUFSIZE, Send sock ?b, Printf ''.'' [], Usleep 10000]"
    have pos: "0 < length ?b"
      using False by (simp add: BUFSIZE_def)
    have rest: "drop (pos + length ?b) (contents fs path) = drop BUFSIZE ?rest"
      by (simp add: min_def add.commute)
    have "length (contents fs path) - (pos + length ?b) < length (contents fs path) - pos"
      using False pos by (simp add: not_le)
    from less.hyps [OF this, of "n + int (length ?b)" "tr @ ?tr"]
    obtain tr' where run: "loop (send_rest_iter sock path fsize ttl) (n + int (length ?b), pos + length ?b)
        (st (blocks (drop BUFSIZE ?rest) @ rs) (tr @ ?tr) fs) =
      (Val (), st rs ((tr @ ?tr) @ tr' @ [if n + int (length ?b) + int (length (drop BUFSIZE ?rest)) = ttl
        then Printf ''\<newline>transfer complete!: %d bytes sent\<newline>'' [I fsize] else PError ''file I/O error'']) fs)"
      and w: "wire sock tr' = drop BUFSIZE ?rest"
      unfolding rest by blast
    have len: "n + int (length ?b) + int (length (drop BUFSIZE ?rest)) = n + int (length ?rest)"
      by (simp add: min_def)
    have "loop (send_rest_iter sock path fsize ttl) (n, pos) (st (blocks ?rest @ rs) tr fs) =
        loop (send_rest_iter sock path fsize ttl) (n + int (length ?b), pos + length ?b)
          (st (blocks (drop BUFSIZE ?rest) @ rs) (tr @ ?tr) fs)"
      using False send_rest_step [OF False, of sock fsize ttl n "int (length ?b)"]
      by (subst loop_Next [where body = "send_rest_iter sock path fsize ttl"])
        (simp_all add: blocks.simps [of ?rest] del: drop_drop take_drop length_take)
    with run w len show ?thesis
      by (intro exI [of _ "?tr @ tr'"]) (simp del: drop_drop take_drop length_take length_drop)
  qed
qed

text \<open>The client's run against a server that has the first \<open>length old\<close> bytes.\<close>

lemma fileclient2_run:
  assumes there: "cfs name = Some (old @ new)" and "0 \<le> sock" and "length junk = 4"
    and small: "length (old @ new) < 2147483648"
  shows "\<exists>tr'. fileclient2_main junk [prog, ip, port, name]
      (st ([rc sock, rc 0, rc 0, rc 256, data (put_int (int (length old))), rc 4] @ blocks new @ rs) [] cfs) =
    (Val (), st rs tr' cfs) \<and>
    wire sock tr' = strncpy name 256 @ put_int (int (length new)) @ new"
proof -
  have c: "contents cfs name = old @ new"
    using there by (simp add: contents_def)
  have size: "get_int (put_int (int (length old))) = int (length old)"
    using small by (intro get_int_put_int) simp_all
  let ?tr = "[Socket 2 1 0,
    Connect sock \<lparr>sin_family = 2, sin_port = htons (word_of_int (atoi port)), sin_addr = inet_addr ip\<rparr>,
    FOpen name ''rb'', Send sock (strncpy name 256), Recv sock 4 True,
    Printf ''### transfer starts at offset %d ###\<newline>'' [I (int (length old))],
    Send sock (put_int (int (length new)))]"
  obtain tr' where run: "loop (send_rest_iter sock name (int (length old) + int (length new)) (int (length new)))
      (0, length old) (st (blocks new @ rs) ?tr cfs) =
    (Val (), st rs (?tr @ tr' @ [Printf ''\<newline>transfer complete!: %d bytes sent\<newline>''
      [I (int (length old) + int (length new))]]) cfs)"
    and w: "wire sock tr' = new"
    using send_rest_run [of sock name "int (length old) + int (length new)" "int (length new)" 0
        "length old" cfs rs ?tr] by (auto simp: c)
  show ?thesis
    using assms(2,3) there w
    by (simp add: fileclient2_main_def tcp_connect_def pbind_assoc opened_file_def Let_def overlay_whole
        size c pseq_def [of "loop _ _"]
        pbind_Val [where m = "loop (send_rest_iter sock name (int (length old) + int (length new)) (int (length new)))
          (0, length old)", OF run])
qed

text \<open>The server's side, with or without an earlier part of the file.\<close>

lemma serve_file2_receives:
  assumes name: "NUL \<notin> set name" "length name < 256"
    and bufs: "length (filename2 s) = 257" "length (totalbytes2 s) = 4" "BUFSIZE \<le> length (buf2 s)"
    and cs: "pieces cs" and k: "- 2147483648 \<le> k" "k < 2147483648"
  shows "\<exists>tr' s'. serve_file2 c s
      (st (data (strncpy name 256) # (if fs name = None then [] else [rc 0]) @ rc 4 # data (put_int k) # rc 0 #
         fed cs @ data [] # rs) tr fs) =
      (Val (s', True), st rs (tr @ tr' @ [if int (length (concat cs)) = k
          then Printf ''-> transfer complete!\<newline>'' [] else Printf ''-> transfer failed!\<newline>'' []])
        (fs(name \<mapsto> contents fs name @ concat cs))) \<and>
    wire c tr' = put_int (int (length (contents fs name)))"
proof -
  let ?old = "contents fs name" and ?fn = "overlay (filename2 s) 0 (strncpy name 256)"
  have fn: "terminated (?fn[256 := NUL])" "c_str (?fn[256 := NUL]) = name"
    using c_str_strncpy [OF name] bufs(1)
    by (auto simp: overlay_def list_update_append terminated_def c_str_def takeWhile_append1)
  have total: "get_int (put_int k) = k"
    using k by (rule get_int_put_int)
  define tr1 where "tr1 = [Recv c 256 True, Printf ''-> file name: %s\<newline>'' [S name], Access name] @
    (if fs name = None then [] else [FOpen name ''rb'']) @
    [Send c (put_int (int (length ?old))), Recv c 4 True,
     Printf ''-> size of the data: %d of %d bytes\<newline> (%d bytes already received)\<newline>''
       [I (int (length ?old) + k), I k, I (int (length ?old))], FOpen name ''ab'']"
  have "wire c tr1 = put_int (int (length ?old))"
    by (simp add: tr1_def)
  moreover
  let ?verdict = "if int (length (concat cs)) = k
    then Printf ''-> transfer complete!\<newline>'' [] else Printf ''-> transfer failed!\<newline>'' []"
  obtain tr2 buf' where run: "loop (append_iter c name) (0, buf2 s) (st (fed cs @ data [] # rs)
        (tr @ tr1) (fs(name \<mapsto> ?old))) =
      (Val (int (length (concat cs)), buf'), st rs ((tr @ tr1) @ tr2) (fs(name \<mapsto> ?old @ concat cs)))"
    and w2: "wire c tr2 = []"
    using hw2.receives_all [OF cs bufs(3), where fs = "fs(name \<mapsto> ?old)" and path = name and old = ?old
      and client_sock = c and n = 0 and rs = rs and tr = "tr @ tr1" and d = c] by auto
  have "\<exists>s'. serve_file2 c s
      (st (data (strncpy name 256) # (if fs name = None then [] else [rc 0]) @ rc 4 # data (put_int k) # rc 0 #
         fed cs @ data [] # rs) tr fs) =
      (Val (s', True), st rs (tr @ tr1 @ tr2 @ [?verdict]) (fs(name \<mapsto> ?old @ concat cs)))"
    using run bufs fn
    by (cases "fs name")
      (simp_all add: serve_file2_def current_size_def receive_rest_def overlay_whole opened_file_def total tr1_def contents_def Let_def pbind_assoc
        pbind_Val [where m = "loop (append_iter c name) (0, buf2 s)"] del: fun_upd_apply)
  moreover note w2
  ultimately show ?thesis
    by (metis append_Nil2 append_assoc wire_simps(2))
qed

text \<open>
  C1. Resuming in hw2 is end to end correct: when the server already has the first part of the
  client's file (or nothing), the client started with the length the server answers completes
  and sends exactly the name, the length of the rest and the rest; however the network cuts the
  stream, the server ends with the client's whole file and is ready for the next connection,
  and the length it answers is that of the part it has. For names of fewer than 256 characters
  and files below 2 GiB, which the 32-bit counts can express.
\<close>

theorem hw2_resume_end_to_end:
  assumes "cfs name = Some (old @ new)" and "contents sfs name = old"
    and "NUL \<notin> set name" and "length name < 256" and "length (old @ new) < 2147483648"
    and "0 \<le> sock" and "0 \<le> c" and "length junk = 4"
    and "length (filename2 s) = 257" and "length (totalbytes2 s) = 4" and "BUFSIZE \<le> length (buf2 s)"
  shows "\<exists>tc. fileclient2_main junk [prog, ip, port, name]
      (st ([rc sock, rc 0, rc 0, rc 256, data (put_int (int (length old))), rc 4] @ blocks new @ []) [] cfs) =
      (Val (), st [] tc cfs) \<and>
    (\<forall>cs. pieces cs \<and> concat cs = drop 260 (wire sock tc) \<longrightarrow>
      (\<exists>s' ts. fileserver2_iter l s
         (st (rc c # data (take 256 (wire sock tc)) # (if sfs name = None then [] else [rc 0]) @ rc 4 #
            data (take 4 (drop 256 (wire sock tc))) # rc 0 # fed cs @ data [] # rs) [] sfs) =
         (Val (Next s'), st rs ts (sfs(name \<mapsto> old @ new))) \<and>
         wire c ts = put_int (int (length old))))"
proof -
  obtain tc where run: "fileclient2_main junk [prog, ip, port, name]
      (st ([rc sock, rc 0, rc 0, rc 256, data (put_int (int (length old))), rc 4] @ blocks new @ []) [] cfs) =
      (Val (), st [] tc cfs)"
    and w: "wire sock tc = strncpy name 256 @ put_int (int (length new)) @ new"
    using fileclient2_run [where cfs = cfs and name = name and old = old and new = new,
        OF assms(1,6,8,5), of prog ip port "[]"] by blast
  have parts: "take 256 (wire sock tc) = strncpy name 256" "drop 260 (wire sock tc) = new"
    "take 4 (drop 256 (wire sock tc)) = put_int (int (length new))"
    by (simp_all add: w)
  let ?tr = "[Accept l, Printf ''\<newline>fileclient connected: IP address=%s, port=%d\<newline>''
     [S (inet_ntoa (sin_addr (r_from (rc c)))), I (uint (ntohs (sin_port (r_from (rc c)))))]]"
  have serve: "\<exists>s' ts. fileserver2_iter l s
         (st (rc c # data (strncpy name 256) # (if sfs name = None then [] else [rc 0]) @ rc 4 #
            data (put_int (int (length new))) # rc 0 # fed cs @ data [] # rs) [] sfs) =
         (Val (Next s'), st rs ts (sfs(name \<mapsto> old @ new))) \<and>
         wire c ts = put_int (int (length old))" if cs: "pieces cs" "concat cs = new" for cs
  proof -
    have k: "- 2147483648 \<le> int (length new)" "int (length new) < 2147483648"
      using assms(5) by simp_all
    obtain tr' s' where "serve_file2 c s
      (st (data (strncpy name 256) # (if sfs name = None then [] else [rc 0]) @ rc 4 #
         data (put_int (int (length new))) # rc 0 # fed cs @ data [] # rs) ?tr sfs) =
      (Val (s', True), st rs (?tr @ tr' @ [Printf ''-> transfer complete!\<newline>'' []]) (sfs(name \<mapsto> old @ new)))"
      and "wire c tr' = put_int (int (length old))"
      using serve_file2_receives [OF assms(3,4,9,10,11) cs(1) k, of c sfs rs ?tr] cs(2) assms(2) by auto
    then show ?thesis
      using assms(7)
      by (simp add: fileserver2_iter_def peer_def pbind_Val [where m = "serve_file2 c s"] del: fun_upd_apply)
  qed
  show ?thesis
    by (intro exI [of _ tc] conjI run allI impI, elim conjE) (simp only: parts serve)
qed

theorem hw2_resume_end_to_end_witness:
  "\<exists>tc. fileclient2_main (replicate 4 NUL) [''c'', ''127.0.0.1'', ''9000'', ''a'']
      (st ([rc 3, rc 0, rc 0, rc 256, data (put_int (int (length ''ab''))), rc 4] @ blocks ''cd'' @ [])
        [] [''a'' \<mapsto> ''ab'' @ ''cd'']) = (Val (), st [] tc [''a'' \<mapsto> ''ab'' @ ''cd'']) \<and>
    (\<forall>cs. pieces cs \<and> concat cs = drop 260 (wire 3 tc) \<longrightarrow>
      (\<exists>s' ts. fileserver2_iter 4
           \<lparr>filename2 = replicate 257 NUL, totalbytes2 = replicate 4 NUL, buf2 = replicate 1024 NUL\<rparr>
         (st (rc 5 # data (take 256 (wire 3 tc)) # (if [''a'' \<mapsto> ''ab''] ''a'' = None then [] else [rc 0]) @ rc 4 #
            data (take 4 (drop 256 (wire 3 tc))) # rc 0 # fed cs @ data [] # []) [] [''a'' \<mapsto> ''ab'']) =
         (Val (Next s'), st [] ts ([''a'' \<mapsto> ''ab''](''a'' \<mapsto> ''ab'' @ ''cd''))) \<and>
         wire 5 ts = put_int (int (length ''ab''))))"
  by (rule hw2_resume_end_to_end) (simp_all add: BUFSIZE_def contents_def)

section \<open>hw2: memory safety of the server\<close>

lemma wp_fopen [wp_simps]:
  "wp (fopen path mode) Q E w = (case replies w of
       [] \<Rightarrow> E Blocked (w\<lparr>trace := trace w @ [FOpen path mode]\<rparr>)
     | r # rs \<Rightarrow> (if r_ret r < 0 then Q False (w\<lparr>replies := rs, trace := trace w @ [FOpen path mode]\<rparr>)
         else Q (fst (opened_file path mode (files w)))
           (w\<lparr>replies := rs, trace := trace w @ [FOpen path mode], files := snd (opened_file path mode (files w))\<rparr>)))"
  by (simp add: fopen_def wp_def pbind_def sys_def split: list.splits)

lemma wp_fwrite [wp_simps]:
  "wp (fwrite path d) Q E w = (case replies w of
       [] \<Rightarrow> E Blocked (w\<lparr>trace := trace w @ [FWrite path d]\<rparr>)
     | r # rs \<Rightarrow> Q (r_ret r < int (length d)) (w\<lparr>replies := rs, trace := trace w @ [FWrite path d],
         files := (files w)(path \<mapsto> contents (files w) path @ take (nat (r_ret r)) d)\<rparr>))"
  by (simp add: fwrite_def wp_def pbind_def sys_def split: list.splits)

lemma wp_filesize [wp_simps]: "wp (filesize path) Q E w = Q (int (length (contents (files w) path))) w"
  by (simp add: filesize_def wp_def)

lemma wp_search_file [wp_simps]:
  "wp (search_file path) Q E w = Q (files w path \<noteq> None) (w\<lparr>trace := trace w @ [Access path]\<rparr>)"
  by (simp add: search_file_def wp_def pseq_def pbind_def emit_def)

definition server2_inv :: "server2 \<Rightarrow> bool" where
  "server2_inv s \<longleftrightarrow> length (filename2 s) = 257 \<and> length (totalbytes2 s) = 4 \<and> BUFSIZE \<le> length (buf2 s)"

lemma append_loop_safe:
  assumes "BUFSIZE \<le> length buf" and "length (replies w) < k"
  shows "wp (loop (append_iter c path) (n, buf))
    (\<lambda>(_, buf') w'. BUFSIZE \<le> length buf' \<and> length (replies w') < k) (\<lambda>x _. no_fault x) w"
  by (rule wp_loop [where Inv = "\<lambda>(n, buf) w. BUFSIZE \<le> length buf \<and> length (replies w) < k"])
    (use assms in \<open>auto simp: append_iter_def rrecv_def wp_simps got_def split: list.splits\<close>)

lemma wp_current_size:
  assumes "length (replies w) < k"
    and "\<And>n w'. length (replies w') < k \<Longrightarrow> Q n w'"
  shows "wp (current_size path) Q (\<lambda>x _. no_fault x) w"
  using assms by (auto simp: current_size_def wp_simps split: list.splits)

lemma receive_rest_safe:
  assumes "server2_inv s" and "length (replies w) < k"
  shows "wp (receive_rest c s path n) (\<lambda>(s', _) w'. server2_inv s' \<and> length (replies w') < k) (\<lambda>x _. no_fault x) w"
proof -
  note after = wp_mono [OF append_loop_safe [where k = k]]
  show ?thesis
    using assms
    by (auto simp: receive_rest_def rrecv_def wp_simps got_def server2_inv_def Let_def split: list.splits
        intro!: after)
qed

lemma serve_file2_safe:
  assumes "server2_inv s" and "length (replies w) < k"
  shows "wp (serve_file2 c s) (\<lambda>(s', _) w'. server2_inv s' \<and> length (replies w') < k) (\<lambda>x _. no_fault x) w"
proof -
  note after = wp_mono [OF receive_rest_safe [where k = k]]
  show ?thesis
    using assms
    by (auto simp: serve_file2_def rrecv_def wp_simps got_def server2_inv_def Let_def terminated_update
        split: list.splits option.splits intro!: wp_current_size [where k = k] after)
qed

lemma fileserver2_iter_safe:
  assumes "server2_inv s"
  shows "wp (fileserver2_iter l s)
    (\<lambda>r w'. case r of Next s' \<Rightarrow> server2_inv s' \<and> length (replies w') < length (replies w) | Stop _ \<Rightarrow> True)
    (\<lambda>x _. no_fault x) w"
proof -
  have serve: "wp (serve_file2 c s) Q (\<lambda>x _. no_fault x) w'"
    if "length (replies w') < k" "\<And>s' b w''. server2_inv s' \<Longrightarrow> length (replies w'') < k \<Longrightarrow> Q (s', b) w''" for c w' k Q
    by (rule wp_mono [OF serve_file2_safe [OF assms that(1)]]) (auto intro: that(2))
  show ?thesis
    by (auto simp: fileserver2_iter_def peer_def wp_simps split: list.splits
        intro!: serve [where k = "length (replies w)"])
qed

text \<open>
  C19. The file server of hw2 is memory safe: for any start arguments, any first contents of its
  stack arrays, and whatever the kernel and the clients answer over any number of connections,
  no array is overrun and every string it uses is terminated, unlike hw1's server, where a name
  of 256 characters runs off the array.
\<close>

theorem fileserver2_safe:
  assumes "server2_inv junk"
  shows "safe (fileserver2_main junk argv) w"
  unfolding safe_def fileserver2_main_def tcp_listen_def err_quit_def
  by (auto simp: wp_simps assms split: list.splits
      intro!: wp_loop [where Inv = "\<lambda>s _. server2_inv s"] wp_mono [OF fileserver2_iter_safe] split: iter.splits)

theorem fileserver2_safe_witness:
  "safe (fileserver2_main \<lparr>filename2 = replicate 257 NUL, totalbytes2 = replicate 4 NUL, buf2 = replicate 1024 NUL\<rparr>
     [''s'', ''9000'']) (st [rc 3, rc 0, rc 0, rc 4, data (replicate 256 (CHR ''a''))] [] Map.empty)"
  by (rule fileserver2_safe) (simp add: server2_inv_def BUFSIZE_def)

end
