(* ===== verification/Sockets.thy ===== *)
theory Sockets
  imports Process Libc
begin

text \<open>
  What every TCP program of the repository starts with: the server's socket, bind and listen,
  and the client's socket and connect; \<open>scanf("%s")\<close>; and the reading of a C string out of
  the buffer it was received in.
\<close>

text \<open>The C library's \<open>BUFSIZ\<close>.\<close>

definition BUFSIZ :: nat where "BUFSIZ = 8192"

abbreviation sock_addr :: "int \<Rightarrow> u32 \<Rightarrow> sockaddr_in" where
  "sock_addr port a \<equiv> \<lparr>sin_family = 2, sin_port = htons (word_of_int port), sin_addr = a\<rparr>"

definition bind_listen :: "fd \<Rightarrow> int \<Rightarrow> string \<Rightarrow> unit prog" where
  "bind_listen s port msg =
     pbind (sys_ret (Bind s (sock_addr port (htonl INADDR_ANY)))) (\<lambda>r.
     if r = -1 then pseq (printf ''Can not Bind\<newline>'' []) (pexit (-1)) else
     pbind (sys_ret (Listen s 5)) (\<lambda>r.
     if r = -1 then pseq (printf msg []) (pexit (-1)) else pret ()))"

definition listen_on :: "int \<Rightarrow> string \<Rightarrow> fd prog" where
  "listen_on port msg =
     pbind (sys_ret (Socket 2 1 0)) (\<lambda>s. pseq (bind_listen s port msg) (pret s))"

definition connect_to :: "string \<Rightarrow> int \<Rightarrow> fd prog" where
  "connect_to ip port =
     pbind (sys_ret (Socket 2 1 0)) (\<lambda>c.
     pbind (sys_ret (Connect c (sock_addr port (inet_addr ip)))) (\<lambda>r.
     if r = -1 then pseq (printf ''Can not connect\<newline>'' []) (pseq (emit (Close c)) (pexit (-1)))
     else pret c))"

text \<open>\<open>scanf("%s", buf)\<close>: a word and its terminator; at end of file the array is unchanged.\<close>

definition scanf_s :: "string \<Rightarrow> string prog" where
  "scanf_s buf = pbind (sys Scanf (\<lambda>r. r)) (\<lambda>r.
     if r_ret r < 0 then pret buf else deliver buf 0 (r_data r @ [NUL]))"

lemma pbind_rread_st [simp]:
  "pbind (rread d n) k (st (r # rs) tr fs) = k (got n r) (st rs (tr @ [Read d n]) fs)"
  "pbind (rread d n) k (st [] tr fs) = (Abort Blocked, st [] (tr @ [Read d n]) fs)"
  by (simp_all add: rread_def)

lemma pbind_scanf_st [simp]:
  "pbind (scanf_s buf) k (st (r # rs) tr fs) =
     (if r_ret r < 0 then k buf else pbind (deliver buf 0 (r_data r @ [NUL])) k) (st rs (tr @ [Scanf]) fs)"
  by (simp add: scanf_s_def pbind_assoc)

lemma wp_rread [wp_simps]:
  "wp (rread d n) Q E w = (case replies w of
       [] \<Rightarrow> E Blocked (w\<lparr>trace := trace w @ [Read d n]\<rparr>)
     | r # rs \<Rightarrow> Q (got n r) (w\<lparr>replies := rs, trace := trace w @ [Read d n]\<rparr>))"
  by (simp add: rread_def wp_sys)

text \<open>A string stored with its terminator is read back.\<close>

lemma c_str_append_NUL: "NUL \<notin> set s \<Longrightarrow> c_str (s @ NUL # t) = s \<and> terminated (s @ NUL # t)"
  by (induction s) (auto simp: c_str_def terminated_def)

lemma cstring_append_NUL [simp]: "NUL \<notin> set s \<Longrightarrow> cstring (s @ NUL # t) = pret s"
  by (simp add: c_str_append_NUL)

lemma overlay_0: "overlay buf 0 d = d @ drop (length d) buf"
  by (simp add: overlay_def)

text \<open>The bytes a program wrote to a descriptor.\<close>

definition wrote :: "fd \<Rightarrow> call list \<Rightarrow> string" where
  "wrote d tr = concat (map (\<lambda>c. case c of Write d' x \<Rightarrow> if d' = d then x else [] | _ \<Rightarrow> []) tr)"

lemma wrote_simps [simp]:
  "wrote d [] = []" "wrote d (tr @ tr') = wrote d tr @ wrote d tr'"
  "wrote d (c # tr) = (case c of Write d' x \<Rightarrow> if d' = d then x else [] | _ \<Rightarrow> []) @ wrote d tr"
  "wrote d (replicate n (Read e m)) = []"
  by (simp_all add: wrote_def)

end
