(* ===== verification/LineServer.thy ===== *)
theory LineServer
  imports Sockets
begin

text \<open>
  The programs that read a line a byte at a time: the greeting server and its client
  (mon/hello_server.c, mon/hello_client.c), the directory server and client
  (tue/ls_srv_client), the echo pair (tue/echo; wen/fork/echo_client.c is the same client), and
  the unfinished file server and client of tue/file_transfer.
\<close>

section \<open>Reading a line\<close>

text \<open>
  \<open>temp\<close> is a position in the buffer and \<open>length\<close> a counter of its own: the servers set both
  to zero for every line, the echo client only \<open>temp\<close>. The byte is read to where \<open>temp\<close>
  points before \<open>length\<close> is compared with the size of the buffer.
\<close>

record line =
  tmp :: nat
  len :: int
  lbuf :: string

definition read_line_iter :: "fd \<Rightarrow> line \<Rightarrow> (line, line) iter prog" where
  "read_line_iter d s =
     pbind (rread d 1) (\<lambda>(n, c).
     if n \<le> 0 then pret (Stop s) else
     pbind (deliver (lbuf s) (tmp s) c) (\<lambda>buf.
     let s = s\<lparr>lbuf := buf\<rparr> in
     if buf ! tmp s = CHR 0x0D then pret (Next s)
     else if buf ! tmp s = CHR 0x0A then pret (Stop s)
     else if buf ! tmp s = NUL then pret (Stop s)
     else if len s = int BUFSIZ then pret (Stop s)
     else pret (Next (s\<lparr>tmp := tmp s + 1, len := len s + 1\<rparr>))))"

text \<open>The loop and the terminator stored at \<open>length\<close>.\<close>

definition read_line :: "fd \<Rightarrow> int \<Rightarrow> string \<Rightarrow> line prog" where
  "read_line d len0 buf =
     pbind (loop (read_line_iter d) \<lparr>tmp = 0, len = len0, lbuf = buf\<rparr>) (\<lambda>s.
     pbind (store (lbuf s) (len s) NUL) (\<lambda>buf. pret (s\<lparr>lbuf := buf\<rparr>)))"

text \<open>The clients of the directory and file servers read to the end of the stream.\<close>

definition read_all_iter :: "fd \<Rightarrow> line \<Rightarrow> (line, line) iter prog" where
  "read_all_iter d s =
     pbind (rread d 1) (\<lambda>(n, c).
     if n \<le> 0 then pret (Stop s) else
     pbind (deliver (lbuf s) (tmp s) c) (\<lambda>buf.
     let s = s\<lparr>lbuf := buf\<rparr> in
     if len s = int BUFSIZ then pret (Stop s)
     else pret (Next (s\<lparr>tmp := tmp s + 1, len := len s + 1\<rparr>))))"

section \<open>The programs\<close>

definition zeros :: string where "zeros = replicate BUFSIZ NUL"

text \<open>mon/hello_server.c\<close>

definition hello_iter :: "fd \<Rightarrow> string \<Rightarrow> (string, unit) iter prog" where
  "hello_iter s_socket rBuffer =
     pbind (sys_ret (Accept s_socket)) (\<lambda>c_socket.
     pseq (printf ''accept socket!! \<newline>'' [])
    (pbind (read_line c_socket 0 rBuffer) (\<lambda>l.
     pbind (cstring (lbuf l)) (\<lambda>cmd.
     pseq (if cmd = ''print'' then sys_do (Write c_socket ''hello, world'') else pret ())
    (pseq (emit (Close c_socket))
     (pret (Next (lbuf l))))))))"

definition hello_server_main :: "unit prog" where
  "hello_server_main =
     pbind (listen_on 9000 ''listen fail!!!\<newline>'') (\<lambda>s_socket.
     pseq (loop (hello_iter s_socket) zeros) (emit (Close s_socket)))"

text \<open>mon/hello_client.c: \<open>junk\<close> is the uninitialised buffer of 1024 bytes.\<close>

definition hello_client_main :: "string \<Rightarrow> unit prog" where
  "hello_client_main junk =
     pbind (connect_to ''127.0.0.1'' 9000) (\<lambda>c_socket.
     pbind (rread c_socket 1024) (\<lambda>(n, d).
     if n < 0 then pexit (-1) else
     pbind (deliver junk 0 d) (\<lambda>rcvBuffer.
     pseq (pfor (take (nat n) rcvBuffer) (\<lambda>c _. printf ''%c'' [C c]) ())
    (pseq (printf ''\<newline>'' [])
     (emit (Close c_socket))))))"

text \<open>tue/ls_srv_client/ls_server.c: \<open>readdir\<close> gives an inode number and a name, or NULL.\<close>

definition list_dir_iter :: "fd \<Rightarrow> unit \<Rightarrow> (unit, unit) iter prog" where
  "list_dir_iter c_socket _ =
     pbind (sys ReadDir (\<lambda>r. (r_ret r, r_data r))) (\<lambda>(ino, name).
     if ino < 0 then pret (Stop ())
     else if ino = 0 then pret (Next ())
     else pseq (sys_do (Write c_socket name)) (pseq (sys_do (Write c_socket '' '')) (pret (Next ()))))"

definition ls_iter :: "fd \<Rightarrow> string \<Rightarrow> (string, unit) iter prog" where
  "ls_iter s_socket rBuffer =
     pbind (sys_ret (Accept s_socket)) (\<lambda>c_socket.
     pbind (read_line c_socket 0 rBuffer) (\<lambda>l.
     pbind (cstring (lbuf l)) (\<lambda>cmd.
     pseq (if cmd = ''ls'' then
             pbind (sys_ret (OpenDir ''.'')) (\<lambda>dp.
             if dp < 0 then sys_do (Write c_socket ''Directory Error'')
             else loop (list_dir_iter c_socket) ())
           else pret ())
    (pseq (emit (Close c_socket))
     (pret (Next (lbuf l)))))))"

definition ls_server_main :: "unit prog" where
  "ls_server_main =
     pbind (listen_on 9000 ''listen Fail\<newline>'') (\<lambda>s_socket.
     pseq (loop (ls_iter s_socket) zeros) (emit (Close s_socket)))"

text \<open>
  tue/ls_srv_client/ls_client.c and tue/file_transfer/client/file_client.c: send a word with its
  terminator, print what comes back.
\<close>

definition send_word :: "fd \<Rightarrow> string \<Rightarrow> string prog" where
  "send_word c_socket buffer =
     pbind (scanf_s buffer) (\<lambda>buffer.
     pbind (cstring buffer) (\<lambda>word.
     pbind (sys_ret (Write c_socket (word @ [NUL]))) (\<lambda>n.
     if n < 0 then pseq (printf ''write error\<newline>'' []) (pexit (-1)) else pret buffer)))"

definition ls_client_main :: "string \<Rightarrow> unit prog" where
  "ls_client_main junk =
     pbind (connect_to ''127.0.0.1'' 9000) (\<lambda>c_socket.
     pseq (send_word c_socket zeros)
    (pbind (loop (read_all_iter c_socket) \<lparr>tmp = 0, len = 0, lbuf = junk\<rparr>) (\<lambda>s.
     pbind (store (lbuf s) (len s) NUL) (\<lambda>rcvBuffer.
     pbind (cstring rcvBuffer) (\<lambda>text.
     pseq (printf ''received Data : %s\<newline>'' [S text])
     (emit (Close c_socket)))))))"

definition file_client_main :: "string \<Rightarrow> unit prog" where
  "file_client_main = ls_client_main"

text \<open>
  tue/file_transfer/server/file_server.c: the body is a list of TODOs; it dereferences the
  pointer \<open>dir\<close>, which was never assigned.
\<close>

definition file_server_iter :: "fd \<Rightarrow> string \<Rightarrow> (string, unit) iter prog" where
  "file_server_iter s_socket rBuffer =
     pbind (sys_ret (Accept s_socket)) (\<lambda>c_socket.
     pbind (read_line c_socket 0 rBuffer) (\<lambda>l.
     pbind (sys_ret (OpenDir ''.'')) (\<lambda>dp.
     pseq (if dp < 0 then sys_do (Write c_socket ''Directory Error'') else pfault NullPointer)
    (pseq (emit (Close c_socket))
     (pret (Next (lbuf l)))))))"

definition file_server_main :: "unit prog" where
  "file_server_main =
     pbind (listen_on 9000 ''listen Fail\<newline>'') (\<lambda>s_socket.
     pseq (loop (file_server_iter s_socket) zeros) (emit (Close s_socket)))"

text \<open>tue/echo/server/echo_server.c: one connection, until the client says quit.\<close>

definition echo_line_iter :: "fd \<Rightarrow> string \<Rightarrow> (string, unit) iter prog" where
  "echo_line_iter c_socket rBuffer =
     pbind (read_line c_socket 0 rBuffer) (\<lambda>l.
     pbind (cstring (lbuf l)) (\<lambda>text.
     if text \<noteq> ''quit'' then
       pseq (printf ''recevied: %s\<newline>'' [S text])
      (pbind (sys_ret (Write c_socket (text @ [NUL]))) (\<lambda>n.
       if n < 0 then pseq (printf ''write error\<newline>'' []) (pret (Stop ()))
       else pret (Next (lbuf l))))
     else pret (Stop ())))"

definition echo_server_main :: "unit prog" where
  "echo_server_main =
     pbind (listen_on 9000 ''listen Fail\<newline>'') (\<lambda>s_socket.
     pbind (sys_ret (Accept s_socket)) (\<lambda>c_socket.
     pseq (loop (echo_line_iter c_socket) zeros)
    (pseq (emit (Close c_socket)) (emit (Close s_socket)))))"

text \<open>tue/echo/client/echo_client.c; \<open>length\<close> is set to zero once, before the loop.\<close>

record echo_client =
  obuf :: string
  ibuf :: string
  ilen :: int

definition echo_client_iter :: "fd \<Rightarrow> echo_client \<Rightarrow> (echo_client, unit) iter prog" where
  "echo_client_iter c_socket s =
     pbind (send_word c_socket (obuf s)) (\<lambda>buffer.
     if c_str buffer = ''quit'' then pseq (printf ''closed\<newline>'' []) (pret (Stop ()))
     else
       pbind (read_line c_socket (ilen s) (ibuf s)) (\<lambda>l.
       pbind (cstring (lbuf l)) (\<lambda>text.
       pseq (printf ''echo : %s\<newline>'' [S text])
       (pret (Next \<lparr>obuf = buffer, ibuf = lbuf l, ilen = len l\<rparr>)))))"

definition echo_client_on :: "int \<Rightarrow> string \<Rightarrow> unit prog" where
  "echo_client_on port junk =
     pbind (connect_to ''127.0.0.1'' port) (\<lambda>c_socket.
     pseq (loop (echo_client_iter c_socket) \<lparr>obuf = zeros, ibuf = junk, ilen = 0\<rparr>)
     (emit (Close c_socket)))"

definition echo_client_main :: "string \<Rightarrow> unit prog" where
  "echo_client_main = echo_client_on 9000"

text \<open>wen/fork/echo_client.c: the same code with another port number.\<close>

definition fork_echo_client_main :: "string \<Rightarrow> unit prog" where
  "fork_echo_client_main = echo_client_on 80900"

section \<open>The line reader\<close>

text \<open>A byte arriving by itself; the bytes that do not end a line.\<close>

abbreviation byte :: "char \<Rightarrow> reply" where
  "byte c \<equiv> data [c]"

definition plain :: "char \<Rightarrow> bool" where
  "plain c \<longleftrightarrow> c \<noteq> CHR 0x0A \<and> c \<noteq> NUL"

definition text_of :: "string \<Rightarrow> string" where
  "text_of t = filter (\<lambda>c. c \<noteq> CHR 0x0D) t"

lemma text_of_simps [simp]:
  "text_of [] = []" "text_of (c # t) = (if c = CHR 0x0D then text_of t else c # text_of t)"
  by (simp_all add: text_of_def)

lemma text_of_id: "CHR 0x0D \<notin> set t \<Longrightarrow> text_of t = t"
  by (induction t) auto

lemma got_1 [simp]: "got (Suc 0) (byte c) = (1, [c])" "got 1 (byte c) = (1, [c])"
  by (simp_all add: got_def data_def)

lemma overlay_char: "i < length buf \<Longrightarrow> overlay buf i [c] = buf[i := c]"
  by (simp add: overlay_def upd_conv_take_nth_drop)

lemma read_line_iter_byte:
  assumes "tmp s < length (lbuf s)"
  shows "read_line_iter d s (st (byte c # rs) tr fs) =
    (let s' = s\<lparr>lbuf := (lbuf s)[tmp s := c]\<rparr> in
     (Val (if c = CHR 0x0D then Next s'
           else if c = CHR 0x0A \<or> c = NUL \<or> len s = int BUFSIZ then Stop s'
           else Next (s'\<lparr>tmp := tmp s + 1, len := len s + 1\<rparr>)), st rs (tr @ [Read d 1]) fs))"
  using assms by (simp add: read_line_iter_def overlay_char Let_def)

lemma read_chars:
  "list_all plain t \<Longrightarrow> length (lbuf s) = BUFSIZ \<Longrightarrow> tmp s + length (text_of t) < BUFSIZ \<Longrightarrow>
   len s + int (length (text_of t)) \<le> int BUFSIZ \<Longrightarrow>
   \<exists>buf. loop (read_line_iter d) s (st (map byte t @ rs) tr fs) =
     loop (read_line_iter d) (s\<lparr>tmp := tmp s + length (text_of t), len := len s + int (length (text_of t)), lbuf := buf\<rparr>)
       (st rs (tr @ replicate (length t) (Read d 1)) fs) \<and>
     length buf = BUFSIZ \<and> take (tmp s + length (text_of t)) buf = take (tmp s) (lbuf s) @ text_of t"
proof (induction t arbitrary: s tr)
  case Nil
  then show ?case by (intro exI [of _ "lbuf s"]) simp
next
  case (Cons c t)
  let ?s = "if c = CHR 0x0D then s\<lparr>lbuf := (lbuf s)[tmp s := c]\<rparr>
    else s\<lparr>lbuf := (lbuf s)[tmp s := c], tmp := tmp s + 1, len := len s + 1\<rparr>"
  have tmp: "tmp s < length (lbuf s)" and "plain c"
    using Cons.prems by auto
  moreover have "len s \<noteq> int BUFSIZ" if "c \<noteq> CHR 0x0D"
    using Cons.prems(4) that by auto
  ultimately have "read_line_iter d s (st (byte c # map byte t @ rs) tr fs) =
      (Val (Next ?s), st (map byte t @ rs) (tr @ [Read d 1]) fs)"
    by (simp add: read_line_iter_byte plain_def Let_def)
  then have step: "loop (read_line_iter d) s (st (map byte (c # t) @ rs) tr fs) =
      loop (read_line_iter d) ?s (st (map byte t @ rs) (tr @ [Read d 1]) fs)"
    by (simp add: loop_Next [where body = "read_line_iter d"])
  have pre: "list_all plain t" "length (lbuf ?s) = BUFSIZ" "tmp ?s + length (text_of t) < BUFSIZ"
    "len ?s + int (length (text_of t)) \<le> int BUFSIZ"
    using Cons.prems by (auto split: if_splits)
  from Cons.IH [OF pre, of "tr @ [Read d 1]"] show ?case
    unfolding step using tmp
    by (cases "c = CHR 0x0D") (auto simp: take_Suc_conv_app_nth replicate_append_same [symmetric] add.assoc)
qed

declare One_nat_def [simp del]

text \<open>A line and its terminator, for a position and a counter within the buffer.\<close>

lemma read_line_gen:
  assumes "list_all plain t" and "e = NUL \<or> e = CHR 0x0A" and "length buf = BUFSIZ"
    and "length (text_of t) < BUFSIZ" and "0 \<le> l" and "l + int (length (text_of t)) < int BUFSIZ"
  shows "\<exists>buf'. read_line d l buf (st (map byte (t @ [e]) @ rs) tr fs) =
     (Val \<lparr>tmp = length (text_of t), len = l + int (length (text_of t)),
           lbuf = buf'[nat (l + int (length (text_of t))) := NUL]\<rparr>,
      st rs (tr @ replicate (Suc (length t)) (Read d 1)) fs) \<and>
    length buf' = BUFSIZ \<and> take (length (text_of t)) buf' = text_of t \<and> buf' ! length (text_of t) = e"
proof -
  let ?n = "length (text_of t)"
  obtain buf1 where run: "loop (read_line_iter d) \<lparr>tmp = 0, len = l, lbuf = buf\<rparr>
      (st (map byte t @ byte e # rs) tr fs) =
     loop (read_line_iter d) \<lparr>tmp = ?n, len = l + int ?n, lbuf = buf1\<rparr>
       (st (byte e # rs) (tr @ replicate (length t) (Read d 1)) fs)"
    and buf1: "length buf1 = BUFSIZ" "take ?n buf1 = text_of t"
    using read_chars [of t "\<lparr>tmp = 0, len = l, lbuf = buf\<rparr>" d "byte e # rs" tr fs] assms by auto
  have "read_line_iter d \<lparr>tmp = ?n, len = l + int ?n, lbuf = buf1\<rparr>
       (st (byte e # rs) (tr @ replicate (length t) (Read d 1)) fs) =
     (Val (Stop \<lparr>tmp = ?n, len = l + int ?n, lbuf = buf1[?n := e]\<rparr>),
      st rs ((tr @ replicate (length t) (Read d 1)) @ [Read d 1]) fs)"
    using assms(2,4) buf1(1) by (auto simp: read_line_iter_byte)
  note stop = loop_Stop [where body = "read_line_iter d", OF this]
  have "pbind (loop (read_line_iter d) \<lparr>tmp = 0, len = l, lbuf = buf\<rparr>) k
      (st (map byte (t @ [e]) @ rs) tr fs) =
    k \<lparr>tmp = ?n, len = l + int ?n, lbuf = buf1[?n := e]\<rparr>
      (st rs (tr @ replicate (Suc (length t)) (Read d 1)) fs)" for k :: "line \<Rightarrow> line prog"
    by (simp add: pbind_def run stop replicate_append_same [symmetric])
  then show ?thesis
    using assms(4-6) buf1 by (intro exI [of _ "buf1[?n := e]"]) (simp add: read_line_def)
qed

lemma read_line_server:
  assumes "list_all plain t" and "e = NUL \<or> e = CHR 0x0A" and "length buf = BUFSIZ"
    and "length (text_of t) < BUFSIZ"
  shows "\<exists>l. read_line d 0 buf (st (map byte (t @ [e]) @ rs) tr fs) =
      (Val l, st rs (tr @ replicate (Suc (length t)) (Read d 1)) fs) \<and>
    length (lbuf l) = BUFSIZ \<and> cstring (lbuf l) = pret (text_of t)"
proof -
  let ?n = "length (text_of t)"
  obtain buf' where run: "read_line d 0 buf (st (map byte (t @ [e]) @ rs) tr fs) =
     (Val \<lparr>tmp = ?n, len = int ?n, lbuf = buf'[?n := NUL]\<rparr>,
      st rs (tr @ replicate (Suc (length t)) (Read d 1)) fs)"
    and buf': "length buf' = BUFSIZ" "take ?n buf' = text_of t"
    using read_line_gen [OF assms(1-4), of 0 d rs tr fs] assms(4) by auto
  have "NUL \<notin> set (text_of t)"
    using assms(1) by (auto simp: text_of_def plain_def list_all_iff)
  moreover have "buf'[?n := NUL] = text_of t @ NUL # drop (Suc ?n) buf'"
    using assms(4) buf' by (simp add: upd_conv_take_nth_drop)
  ultimately have "cstring (buf'[?n := NUL]) = pret (text_of t)"
    by simp
  with run buf'(1) show ?thesis by simp
qed

text \<open>
  The reader stores a byte before it compares the length, so the byte after \<open>BUFSIZ\<close>
  characters is written behind the array.
\<close>

lemma replicate_two_more: "0 < n \<Longrightarrow> replicate (n + 1) x = replicate (n - 1) x @ [x, x]"
proof -
  have "x # x # replicate k x = replicate k x @ [x, x]" for k
    by (induction k) auto
  then show "0 < n \<Longrightarrow> replicate (n + 1) x = replicate (n - 1) x @ [x, x]"
    by (cases n) (auto simp: One_nat_def)
qed

lemma read_line_overflow:
  assumes "list_all plain t" and "CHR 0x0D \<notin> set t" and "length t = BUFSIZ - 1"
    and "plain c" and "c \<noteq> CHR 0x0D" and "length buf = BUFSIZ"
  shows "read_line d 0 buf (st (map byte (t @ [c, e]) @ rs) tr fs) =
    (Abort (Fault OutOfBounds), st rs (tr @ replicate (BUFSIZ + 1) (Read d 1)) fs)"
proof -
  have n: "length (text_of t) = BUFSIZ - 1" and b: "0 < BUFSIZ"
    using assms(2,3) by (simp_all add: text_of_id BUFSIZ_def)
  obtain buf1 where run: "loop (read_line_iter d) \<lparr>tmp = 0, len = 0, lbuf = buf\<rparr>
      (st (map byte t @ byte c # byte e # rs) tr fs) =
     loop (read_line_iter d) \<lparr>tmp = BUFSIZ - 1, len = int (BUFSIZ - 1), lbuf = buf1\<rparr>
       (st (byte c # byte e # rs) (tr @ replicate (BUFSIZ - 1) (Read d 1)) fs)"
    and buf1: "length buf1 = BUFSIZ"
    using read_chars [of t "\<lparr>tmp = 0, len = 0, lbuf = buf\<rparr>" d "byte c # byte e # rs" tr fs] assms n b
    by auto
  have "read_line_iter d \<lparr>tmp = BUFSIZ - 1, len = int (BUFSIZ - 1), lbuf = buf1\<rparr>
       (st (byte c # byte e # rs) (tr @ replicate (BUFSIZ - 1) (Read d 1)) fs) =
     (Val (Next \<lparr>tmp = BUFSIZ, len = int BUFSIZ, lbuf = buf1[BUFSIZ - 1 := c]\<rparr>),
      st (byte e # rs) ((tr @ replicate (BUFSIZ - 1) (Read d 1)) @ [Read d 1]) fs)"
    using assms(4,5) buf1 b by (subst read_line_iter_byte) (auto simp: plain_def Let_def of_nat_diff)
  note one = loop_Next [where body = "read_line_iter d", OF this]
  have "read_line_iter d \<lparr>tmp = BUFSIZ, len = int BUFSIZ, lbuf = buf1[BUFSIZ - 1 := c]\<rparr>
      (st (byte e # rs) ((tr @ replicate (BUFSIZ - 1) (Read d 1)) @ [Read d 1]) fs) =
    (Abort (Fault OutOfBounds), st rs (((tr @ replicate (BUFSIZ - 1) (Read d 1)) @ [Read d 1]) @ [Read d 1]) fs)"
    using buf1 by (simp add: read_line_iter_def deliver_def)
  note two = loop_Abort [where body = "read_line_iter d", OF this, unfolded append_assoc append.simps]
  have "replicate (BUFSIZ + 1) (Read d 1) = replicate (BUFSIZ - 1) (Read d 1) @ [Read d 1, Read d 1]"
    using b by (rule replicate_two_more)
  then show ?thesis
    by (simp add: read_line_def pbind_def run one two)
qed

section \<open>Properties of the servers\<close>

text \<open>
  The line servers answer exactly the line: a request that arrives byte by byte, ended by a
  newline or a NUL and with any carriage returns in it, is taken as the text without them; the
  greeting server writes its greeting if that text is print and nothing otherwise, closes the
  connection and waits for the next one.
\<close>

theorem hello_server_serves:
  assumes "list_all plain t" and "e = NUL \<or> e = CHR 0x0A" and "length (text_of t) < BUFSIZ"
    and "length buf = BUFSIZ"
  shows "\<exists>buf'. hello_iter s buf (st (rc c # map byte (t @ [e]) @ rc 12 # rs) tr fs) =
    (Val (Next buf'),
     if text_of t = ''print''
     then st rs (tr @ [Accept s, Printf ''accept socket!! \<newline>'' []] @ replicate (Suc (length t)) (Read c 1) @
            [Write c ''hello, world'', Close c]) fs
     else st (rc 12 # rs) (tr @ [Accept s, Printf ''accept socket!! \<newline>'' []] @
            replicate (Suc (length t)) (Read c 1) @ [Close c]) fs) \<and> length buf' = BUFSIZ"
proof -
  let ?tr = "tr @ [Accept s, Printf ''accept socket!! \<newline>'' []]"
  obtain l where run: "read_line c 0 buf (st (map byte (t @ [e]) @ rc 12 # rs) ?tr fs) =
      (Val l, st (rc 12 # rs) (?tr @ replicate (Suc (length t)) (Read c 1)) fs)"
    and "length (lbuf l) = BUFSIZ" and ans: "cstring (lbuf l) = pret (text_of t)"
    using read_line_server [OF assms(1,2,4,3), of c "rc 12 # rs" ?tr fs] by blast
  then show ?thesis
    using run by (simp add: hello_iter_def pbind_Val [where m = "read_line c 0 buf"])
qed

theorem hello_server_serves_witness:
  "\<exists>buf'. hello_iter 3 zeros (st (rc 4 # map byte (''print'' @ [CHR 0x0A]) @ rc 12 # []) [] Map.empty) =
    (Val (Next buf'),
     if text_of ''print'' = ''print''
     then st [] ([] @ [Accept 3, Printf ''accept socket!! \<newline>'' []] @ replicate (Suc (length ''print'')) (Read 4 1) @
            [Write 4 ''hello, world'', Close 4]) Map.empty
     else st (rc 12 # []) ([] @ [Accept 3, Printf ''accept socket!! \<newline>'' []] @
            replicate (Suc (length ''print'')) (Read 4 1) @ [Close 4]) Map.empty) \<and> length buf' = BUFSIZ"
  by (rule hello_server_serves) (simp_all add: plain_def zeros_def BUFSIZ_def)

text \<open>
  A request line of \<open>BUFSIZ\<close> characters or more overruns the receive buffer of the line
  servers, which any client can send: the byte is stored at \<open>temp\<close> before the length is
  compared with the size of the array.
\<close>

theorem hello_server_overflow:
  assumes "list_all plain t" and "CHR 0x0D \<notin> set t" and "length t = BUFSIZ - 1"
    and "plain c" and "c \<noteq> CHR 0x0D" and "length buf = BUFSIZ"
  shows "fst (hello_iter s buf (st (rc d # map byte (t @ [c, e]) @ rs) tr fs)) = Abort (Fault OutOfBounds)"
  using read_line_overflow [OF assms, of d e rs "tr @ [Accept s, Printf ''accept socket!! \<newline>'' []]" fs]
  by (simp add: hello_iter_def pbind_def [of "read_line d 0 buf"])

theorem hello_server_overflow_witness:
  "fst (hello_iter 3 zeros (st (rc 4 # map byte (replicate (BUFSIZ - 1) (CHR ''a'') @ [CHR ''a'', CHR ''a'']) @ []) [] Map.empty)) =
    Abort (Fault OutOfBounds)"
  by (rule hello_server_overflow) (simp_all add: plain_def zeros_def list_all_iff)

section \<open>The echo pair\<close>

definition word_ok :: "string \<Rightarrow> bool" where
  "word_ok t \<longleftrightarrow> list_all plain t \<and> CHR 0x0D \<notin> set t \<and> length t < BUFSIZ"

lemma word_ok_text: "word_ok t \<Longrightarrow> text_of t = t"
  by (simp add: word_ok_def text_of_id)

lemma word_ok_NUL: "word_ok t \<Longrightarrow> NUL \<notin> set t"
  by (auto simp: word_ok_def plain_def list_all_iff)

lemma echo_server_answers:
  assumes "word_ok t" and "t \<noteq> ''quit''" and "length buf = BUFSIZ" and "0 \<le> k"
  shows "\<exists>buf'. echo_line_iter c buf (st (map byte (t @ [NUL]) @ rc k # rs) tr fs) =
    (Val (Next buf'), st rs (tr @ replicate (Suc (length t)) (Read c 1) @
       [Printf ''recevied: %s\<newline>'' [S t], Write c (t @ [NUL])]) fs) \<and> length buf' = BUFSIZ"
proof -
  obtain l where run: "read_line c 0 buf (st (map byte (t @ [NUL]) @ rc k # rs) tr fs) =
      (Val l, st (rc k # rs) (tr @ replicate (Suc (length t)) (Read c 1)) fs)"
    and "length (lbuf l) = BUFSIZ" and "cstring (lbuf l) = pret t"
    using read_line_server [of t NUL buf c "rc k # rs" tr fs] assms(1,3) word_ok_text [OF assms(1)]
    by (auto simp: word_ok_def)
  then show ?thesis
    using run assms(2,4) by (simp add: echo_line_iter_def pbind_Val [where m = "read_line c 0 buf"])
qed

lemma send_word_run:
  assumes "word_ok t" and "length buf = BUFSIZ" and "0 \<le> k"
  shows "send_word c buf (st (data t # rc k # rs) tr fs) =
    (Val (t @ NUL # drop (Suc (length t)) buf), st rs (tr @ [Scanf, Write c (t @ [NUL])]) fs)"
  using assms word_ok_NUL [OF assms(1)]
  by (simp add: send_word_def word_ok_def overlay_0)

lemma echo_client_prints:
  assumes "word_ok t" and "t \<noteq> ''quit''" and "0 \<le> k"
    and "length (obuf s) = BUFSIZ" and "length (ibuf s) = BUFSIZ"
    and "0 \<le> ilen s" and "ilen s + int (length t) < int BUFSIZ"
  shows "\<exists>s'. echo_client_iter c s (st (data t # rc k # map byte (t @ [NUL]) @ rs) tr fs) =
    (Val (Next s'), st rs (tr @ [Scanf, Write c (t @ [NUL])] @ replicate (Suc (length t)) (Read c 1) @
       [Printf ''echo : %s\<newline>'' [S t]]) fs) \<and>
    length (obuf s') = BUFSIZ \<and> length (ibuf s') = BUFSIZ \<and> ilen s' = ilen s + int (length t)"
proof -
  let ?tr = "tr @ [Scanf, Write c (t @ [NUL])]" and ?n = "nat (ilen s + int (length t))"
  obtain buf' where run: "read_line c (ilen s) (ibuf s) (st (map byte (t @ [NUL]) @ rs) ?tr fs) =
     (Val \<lparr>tmp = length t, len = ilen s + int (length t), lbuf = buf'[?n := NUL]\<rparr>,
      st rs (?tr @ replicate (Suc (length t)) (Read c 1)) fs)"
    and buf': "length buf' = BUFSIZ" "take (length t) buf' = t" "buf' ! length t = NUL"
    using read_line_gen [of t NUL "ibuf s" "ilen s" c rs ?tr fs] assms word_ok_text [OF assms(1)]
    by (auto simp: word_ok_def)
  have lt: "length t < BUFSIZ" using assms(1) by (simp add: word_ok_def)
  have len: "length (t @ NUL # drop (Suc (length t)) (obuf s)) = BUFSIZ"
    using lt assms(4) by simp
  have "buf'[?n := NUL] = t @ NUL # drop (Suc (length t)) (buf'[?n := NUL])"
  proof -
    have "take (length t) (buf'[?n := NUL]) = t"
      using buf'(2) assms(6) by simp
    moreover have "buf'[?n := NUL] ! length t = NUL"
      using buf'(1,3) lt by (cases "?n = length t") simp_all
    ultimately show ?thesis
      using id_take_nth_drop [of "length t" "buf'[?n := NUL]"] buf'(1) lt by simp
  qed
  then have "cstring (buf'[?n := NUL]) = pret t"
    using word_ok_NUL [OF assms(1)] by (metis cstring_append_NUL)
  then show ?thesis
    using run assms(2) buf'(1) len word_ok_NUL [OF assms(1)]
    by (simp add: echo_client_iter_def c_str_append_NUL
        pbind_Val [where m = "send_word c (obuf s)", OF send_word_run [OF assms(1,4,3)]]
        pbind_Val [where m = "read_line c (ilen s) (ibuf s)"] del: length_append length_drop list.size)
qed



text \<open>
  The echo client wears out: its counter is never set back, so once the words echoed since
  the start add up to \<open>BUFSIZ\<close> characters, the terminator of the next answer is stored behind
  the receive buffer.
\<close>

theorem echo_client_wears_out:
  assumes "word_ok t" and "t \<noteq> ''quit''" and "0 \<le> k"
    and "length (obuf s) = BUFSIZ" and "length (ibuf s) = BUFSIZ"
    and "0 \<le> ilen s" and "ilen s \<le> int BUFSIZ" and "int BUFSIZ \<le> ilen s + int (length t)"
  shows "fst (echo_client_iter c s (st (data t # rc k # map byte (t @ [NUL]) @ rs) tr fs)) =
    Abort (Fault OutOfBounds)"
proof -
  let ?tr = "tr @ [Scanf, Write c (t @ [NUL])]" and ?m = "nat (int BUFSIZ - ilen s)"
  define t1 t2 where "t1 = take ?m t" and "t2 = drop ?m t"
  have t: "t = t1 @ t2" by (simp add: t1_def t2_def)
  have m: "?m \<le> length t" "length t1 = ?m" "?m < BUFSIZ"
    using assms by (auto simp: t1_def word_ok_def)
  have ok: "list_all plain t1" "text_of t1 = t1"
    using assms(1) by (auto simp: word_ok_def t text_of_id)
  obtain x u where x: "t2 @ [NUL] = x # u" by (cases t2) auto
  have "x \<noteq> CHR 0x0D"
    using x assms(1) t by (cases t2) (auto simp: word_ok_def)
  obtain buf where run: "loop (read_line_iter c) \<lparr>tmp = 0, len = ilen s, lbuf = ibuf s\<rparr>
      (st (map byte t1 @ map byte (x # u) @ rs) ?tr fs) =
     loop (read_line_iter c) \<lparr>tmp = ?m, len = int BUFSIZ, lbuf = buf\<rparr>
       (st (map byte (x # u) @ rs) (?tr @ replicate ?m (Read c 1)) fs)"
    and buf: "length buf = BUFSIZ"
    using read_chars [OF ok(1), of "\<lparr>tmp = 0, len = ilen s, lbuf = ibuf s\<rparr>" c "map byte (x # u) @ rs" ?tr fs]
      assms m ok by auto
  have "read_line_iter c \<lparr>tmp = ?m, len = int BUFSIZ, lbuf = buf\<rparr>
       (st (byte x # map byte u @ rs) (?tr @ replicate ?m (Read c 1)) fs) =
     (Val (Stop \<lparr>tmp = ?m, len = int BUFSIZ, lbuf = buf[?m := x]\<rparr>),
      st (map byte u @ rs) (?tr @ replicate ?m (Read c 1) @ [Read c 1]) fs)"
    using buf m \<open>x \<noteq> CHR 0x0D\<close> by (simp add: read_line_iter_byte)
  note stop = loop_Stop [where body = "read_line_iter c", OF this]
  have "map byte (t @ [NUL]) @ rs = map byte t1 @ map byte (x # u) @ rs"
    using x by (simp add: t)
  then have "read_line c (ilen s) (ibuf s) (st (map byte (t @ [NUL]) @ rs) ?tr fs) =
      (Abort (Fault OutOfBounds), st (map byte u @ rs) (?tr @ replicate ?m (Read c 1) @ [Read c 1]) fs)"
    using run stop buf by (simp only:) (simp add: read_line_def pbind_def store_def)
  then show ?thesis
    using assms(2) word_ok_NUL [OF assms(1)]
    by (simp add: echo_client_iter_def c_str_append_NUL pbind_def [of "read_line c (ilen s) (ibuf s)"]
        pbind_Val [where m = "send_word c (obuf s)", OF send_word_run [OF assms(1,4,3)]]
        del: map_append)
qed

theorem echo_client_wears_out_witness:
  "fst (echo_client_iter 3 \<lparr>obuf = zeros, ibuf = zeros, ilen = int BUFSIZ - 1\<rparr>
      (st (data ''hi'' # rc 3 # map byte (''hi'' @ [NUL]) @ []) [] Map.empty)) = Abort (Fault OutOfBounds)"
  by (rule echo_client_wears_out) (simp_all add: word_ok_def plain_def zeros_def BUFSIZ_def)

end
