(* ===== verification/EchoTcp.thy ===== *)
theory EchoTcp
  imports Sockets
begin

text \<open>
  The TCP echo programs that read blocks: the server with a thread per connection
  (thu/echo_thread/echo_server.c, and fri/sock_opt/echo_server.c, which also sets SO_REUSEADDR),
  the servers with a process per connection (wen/fork/echo_server_fork.c and
  wen/fork/echo_server_fok_sig.c), and the client of all of them (thu/echo_thread,
  fri/sock_opt, and the variant of thu/select).
\<close>

section \<open>The service of one connection\<close>

text \<open>\<open>func_thread\<close> of the thread servers, with the uninitialised buffer as an argument.\<close>

definition func_thread_iter :: "fd \<Rightarrow> string \<Rightarrow> (string, unit) iter prog" where
  "func_thread_iter c_socket rcvBuffer =
     pbind (rread c_socket BUFSIZ) (\<lambda>(n, d).
     if n = 0 then pret (Stop ()) else
     pbind (deliver rcvBuffer 0 d) (\<lambda>rcvBuffer.
     pbind (store rcvBuffer n NUL) (\<lambda>rcvBuffer.
     pbind (cstring rcvBuffer) (\<lambda>text.
     pseq (printf ''%s'' [S text])
    (pseq (sys_do (Write c_socket (take (nat n) rcvBuffer)))
     (pret (Next rcvBuffer)))))))"

definition func_thread :: "fd \<Rightarrow> string \<Rightarrow> unit prog" where
  "func_thread c_socket junk =
     pseq (printf ''c_socket : %d\<newline>'' [I c_socket])
    (pseq (loop (func_thread_iter c_socket) junk)
     (emit (Close c_socket)))"

text \<open>fri/sock_opt/echo_server.c has the same function.\<close>

definition sock_opt_thread :: "fd \<Rightarrow> string \<Rightarrow> unit prog" where
  "sock_opt_thread = func_thread"

text \<open>
  \<open>do_echo\<close> of the forking servers: a failed read makes the following \<open>write\<close> take
  \<open>(size_t)-1\<close> bytes from the buffer.
\<close>

definition do_echo_iter :: "(int \<Rightarrow> call) \<Rightarrow> fd \<Rightarrow> string \<Rightarrow> (string, unit) iter prog" where
  "do_echo_iter msg connSock rcvBuffer =
     pbind (rread connSock BUFSIZ) (\<lambda>(n, d).
     if n = 0 then pret (Stop ()) else
     pbind (deliver rcvBuffer 0 d) (\<lambda>rcvBuffer.
     pseq (emit (msg n))
     (if n < 0 then pfault OutOfBounds else
      pseq (sys_do (Write connSock (take (nat n) rcvBuffer)))
      (pret (Next rcvBuffer)))))"

definition do_echo_fork :: "fd \<Rightarrow> string \<Rightarrow> unit prog" where
  "do_echo_fork connSock junk =
     pseq (loop (do_echo_iter (\<lambda>_. Printf ''child\<newline>'' []) connSock) junk) (pexit 0)"

definition do_echo_sig :: "fd \<Rightarrow> string \<Rightarrow> unit prog" where
  "do_echo_sig connSock junk =
     pseq (loop (do_echo_iter (\<lambda>n. Printf ''child(%d)\<newline>'' [I n]) connSock) junk) (pexit 1)"

section \<open>The thread servers\<close>

definition thread_server_iter :: "fd \<Rightarrow> unit \<Rightarrow> (unit, unit) iter prog" where
  "thread_server_iter s_socket _ =
     pbind (sys_ret (Accept s_socket)) (\<lambda>c_socket.
     pseq (printf ''c_socket : %d\<newline>'' [I c_socket])
    (pbind (sys (ThreadCreate c_socket) (\<lambda>r. (r_ret r, r_errno r))) (\<lambda>(sts, thread_id).
     if sts \<noteq> 0 then pseq (perror ''thread create error\<newline>'') (pexit 1) else
     pseq (printf ''thread %x is created \<newline>'' [I thread_id])
    (pseq (sys_do (Sleep 3))
     (pret (Next ()))))))"

definition thread_server_main :: "unit prog" where
  "thread_server_main =
     pbind (listen_on 9000 ''listen Fail\<newline>'') (\<lambda>s_socket.
     pseq (loop (thread_server_iter s_socket) ()) (emit (Close s_socket)))"

definition sock_opt_server_main :: "unit prog" where
  "sock_opt_server_main =
     pbind (sys_ret (Socket 2 1 0)) (\<lambda>s_socket.
     pseq (sys_do (Sockopt s_socket 1 2))
    (pseq (bind_listen s_socket 9000 ''listen Fail\<newline>'')
    (pseq (loop (thread_server_iter s_socket) ()) (emit (Close s_socket)))))"

section \<open>The forking servers\<close>

text \<open>
  SIGCHLD interrupts the blocking calls of the parent: \<open>accept\<close> then fails with EINTR (the
  handlers are installed without SA_RESTART) after the handler has run, \<open>sleep\<close> returns the
  time left. A signal at another moment has the same effect at the next of these calls. A wait
  status is the word \<open>wait\<close> stores.
\<close>

definition EINTR :: int where "EINTR = 4"

definition wait_for :: "(int \<times> int) prog" where
  "wait_for = sys Wait (\<lambda>r. (r_ret r, r_errno r))"

definition WIFEXITED :: "int \<Rightarrow> bool" where "WIFEXITED s \<longleftrightarrow> s mod 128 = 0"
definition WEXITSTATUS :: "int \<Rightarrow> int" where "WEXITSTATUS s = s div 256 mod 256"
definition WIFSIGNALED :: "int \<Rightarrow> bool" where "WIFSIGNALED s \<longleftrightarrow> s mod 128 \<noteq> 0 \<and> s mod 128 \<noteq> 127"
definition WTERMSIG :: "int \<Rightarrow> int" where "WTERMSIG s = s mod 128"
definition WIFSTOPPED :: "int \<Rightarrow> bool" where "WIFSTOPPED s \<longleftrightarrow> s mod 256 = 127"
definition WSTOPSIG :: "int \<Rightarrow> int" where "WSTOPSIG s = s div 256 mod 256"

definition print_status :: "int \<Rightarrow> unit prog" where
  "print_status stat =
     (if WIFEXITED stat then printf ''normal termination, exit status [%d]\<newline>'' [I (WEXITSTATUS stat)]
      else if WIFSIGNALED stat then printf ''abnormal termination, signal number [%d]\<newline>'' [I (WTERMSIG stat)]
      else if WIFSTOPPED stat then printf ''child stopped, signal number [%d]\<newline>'' [I (WSTOPSIG stat)]
      else pret ())"

text \<open>\<open>sig_handler\<close> of echo_server_fork.c; SIGCHLD is 17.\<close>

definition sig_handler :: "int \<Rightarrow> unit prog" where
  "sig_handler signo =
     pbind wait_for (\<lambda>(_, stat).
     pseq (printf ''signal ID [%d]\<newline>'' [I signo])
    (pseq (print_status stat)
     (pexit 1)))"

text \<open>\<open>sigHandler\<close> of echo_server_fok_sig.c\<close>

definition sigHandler :: "unit prog" where
  "sigHandler = pbind wait_for (\<lambda>(pid, _). printf ''pid[%d] terminate\<newline>'' [I pid])"

definition accept_sig :: "fd \<Rightarrow> unit prog \<Rightarrow> int prog" where
  "accept_sig l handler =
     pbind (sys (Accept l) (\<lambda>r. (r_ret r, r_errno r))) (\<lambda>(c, e).
     if c < 0 \<and> e = EINTR then pseq handler (pret c) else pret c)"

definition sleep_sig :: "nat \<Rightarrow> unit prog \<Rightarrow> unit prog" where
  "sleep_sig n handler =
     pbind (sys_ret (Sleep n)) (\<lambda>left. if left > 0 then handler else pret ())"

text \<open>One round of the parent or, where \<open>fork\<close> returns 0, the life of the child.\<close>

definition fork_iter :: "string \<Rightarrow> fd \<Rightarrow> unit \<Rightarrow> (unit, unit) iter prog" where
  "fork_iter junk listenSock _ =
     pbind (accept_sig listenSock (sig_handler 17)) (\<lambda>connSock.
     pbind (sys_ret Fork) (\<lambda>pid.
     if pid < 0 then pseq (printf ''echo server can not fork( )\<newline>'' []) (pexit (-1))
     else if pid > 0 then
       pseq (emit (Close connSock)) (pseq (sleep_sig 10 (sig_handler 17)) (pret (Next ())))
     else
       pseq (emit (Close listenSock)) (pseq (do_echo_fork connSock junk) (pexit 100))))"

definition fork_server_main :: "string \<Rightarrow> unit prog" where
  "fork_server_main junk =
     pbind (listen_on 80900 ''listen Fail\<newline>'') (\<lambda>listenSock. loop (fork_iter junk listenSock) ())"

definition fok_sig_iter :: "string \<Rightarrow> fd \<Rightarrow> unit \<Rightarrow> (unit, unit) iter prog" where
  "fok_sig_iter junk listenSock _ =
     pbind (accept_sig listenSock sigHandler) (\<lambda>connSock.
     pseq (if connSock < 0 then printf ''accept error\<newline>'' [] else pret ())
    (pbind (sys_ret Fork) (\<lambda>pid.
     if pid < 0 then pseq (printf ''echo server can not fork( )\<newline>'' []) (pexit (-1))
     else if pid > 0 then pseq (emit (Close connSock)) (pret (Next ()))
     else
       pseq (printf ''child creat\<newline>'' [])
      (pseq (emit (Close listenSock))
      (pseq (do_echo_sig connSock junk) (pret (Next ())))))))"

text \<open>\<open>installed\<close> is the result of \<open>sigaction\<close>.\<close>

definition fok_sig_server_main :: "int \<Rightarrow> string \<Rightarrow> unit prog" where
  "fok_sig_server_main installed junk =
     (if installed \<noteq> 0 then pseq (printf ''signal error\<newline>'' []) (pexit 1)
      else pbind (listen_on 8090 ''listen Fail\<newline>'') (\<lambda>listenSock. loop (fok_sig_iter junk listenSock) ()))"

section \<open>The clients\<close>

text \<open>The inner loop, with \<open>n_left\<close>, \<open>n_recv\<close> and the receive buffer.\<close>

definition recv_echo_iter :: "fd \<Rightarrow> int \<times> nat \<times> string \<Rightarrow> (int \<times> nat \<times> string, nat \<times> string) iter prog" where
  "recv_echo_iter c_socket = (\<lambda>(n_left, n_recv, rcvBuffer).
     if n_left > 0 then
       pbind (rread c_socket (nat n_left)) (\<lambda>(n, d).
       if n < 0 then pexit (-1) else
       pbind (deliver rcvBuffer n_recv d) (\<lambda>rcvBuffer.
       pret (Next (n_left - n, n_recv + nat n, rcvBuffer))))
     else pret (Stop (n_recv, rcvBuffer)))"

definition print_echo :: "fd \<Rightarrow> int \<Rightarrow> string \<Rightarrow> string prog" where
  "print_echo c_socket n rcvBuffer =
     pbind (loop (recv_echo_iter c_socket) (n, 0, rcvBuffer)) (\<lambda>(n_recv, rcvBuffer).
     pbind (store rcvBuffer (int n_recv) NUL) (\<lambda>rcvBuffer.
     pbind (cstring rcvBuffer) (\<lambda>text.
     pseq (printf ''echoed Data : %s'' [S text])
     (pret rcvBuffer))))"

record tcp_client =
  sndBuffer :: string
  rcvBuffer :: string

definition tcp_client_iter :: "fd \<Rightarrow> tcp_client \<Rightarrow> (tcp_client, unit) iter prog" where
  "tcp_client_iter c_socket s =
     pbind (rread 0 BUFSIZ) (\<lambda>(n, d).
     if n \<le> 0 then pret (Next s) else
     pbind (deliver (sndBuffer s) 0 d) (\<lambda>buf.
     pbind (store buf n NUL) (\<lambda>buf.
     pbind (cstring buf) (\<lambda>text.
     let s = s\<lparr>sndBuffer := buf\<rparr> in
     if text = ''quit\<newline>'' then pret (Stop ()) else
     pseq (printf ''original  Data : %s'' [S text])
    (pbind (sys_ret (Write c_socket text)) (\<lambda>n.
     if n < 0 then pexit (-1) else
     pbind (print_echo c_socket n (rcvBuffer s)) (\<lambda>buf.
     pret (Next (s\<lparr>rcvBuffer := buf\<rparr>)))))))))"

definition tcp_client_main :: "tcp_client \<Rightarrow> unit prog" where
  "tcp_client_main junk =
     pbind (connect_to ''127.0.0.1'' 9000) (\<lambda>c_socket.
     pseq (loop (tcp_client_iter c_socket) junk) (emit (Close c_socket)))"

definition sock_opt_client_main :: "tcp_client \<Rightarrow> unit prog" where
  "sock_opt_client_main = tcp_client_main"

text \<open>
  thu/select/echo_client.c shows the characters and sends all but the last; for an empty text
  \<open>strlen(sndBuffer) - 1\<close> wraps to the largest \<open>size_t\<close>.
\<close>

definition show_char :: "char \<Rightarrow> unit \<Rightarrow> unit prog" where
  "show_char c _ = pseq (printf ''%c '' [C c]) (if c = CHR 0x0A then printf ''n\<newline>'' [] else pret ())"

definition select_client_iter :: "fd \<Rightarrow> tcp_client \<Rightarrow> (tcp_client, unit) iter prog" where
  "select_client_iter c_socket s =
     pbind (rread 0 BUFSIZ) (\<lambda>(n, d).
     if n \<le> 0 then pret (Next s) else
     pbind (deliver (sndBuffer s) 0 d) (\<lambda>buf.
     pbind (store buf n NUL) (\<lambda>buf.
     pbind (cstring buf) (\<lambda>text.
     let s = s\<lparr>sndBuffer := buf\<rparr> in
     if text = ''quit\<newline>'' then pret (Stop ()) else
     pseq (printf ''original  Data : %s'' [S text])
    (pseq (pfor text show_char ())
    (pbind (if text = [] then pfault OutOfBounds else sys_ret (Write c_socket (butlast text))) (\<lambda>n.
     if n < 0 then pexit (-1) else
     pbind (print_echo c_socket n (rcvBuffer s)) (\<lambda>buf.
     pret (Next (s\<lparr>rcvBuffer := buf\<rparr>))))))))))"

definition select_client_main :: "tcp_client \<Rightarrow> unit prog" where
  "select_client_main junk =
     pbind (connect_to ''127.0.0.1'' 8091) (\<lambda>c_socket.
     pseq (loop (select_client_iter c_socket) junk) (emit (Close c_socket)))"

section \<open>What a service promises\<close>

text \<open>
  The service loops of the three servers differ in what they print. The contract they share: a
  piece of at most \<open>limit\<close> bytes is written back, the end of the stream ends the loop. The
  replies to the calls of one connection are \<open>served\<close>: a piece, the result of the write.
\<close>

definition served :: "string list \<Rightarrow> reply list" where
  "served cs = concat (map (\<lambda>c. [data c, rc (int (length c))]) cs)"

lemma served_simps [simp]: "served [] = []" "served (c # cs) = data c # rc (int (length c)) # served cs"
  by (simp_all add: served_def)

locale echo_service =
  fixes body :: "string \<Rightarrow> (string, unit) iter prog"
    and fits :: "string \<Rightarrow> bool"
    and conn :: fd
  assumes piece: "fits c \<Longrightarrow> length buf = BUFSIZ \<Longrightarrow>
      \<exists>buf' tr'. body buf (st (data c # rc k # rs) tr fs) = (Val (Next buf'), st rs (tr @ tr') fs) \<and>
        length buf' = BUFSIZ \<and> wrote conn tr' = c"
    and eof: "body buf (st (data [] # rs) tr fs) = (Val (Stop ()), st rs (tr @ [Read conn BUFSIZ]) fs)"
begin

lemma echoes_all:
  "list_all fits cs \<Longrightarrow> length buf = BUFSIZ \<Longrightarrow>
   \<exists>tr'. loop body buf (st (served cs @ data [] # rs) tr fs) = (Val (), st rs (tr @ tr') fs) \<and>
     wrote conn tr' = concat cs"
proof (induction cs arbitrary: buf tr)
  case Nil
  then show ?case
    by (intro exI [of _ "[Read conn BUFSIZ]"]) (simp add: loop_Stop [where body = body, OF eof])
next
  case (Cons c cs)
  obtain buf' tr1 where one: "body buf (st (data c # rc (int (length c)) # served cs @ data [] # rs) tr fs) =
      (Val (Next buf'), st (served cs @ data [] # rs) (tr @ tr1) fs)"
    and "length buf' = BUFSIZ" and w: "wrote conn tr1 = c"
    using piece [of c buf "int (length c)" "served cs @ data [] # rs" tr fs] Cons.prems by auto
  then obtain tr2 where "loop body buf' (st (served cs @ data [] # rs) (tr @ tr1) fs) = (Val (), st rs ((tr @ tr1) @ tr2) fs)"
    and "wrote conn tr2 = concat cs"
    using Cons.IH [of buf' "tr @ tr1"] Cons.prems by auto
  then show ?case
    using w by (intro exI [of _ "tr1 @ tr2"]) (simp add: loop_Next [where body = body, OF one])
qed

end

text \<open>The thread servers need room for the terminator and a piece without NUL in the print.\<close>

definition thread_piece :: "string \<Rightarrow> bool" where
  "thread_piece c \<longleftrightarrow> c \<noteq> [] \<and> length c < BUFSIZ"

definition fork_piece :: "string \<Rightarrow> bool" where
  "fork_piece c \<longleftrightarrow> c \<noteq> [] \<and> length c \<le> BUFSIZ"

interpretation thread: echo_service "func_thread_iter d" thread_piece d for d
proof unfold_locales
  fix c buf :: string and k rs tr fs
  assume "thread_piece c" and buf: "length buf = BUFSIZ"
  then have c: "c \<noteq> []" "length c < BUFSIZ"
    by (simp_all add: thread_piece_def)
  then show "\<exists>buf' tr'. func_thread_iter d buf (st (data c # rc k # rs) tr fs) =
      (Val (Next buf'), st rs (tr @ tr') fs) \<and> length buf' = BUFSIZ \<and> wrote d tr' = c"
    using buf by (simp add: func_thread_iter_def pbind_cstring_update take_overlay_0)
qed (simp add: func_thread_iter_def)

lemma do_echo_piece:
  assumes "fork_piece c" and "length buf = BUFSIZ" and "\<And>n. wrote d [msg n] = []"
  shows "\<exists>buf' tr'. do_echo_iter msg d buf (st (data c # rc k # rs) tr fs) =
      (Val (Next buf'), st rs (tr @ tr') fs) \<and> length buf' = BUFSIZ \<and> wrote d tr' = c"
  using assms(1,2) assms(3) [of "int (length c)", simplified]
  by (simp add: do_echo_iter_def fork_piece_def take_overlay_0)

interpretation fork: echo_service "do_echo_iter (\<lambda>_. Printf ''child\<newline>'' []) d" fork_piece d for d
  by unfold_locales (simp add: do_echo_piece, simp add: do_echo_iter_def)

interpretation fok_sig: echo_service "do_echo_iter (\<lambda>n. Printf ''child(%d)\<newline>'' [I n]) d" fork_piece d for d
  by unfold_locales (simp add: do_echo_piece, simp add: do_echo_iter_def)

text \<open>A piece that fills the buffer, or a failed read, makes the thread store outside it.\<close>

lemma func_thread_full:
  "length d = BUFSIZ \<Longrightarrow> length buf = BUFSIZ \<Longrightarrow>
   loop (func_thread_iter c) buf (st (data d # rs) tr fs) = (Abort (Fault OutOfBounds), st rs (tr @ [Read c BUFSIZ]) fs)"
  by (rule loop_Abort) (auto simp: func_thread_iter_def store_bad BUFSIZ_def)

lemma func_thread_failed:
  "loop (func_thread_iter c) buf (st (failed e # rs) tr fs) = (Abort (Fault OutOfBounds), st rs (tr @ [Read c BUFSIZ]) fs)"
  by (rule loop_Abort) (simp add: func_thread_iter_def store_bad)

section \<open>End to end\<close>

lemma recv_echo_run:
  "list_all (\<lambda>c. c \<noteq> []) cs \<Longrightarrow> n + length (concat cs) \<le> length buf \<Longrightarrow>
   \<exists>buf' tr'. loop (recv_echo_iter d) (int (length (concat cs)), n, buf) (st (map data cs @ rs) tr fs) =
     (Val (n + length (concat cs), buf'), st rs (tr @ tr') fs) \<and> length buf' = length buf \<and>
     take (n + length (concat cs)) buf' = take n buf @ concat cs \<and> wrote d tr' = []"
proof (induction cs arbitrary: n buf tr)
  case Nil
  have "recv_echo_iter d (0, n, buf) (st rs tr fs) = (Val (Stop (n, buf)), st rs tr fs)"
    by (simp add: recv_echo_iter_def)
  then show ?case
    by (intro exI [of _ buf] exI [of _ "[]"]) (simp add: loop_Stop [where body = "recv_echo_iter d"])
next
  case (Cons c cs)
  let ?l = "length (concat cs)" and ?rd = "Read d (length c + length (concat cs))"
  have c: "0 < length c" using Cons.prems by simp
  have "recv_echo_iter d (int (length c + ?l), n, buf) (st (data c # map data cs @ rs) tr fs) =
      (Val (Next (int ?l, n + length c, overlay buf n c)), st (map data cs @ rs) (tr @ [?rd]) fs)"
    using Cons.prems c by (auto simp: recv_echo_iter_def intro: add_pos_nonneg)
  note one = loop_Next [where body = "recv_echo_iter d", OF this]
  have "length (overlay buf n c) = length buf" "take (n + length c) (overlay buf n c) = take n buf @ c"
    using Cons.prems by (simp_all add: take_overlay)
  with Cons.IH [of "n + length c" "overlay buf n c" "tr @ [?rd]"] Cons.prems
  obtain buf' tr' where "loop (recv_echo_iter d) (int ?l, n + length c, overlay buf n c) (st (map data cs @ rs) (tr @ [?rd]) fs) =
     (Val (n + length c + ?l, buf'), st rs ((tr @ [?rd]) @ tr') fs)" "length buf' = length buf"
     "take (n + length c + ?l) buf' = (take n buf @ c) @ concat cs" "wrote d tr' = []"
    by (auto simp: add.assoc)
  with one show ?case
    by (intro exI [of _ buf'] exI [of _ "?rd # tr'"]) (simp add: add.assoc)
qed

lemma print_echo_run:
  assumes "list_all (\<lambda>c. c \<noteq> []) cs" and "NUL \<notin> set (concat cs)" and "length (concat cs) < length buf"
  shows "\<exists>buf' tr'. print_echo d (int (length (concat cs))) buf (st (map data cs @ rs) tr fs) =
     (Val buf', st rs (tr @ tr' @ [Printf ''echoed Data : %s'' [S (concat cs)]]) fs) \<and>
     length buf' = length buf \<and> wrote d tr' = []"
proof -
  obtain buf' tr' where run: "loop (recv_echo_iter d) (int (length (concat cs)), 0, buf) (st (map data cs @ rs) tr fs) =
     (Val (length (concat cs), buf'), st rs (tr @ tr') fs)"
    and buf': "length buf' = length buf" "take (length (concat cs)) buf' = concat cs" "wrote d tr' = []"
    using recv_echo_run [OF assms(1), of 0 buf d rs tr fs] assms(3) by auto
  have "c_str (buf'[length (concat cs) := NUL]) = concat cs"
    using c_str_update [of "length (concat cs)" buf'] assms(2,3) buf' by simp
  with buf' assms(3) show ?thesis
    by (simp add: print_echo_def pbind_Val [where m = "loop (recv_echo_iter d) (int (length (concat cs)), 0, buf)", OF run]
        pbind_cstring_update del: length_concat)
qed

definition typed_line :: "string \<Rightarrow> bool" where
  "typed_line t \<longleftrightarrow> t \<noteq> [] \<and> length t < BUFSIZ \<and> NUL \<notin> set t \<and> t \<noteq> ''quit\<newline>''"

lemma tcp_client_prints:
  assumes t: "typed_line t" and bufs: "length (sndBuffer s) = BUFSIZ" "length (rcvBuffer s) = BUFSIZ"
    and cs: "list_all (\<lambda>c. c \<noteq> []) cs" "concat cs = t"
  shows "\<exists>s' tr'. tcp_client_iter d s (st (data t # rc (int (length t)) # map data cs @ rs) tr fs) =
     (Val (Next s'), st rs (tr @ tr' @ [Printf ''echoed Data : %s'' [S t]]) fs) \<and> wrote d tr' = t"
proof -
  let ?tr = "tr @ [Read 0 BUFSIZ, Printf ''original  Data : %s'' [S t], Write d t]"
  obtain buf' tr' where run: "print_echo d (int (length t)) (rcvBuffer s) (st (map data cs @ rs) ?tr fs) =
     (Val buf', st rs (?tr @ tr' @ [Printf ''echoed Data : %s'' [S t]]) fs)" and w: "wrote d tr' = []"
    using print_echo_run [OF cs(1), of "rcvBuffer s" d rs ?tr fs] t bufs cs(2) by (auto simp: typed_line_def)
  have "c_str ((overlay (sndBuffer s) 0 t)[length t := NUL]) = t"
    using t bufs by (intro c_str_overlay_update) (simp_all add: typed_line_def)
  with t bufs w show ?thesis
    by (simp add: tcp_client_iter_def typed_line_def Let_def pbind_cstring_update
        pbind_Val [where m = "print_echo d (int (length t)) (rcvBuffer s)", OF run])
qed

text \<open>
  C13. The echo over TCP is end to end correct against the stream semantics of the network: a
  line typed at the client is sent whole; however the stream is cut on the way to the server,
  the server's thread writes back exactly those bytes; however they are cut on the way back,
  the client prints exactly the line, and waits for the next.
\<close>

theorem thread_echo_end_to_end:
  assumes "typed_line t" and "length (sndBuffer s) = BUFSIZ" and "length (rcvBuffer s) = BUFSIZ"
    and "length buf = BUFSIZ" and "list_all thread_piece ds" and "concat ds = t"
    and "list_all (\<lambda>c. c \<noteq> []) cs" and "concat cs = t"
  shows "\<exists>trs trc s'.
    loop (func_thread_iter d) buf (st (served ds @ data [] # []) [] fs') = (Val (), st [] trs fs') \<and>
    wrote d trs = t \<and>
    tcp_client_iter c s (st (data t # rc (int (length t)) # map data cs @ rs) [] fs) =
      (Val (Next s'), st rs (trc @ [Printf ''echoed Data : %s'' [S t]]) fs) \<and> wrote c trc = t"
proof -
  obtain trs where "loop (func_thread_iter d) buf (st (served ds @ data [] # []) [] fs') = (Val (), st [] ([] @ trs) fs')"
    and "wrote d trs = concat ds"
    using thread.echoes_all [OF assms(5,4), of d "[]" "[]" fs'] by blast
  moreover obtain s' trc where "tcp_client_iter c s (st (data t # rc (int (length t)) # map data cs @ rs) [] fs) =
      (Val (Next s'), st rs ([] @ trc @ [Printf ''echoed Data : %s'' [S t]]) fs)" "wrote c trc = t"
    using tcp_client_prints [OF assms(1-3,7,8), of c rs "[]" fs] by blast
  ultimately show ?thesis
    using assms(6) by auto
qed

definition fresh :: string where "fresh = replicate BUFSIZ NUL"

theorem thread_echo_end_to_end_witness:
  "\<exists>trs trc s'.
    loop (func_thread_iter 5) fresh (st (served [''hel'', ''lo\<newline>''] @ data [] # []) [] Map.empty) = (Val (), st [] trs Map.empty) \<and>
    wrote 5 trs = ''hello\<newline>'' \<and>
    tcp_client_iter 3 \<lparr>sndBuffer = fresh, rcvBuffer = fresh\<rparr>
      (st (data ''hello\<newline>'' # rc (int (length ''hello\<newline>'')) # map data [''h'', ''ello\<newline>''] @ []) [] Map.empty) =
      (Val (Next s'), st [] (trc @ [Printf ''echoed Data : %s'' [S ''hello\<newline>'']]) Map.empty) \<and>
    wrote 3 trc = ''hello\<newline>''"
  by (rule thread_echo_end_to_end) (simp_all add: typed_line_def fresh_def BUFSIZ_def thread_piece_def)

text \<open>
  When the server ends the connection in the middle of an echo, the client does not notice:
  a read of zero bytes is counted as progress of nothing, and the loop reads on for ever.
\<close>

theorem tcp_client_stuck_on_eof:
  assumes "0 < left" and "n \<le> length buf"
  shows "\<exists>tr'. loop (recv_echo_iter d) (left, n, buf) (st (replicate k (data [])) tr fs) =
    (Abort Blocked, st [] tr' fs)"
proof (induction k arbitrary: tr)
  case 0
  have "recv_echo_iter d (left, n, buf) (st [] tr fs) = (Abort Blocked, st [] (tr @ [Read d (nat left)]) fs)"
    using assms by (simp add: recv_echo_iter_def)
  then show ?case
    by (simp add: loop_Abort [where body = "recv_echo_iter d"])
next
  case (Suc k)
  have "recv_echo_iter d (left, n, buf) (st (data [] # replicate k (data [])) tr fs) =
      (Val (Next (left, n, buf)), st (replicate k (data [])) (tr @ [Read d (nat left)]) fs)"
    using assms by (simp add: recv_echo_iter_def deliver_def)
  with Suc show ?case
    by (simp add: loop_Next [where body = "recv_echo_iter d"])
qed

theorem tcp_client_stuck_on_eof_witness:
  "\<exists>tr'. loop (recv_echo_iter 3) (5, 0, fresh) (st (replicate 100 (data [])) [] Map.empty) =
    (Abort Blocked, st [] tr' Map.empty)"
  by (rule tcp_client_stuck_on_eof) simp_all

section \<open>The forking servers lose their parent\<close>

text \<open>
  The first child to end takes the server of echo_server_fork.c with it: the SIGCHLD handler,
  which the parent runs when the child has ended, calls \<open>exit(1)\<close>, so after one connection the
  server no longer accepts, whatever still arrives.
\<close>

theorem fork_server_exits:
  assumes "0 \<le> c" and "0 < pid" and "0 < left"
  shows "fst (loop (fork_iter junk l) () (st (rc c # rc pid # rc left # rc pid # rs) tr fs)) =
    Abort (Exit 1)"
proof -
  have "fork_iter junk l () (st (rc c # rc pid # rc left # rc pid # rs) tr fs) =
     (Abort (Exit 1), st rs (tr @ [Accept l, Fork, Close c, Sleep 10, Wait, Printf ''signal ID [%d]\<newline>'' [I 17],
        Printf ''normal termination, exit status [%d]\<newline>'' [I 0]]) fs)"
    using assms
    by (simp add: fork_iter_def accept_sig_def sleep_sig_def sig_handler_def wait_for_def print_status_def
        WIFEXITED_def WEXITSTATUS_def run_simps)
  then show ?thesis
    by (simp add: loop_Abort [where body = "fork_iter junk l"])
qed

theorem fork_server_exits_witness:
  "fst (loop (fork_iter [] 3) () (st (rc 4 # rc 100 # rc 7 # rc 100 # []) [] Map.empty)) =
    Abort (Exit 1)"
  by (rule fork_server_exits) simp_all

text \<open>
  The parent of echo_server_fok_sig.c survives its children, but when one of them ends while
  the parent waits in \<open>accept\<close>, the interrupted call is taken for a connection: the parent
  forks a child for descriptor -1, closes -1 and goes on; the child's first read of it fails
  and it writes from outside its buffer.
\<close>

theorem fok_sig_interrupted_accept:
  assumes "0 < pid"
  shows "fok_sig_iter junk l () (st (failed EINTR # rc dead # rc pid # rs) tr fs) =
      (Val (Next ()), st rs (tr @ [Accept l, Wait, Printf ''pid[%d] terminate\<newline>'' [I dead],
         Printf ''accept error\<newline>'' [], Fork, Close (-1)]) fs) \<and>
    fok_sig_iter junk l () (st (failed EINTR # rc dead # rc 0 # failed e # rs) tr fs) =
      (Abort (Fault OutOfBounds), st rs (tr @ [Accept l, Wait, Printf ''pid[%d] terminate\<newline>'' [I dead],
         Printf ''accept error\<newline>'' [], Fork, Printf ''child creat\<newline>'' [], Close l, Read (-1) BUFSIZ,
         Printf ''child(%d)\<newline>'' [I (-1)]]) fs)"
proof -
  have "do_echo_iter (\<lambda>n. Printf ''child(%d)\<newline>'' [I n]) (-1) junk (st (failed e # rs) tr' fs) =
    (Abort (Fault OutOfBounds), st rs (tr' @ [Read (-1) BUFSIZ, Printf ''child(%d)\<newline>'' [I (-1)]]) fs)" for tr'
    by (simp add: do_echo_iter_def deliver_def)
  note child = loop_Abort [where body = "do_echo_iter (\<lambda>n. Printf ''child(%d)\<newline>'' [I n]) (-1)", OF this]
  show ?thesis
    using assms
    by (simp add: fok_sig_iter_def accept_sig_def sigHandler_def wait_for_def EINTR_def run_simps
        do_echo_sig_def pseq_Abort [where m = "loop (do_echo_iter (\<lambda>n. Printf ''child(%d)\<newline>'' [I n]) (-1)) junk", OF child])
qed

theorem fok_sig_interrupted_accept_witness:
  "fok_sig_iter [] 3 () (st (failed EINTR # rc 50 # rc 60 # []) [] Map.empty) =
      (Val (Next ()), st [] ([] @ [Accept 3, Wait, Printf ''pid[%d] terminate\<newline>'' [I 50],
         Printf ''accept error\<newline>'' [], Fork, Close (-1)]) Map.empty) \<and>
    fok_sig_iter [] 3 () (st (failed EINTR # rc 50 # rc 0 # failed 9 # []) [] Map.empty) =
      (Abort (Fault OutOfBounds), st [] ([] @ [Accept 3, Wait, Printf ''pid[%d] terminate\<newline>'' [I 50],
         Printf ''accept error\<newline>'' [], Fork, Printf ''child creat\<newline>'' [], Close 3, Read (-1) BUFSIZ,
         Printf ''child(%d)\<newline>'' [I (-1)]]) Map.empty)"
  by (rule fok_sig_interrupted_accept) simp

end
