(* ===== verification/SelectServer.thy ===== *)
theory SelectServer
  imports Sockets "HOL-Library.Multiset"
begin

text \<open>
  The echo server that serves all its clients from one process with \<open>select\<close>
  (thu/select/echo_server_select.c): an array of client descriptors with a count, from which a
  client whose connection ended is removed by moving the last one into its place.
\<close>

section \<open>State and operations\<close>

definition MAX_CLIENT :: nat where "MAX_CLIENT = 512"

record select_server =
  numClient :: nat
  clientSock :: "int list"
  rcvBuffer :: string

definition active :: "select_server \<Rightarrow> int list" where
  "active s = take (numClient s) (clientSock s)"

definition getMaxfd :: "select_server \<Rightarrow> int \<Rightarrow> int" where
  "getMaxfd s n = foldl (\<lambda>max c. if c > max then c else max) n (active s)"

text \<open>An \<open>fd_set\<close> has 1024 bits; the macros do not check their argument.\<close>

definition FD_SETSIZE :: int where "FD_SETSIZE = 1024"

definition fd_check :: "int \<Rightarrow> unit prog" where
  "fd_check d = (if 0 \<le> d \<and> d < FD_SETSIZE then pret () else pfault OutOfBounds)"

definition FD_ISSET :: "int \<Rightarrow> int list \<Rightarrow> bool prog" where
  "FD_ISSET d fds = pseq (fd_check d) (pret (d \<in> set fds))"

text \<open>\<open>clientSock[numClient++] = connSock\<close>\<close>

definition add_client :: "int \<Rightarrow> select_server \<Rightarrow> select_server prog" where
  "add_client c s =
     (if numClient s < length (clientSock s)
      then pret (s\<lparr>clientSock := (clientSock s)[numClient s := c], numClient := numClient s + 1\<rparr>)
      else pfault OutOfBounds)"

definition remove_client :: "nat \<Rightarrow> select_server \<Rightarrow> select_server" where
  "remove_client i s =
     (let s = (if i \<noteq> numClient s - 1
        then s\<lparr>clientSock := (clientSock s)[i := clientSock s ! (numClient s - 1)]\<rparr> else s)
      in s\<lparr>numClient := numClient s - 1\<rparr>)"

definition serve_client :: "int list \<Rightarrow> nat \<Rightarrow> select_server \<Rightarrow> select_server prog" where
  "serve_client fds i s =
     (let c = clientSock s ! i in
      pbind (FD_ISSET c fds) (\<lambda>isset.
      if \<not> isset then pret s else
      pbind (rread c BUFSIZ) (\<lambda>(n, d).
      if n \<noteq> 0 then
        pbind (deliver (rcvBuffer s) 0 d) (\<lambda>buf.
        pbind (store buf n NUL) (\<lambda>buf.
        pbind (cstring buf) (\<lambda>text.
        pseq (printf ''receive - [%s] \<newline>'' [S text])
       (pseq (sys_do (Write c (take (nat n) buf)))
       (pseq (printf ''send - [%s] \<newline>'' [S text])
        (pret (s\<lparr>rcvBuffer := buf\<rparr>)))))))
      else
        pseq (printf ''EOF\<newline>'' [])
       (pseq (emit (Close c))
        (pret (remove_client i s))))))"

text \<open>
  \<open>for (i = 0; i < numClient; i++)\<close>, where the body may decrease \<open>numClient\<close>: the indices
  below the first count, each compared with the current one.
\<close>

definition serve_clients :: "int list \<Rightarrow> select_server \<Rightarrow> select_server prog" where
  "serve_clients fds s =
     pfor [0..<numClient s] (\<lambda>i s. if i < numClient s then serve_client fds i s else pret s) s"

definition select_iter :: "fd \<Rightarrow> select_server \<Rightarrow> (select_server, unit) iter prog" where
  "select_iter listenSock s =
     (let maxfd = getMaxfd s listenSock + 1 in
      pseq (fd_check listenSock)
     (pseq (pfor (active s) (\<lambda>c _. fd_check c) ())
     (pbind (sys (Select maxfd (listenSock # active s)) (\<lambda>r. (r_ret r, r_fds r))) (\<lambda>(ret, fds).
      if ret < 0 then pseq (printf ''select error\<newline>'' []) (pexit (-1)) else
      pseq (printf ''waiting---\<newline>'' [])
     (pbind (if listenSock \<in> set fds
             then pbind (sys_ret (Accept listenSock)) (\<lambda>connSock. add_client connSock s)
             else pret s) (\<lambda>s.
      pbind (serve_clients fds s) (\<lambda>s.
      pret (Next s))))))))"

definition select_server_main :: "string \<Rightarrow> unit prog" where
  "select_server_main junk =
     pbind (listen_on 8091 ''listen Fail\<newline>'') (\<lambda>listenSock.
     loop (select_iter listenSock) \<lparr>numClient = 0, clientSock = replicate MAX_CLIENT 0, rcvBuffer = junk\<rparr>)"

section \<open>Lemmas\<close>

lemma getMaxfd_upper: "c = n \<or> c \<in> set (active s) \<Longrightarrow> c \<le> getMaxfd s n"
proof -
  have "c = n \<or> c \<in> set cs \<Longrightarrow> c \<le> foldl (\<lambda>max c. if c > max then c else max) n cs" for cs
  proof (induction cs arbitrary: n)
    case (Cons a cs)
    have up: "n' \<le> foldl (\<lambda>max c. if c > max then c else max) n' cs" for n' :: int
    proof -
      have "n' \<le> foldl (\<lambda>max c. if c > max then c else max) n' ds" for ds and n' :: int
        by (induction ds arbitrary: n') (auto intro: order_trans less_imp_le)
      then show ?thesis .
    qed
    from Cons show ?case
      using up [of "if a > n then a else n"] by (auto split: if_splits)
  qed simp
  then show "c = n \<or> c \<in> set (active s) \<Longrightarrow> c \<le> getMaxfd s n"
    by (simp add: getMaxfd_def)
qed

definition closes :: "call list \<Rightarrow> int list" where
  "closes tr = concat (map (\<lambda>c. case c of Close d \<Rightarrow> [d] | _ \<Rightarrow> []) tr)"

lemma closes_simps [simp]:
  "closes [] = []" "closes (tr @ tr') = closes tr @ closes tr'"
  "closes (c # tr) = (case c of Close d \<Rightarrow> [d] | _ \<Rightarrow> []) @ closes tr"
  by (simp_all add: closes_def)

definition accepts :: "call list \<Rightarrow> nat" where
  "accepts tr = length (filter (\<lambda>c. case c of Accept _ \<Rightarrow> True | _ \<Rightarrow> False) tr)"

lemma accepts_simps [simp]:
  "accepts [] = 0" "accepts (tr @ tr') = accepts tr + accepts tr'"
  "accepts (c # tr) = (case c of Accept _ \<Rightarrow> 1 | _ \<Rightarrow> 0) + accepts tr"
  by (simp_all add: accepts_def split: call.splits)

definition select_inv :: "select_server \<Rightarrow> bool" where
  "select_inv s \<longleftrightarrow> length (clientSock s) = MAX_CLIENT \<and> numClient s \<le> MAX_CLIENT \<and> length (rcvBuffer s) = BUFSIZ"

lemma select_inv_remove:
  "select_inv s \<Longrightarrow> select_inv (remove_client i s)"
  by (auto simp: select_inv_def remove_client_def Let_def)

lemma mset_swap_remove:
  assumes "i < n" and "n \<le> length xs"
  shows "add_mset (xs ! i) (mset (take (n - 1) (xs[i := xs ! (n - 1)]))) = mset (take n xs)"
proof -
  obtain m where n: "n = Suc m" using assms(1) by (cases n) auto
  have t: "mset (take n xs) = add_mset (xs ! m) (mset (take m xs))"
    using assms n by (simp add: take_Suc_conv_app_nth)
  show ?thesis
  proof (cases "i = m")
    case True
    then show ?thesis using n t by simp
  next
    case False
    then have i: "i < length (take m xs)" using assms n by simp
    have "take m (xs[i := xs ! m]) = (take m xs)[i := xs ! m]"
      by (simp add: take_update_swap)
    then have "mset (take m (xs[i := xs ! m])) = add_mset (xs ! m) (mset (take m xs) - {#xs ! i#})"
      using i False assms n by (simp add: mset_update)
    moreover have "xs ! i \<in># mset (take m xs)"
      using i by (metis False assms(1) less_SucE n nth_mem_mset nth_take)
    ultimately show ?thesis using n t by (simp add: add_mset_commute)
  qed
qed

lemma active_remove:
  assumes "i < numClient s" and "select_inv s"
  shows "add_mset (clientSock s ! i) (mset (active (remove_client i s))) = mset (active s)"
proof -
  have "take (numClient s - 1) (clientSock (remove_client i s)) =
      take (numClient s - 1) ((clientSock s)[i := clientSock s ! (numClient s - 1)])"
    by (auto simp: remove_client_def Let_def)
  moreover have "numClient (remove_client i s) = numClient s - 1"
    by (simp add: remove_client_def Let_def)
  ultimately show ?thesis
    using mset_swap_remove [of i "numClient s" "clientSock s"] assms
    by (simp add: active_def select_inv_def)
qed

text \<open>What a step of the service keeps: the clients are those of before but for the closed.\<close>

definition served_from :: "select_server \<Rightarrow> call list \<Rightarrow> select_server \<Rightarrow> os \<Rightarrow> bool" where
  "served_from s tr s' w' \<longleftrightarrow> select_inv s' \<and>
     (\<exists>tr'. trace w' = tr @ tr' \<and> mset (active s') + mset (closes tr') = mset (active s) \<and> accepts tr' = 0)"

lemma served_from_refl: "select_inv s \<Longrightarrow> served_from s (trace w) s w"
  by (auto simp: served_from_def)

lemma served_from_trans:
  assumes "served_from s tr s1 w1" and "served_from s1 (trace w1) s2 w2"
  shows "served_from s tr s2 w2"
proof -
  obtain tr1 where "trace w1 = tr @ tr1" "mset (active s1) + mset (closes tr1) = mset (active s)" "accepts tr1 = 0"
    using assms(1) by (auto simp: served_from_def)
  moreover obtain tr2 where "trace w2 = trace w1 @ tr2" "mset (active s2) + mset (closes tr2) = mset (active s1)" "accepts tr2 = 0"
    using assms(2) by (auto simp: served_from_def)
  moreover have "mset (active s2) + mset (closes (tr1 @ tr2)) =
      mset (active s2) + mset (closes tr2) + mset (closes tr1)"
    by (simp add: ac_simps)
  ultimately have "trace w2 = tr @ tr1 @ tr2"
    "mset (active s2) + mset (closes (tr1 @ tr2)) = mset (active s)" "accepts (tr1 @ tr2) = 0"
    by simp_all
  then show ?thesis
    using assms(2) unfolding served_from_def by blast
qed

lemma wp_serve_client:
  assumes "select_inv s" and "i < numClient s"
  shows "wp (serve_client fds i s) (\<lambda>s' w'. served_from s (trace w) s' w') (\<lambda>_ _. True) w"
proof -
  have same: "active (s\<lparr>rcvBuffer := b\<rparr>) = active s" for b
    by (simp add: active_def)
  show ?thesis
    using assms active_remove [OF assms(2,1)]
    by (auto simp: serve_client_def FD_ISSET_def fd_check_def wp_simps served_from_def got_def Let_def same
        select_inv_remove split: list.splits) (auto simp: select_inv_def)
qed

lemma wp_serve_clients:
  assumes "select_inv s"
  shows "wp (serve_clients fds s) (\<lambda>s' w'. served_from s (trace w) s' w') (\<lambda>_ _. True) w"
  unfolding serve_clients_def
proof (rule wp_pfor [where Inv = "\<lambda>_ s' w'. served_from s (trace w) s' w'"])
  show "served_from s (trace w) s w"
    using assms by (rule served_from_refl)
  fix i js s1 w1
  assume s1: "served_from s (trace w) s1 w1"
  then have "select_inv s1" by (simp add: served_from_def)
  then have "wp (serve_client fds i s1) (\<lambda>s' w'. served_from s1 (trace w1) s' w') (\<lambda>_ _. True) w1" if "i < numClient s1"
    using that by (rule wp_serve_client)
  then show "wp (if i < numClient s1 then serve_client fds i s1 else pret s1)
      (served_from s (trace w)) (\<lambda>_ _. True) w1"
    using s1 by (auto simp: wp_pret elim!: wp_mono intro: served_from_trans)
qed

lemma wp_fd_checks:
  "Q () w \<Longrightarrow> wp (pfor ds (\<lambda>c _. fd_check c) ()) Q (\<lambda>_ _. True) w"
  by (rule wp_pfor [where Inv = "\<lambda>_ _ w'. w' = w"]) (auto simp: fd_check_def wp_simps)

lemma wp_add_client:
  assumes "select_inv s"
    and "\<And>s'. select_inv s' \<Longrightarrow> mset (active s') = add_mset c (mset (active s)) \<Longrightarrow> Q s' w"
  shows "wp (add_client c s) Q (\<lambda>_ _. True) w"
proof -
  have "active (s\<lparr>clientSock := (clientSock s)[numClient s := c], numClient := numClient s + 1\<rparr>) = active s @ [c]"
    if "numClient s < length (clientSock s)"
    using that by (simp add: active_def take_Suc_conv_app_nth)
  then show ?thesis
    using assms by (auto simp: add_client_def wp_simps select_inv_def)
qed

text \<open>What a round keeps: \<open>new\<close> is the client accepted in it, if any.\<close>

definition round_result :: "select_server \<Rightarrow> call list \<Rightarrow> (select_server, unit) iter \<Rightarrow> os \<Rightarrow> bool" where
  "round_result s tr r w' \<longleftrightarrow> (\<exists>s' tr' new. r = Next s' \<and> select_inv s' \<and> trace w' = tr @ tr' \<and>
     mset (active s') + mset (closes tr') = mset (active s) + mset new \<and> length new = accepts tr')"

lemma wp_rest_of_round:
  assumes "select_inv s1" and "trace w = tr @ tr1" and "closes tr1 = []"
    and "mset (active s1) = mset (active s) + mset new" and "length new = accepts tr1"
  shows "wp (pbind (serve_clients fds s1) (\<lambda>s. pret (Next s))) (round_result s tr) (\<lambda>_ _. True) w"
proof -
  have "round_result s tr (Next s') w'" if "served_from s1 (trace w) s' w'" for s' w'
  proof -
    obtain tr' where "select_inv s'" "trace w' = trace w @ tr'" "accepts tr' = 0"
      "mset (active s') + mset (closes tr') = mset (active s1)"
      using \<open>served_from s1 (trace w) s' w'\<close> by (auto simp: served_from_def)
    with assms show ?thesis
      unfolding round_result_def by (intro exI [of _ s'] exI [of _ "tr1 @ tr'"] exI [of _ new]) simp
  qed
  then show ?thesis
    using assms(1) by (auto simp: wp_pbind wp_pret intro: wp_mono [OF wp_serve_clients])
qed



section \<open>What a round does for the clients\<close>

definition writes :: "call list \<Rightarrow> (int \<times> string) list" where
  "writes tr = concat (map (\<lambda>c. case c of Write d x \<Rightarrow> [(d, x)] | _ \<Rightarrow> []) tr)"

lemma writes_simps [simp]:
  "writes [] = []" "writes (tr @ tr') = writes tr @ writes tr'"
  "writes (c # tr) = (case c of Write d x \<Rightarrow> [(d, x)] | _ \<Rightarrow> []) @ writes tr"
  by (simp_all add: writes_def)

text \<open>The replies to the service of some clients, each with a message of its own.\<close>

definition asks :: "(int \<Rightarrow> string) \<Rightarrow> int list \<Rightarrow> reply list" where
  "asks m cs = concat (map (\<lambda>c. [data (m c), rc (int (length (m c)))]) cs)"

lemma asks_simps [simp]:
  "asks m [] = []" "asks m (c # cs) = data (m c) # rc (int (length (m c))) # asks m cs"
  by (simp_all add: asks_def)

definition fd_ok :: "int \<Rightarrow> bool" where
  "fd_ok d \<longleftrightarrow> 0 \<le> d \<and> d < FD_SETSIZE"

definition msg_ok :: "string \<Rightarrow> bool" where
  "msg_ok t \<longleftrightarrow> t \<noteq> [] \<and> length t < BUFSIZ"

lemma fd_check_ok: "fd_ok d \<Longrightarrow> fd_check d = pret ()"
  by (simp add: fd_ok_def fd_check_def)

lemma serve_client_ready:
  assumes "select_inv s" and "fd_ok (clientSock s ! i)" and "clientSock s ! i \<in> set fds" and "msg_ok d"
  shows "\<exists>buf cs. serve_client fds i s (st (data d # rc k # rs) tr fs) =
    (Val (s\<lparr>rcvBuffer := buf\<rparr>), st rs (tr @ cs) fs) \<and> length buf = BUFSIZ \<and> writes cs = [(clientSock s ! i, d)]"
  using assms
  by (intro exI [of _ "(overlay (rcvBuffer s) 0 d)[length d := NUL]"])
    (simp add: serve_client_def FD_ISSET_def fd_check_ok select_inv_def msg_ok_def Let_def
      take_overlay_0 terminated_update run_simps)

lemma serve_client_idle:
  assumes "fd_ok (clientSock s ! i)" and "clientSock s ! i \<notin> set fds"
  shows "serve_client fds i s (st rs tr fs) = (Val s, st rs tr fs)"
  using assms by (simp add: serve_client_def FD_ISSET_def fd_check_def fd_ok_def Let_def run_simps)

lemma serve_from:
  assumes "list_all (\<lambda>c. fd_ok c \<and> msg_ok (m c)) (active s)" and "select_inv s" and "j \<le> numClient s"
  shows "\<exists>buf cs. pfor [j..<numClient s] (\<lambda>i s'. if i < numClient s' then serve_client fds i s' else pret s') s
      (st (asks m (filter (\<lambda>c. c \<in> set fds) (drop j (active s))) @ rs) tr fs') =
    (Val (s\<lparr>rcvBuffer := buf\<rparr>), st rs (tr @ cs) fs') \<and> length buf = BUFSIZ \<and>
    writes cs = map (\<lambda>c. (c, m c)) (filter (\<lambda>c. c \<in> set fds) (drop j (active s)))"
  using assms
proof (induction "numClient s - j" arbitrary: j s tr)
  case 0
  then show ?case
    by (intro exI [of _ "rcvBuffer s"] exI [of _ "[]"]) (simp add: active_def select_inv_def)
next
  case (Suc k)
  let ?f = "\<lambda>i s'. if i < numClient s' then serve_client fds i s' else pret s'"
  have j: "j < numClient s" "j < length (active s)" "active s ! j = clientSock s ! j"
    using Suc.hyps(2) Suc.prems by (auto simp: active_def select_inv_def)
  let ?c = "clientSock s ! j"
  have c: "fd_ok ?c" "msg_ok (m ?c)"
    using Suc.prems(1) j by (auto simp: list_all_length)
  have rest: "drop j (active s) = ?c # drop (Suc j) (active s)"
    using j by (metis Cons_nth_drop_Suc)
  have upt: "[j..<numClient s] = j # [Suc j..<numClient s]"
    using j(1) by (rule upt_conv_Cons)
  have same: "active (s\<lparr>rcvBuffer := b\<rparr>) = active s" for b
    by (simp add: active_def)
  define q where "q = filter (\<lambda>c. c \<in> set fds) (drop (Suc j) (active s))"
  have step: "\<exists>buf cs. pfor [Suc j..<numClient s] ?f (s\<lparr>rcvBuffer := b\<rparr>) (st (asks m q @ rs) tr1 fs') =
      (Val (s\<lparr>rcvBuffer := buf\<rparr>), st rs (tr1 @ cs) fs') \<and> length buf = BUFSIZ \<and> writes cs = map (\<lambda>c. (c, m c)) q"
    if "length b = BUFSIZ" for b tr1
    using Suc.hyps(1) [of "s\<lparr>rcvBuffer := b\<rparr>" "Suc j" tr1] Suc.hyps(2) Suc.prems j that
    by (simp add: same q_def select_inv_def)
  show ?case
  proof (cases "?c \<in> set fds")
    case True
    obtain b cs where one: "serve_client fds j s (st (data (m ?c) # rc (int (length (m ?c))) # asks m q @ rs) tr fs') =
        (Val (s\<lparr>rcvBuffer := b\<rparr>), st (asks m q @ rs) (tr @ cs) fs')"
      and b: "length b = BUFSIZ" and w: "writes cs = [(?c, m ?c)]"
      using serve_client_ready [OF Suc.prems(2) c(1) True c(2)] by blast
    obtain buf cs' where "pfor [Suc j..<numClient s] ?f (s\<lparr>rcvBuffer := b\<rparr>) (st (asks m q @ rs) (tr @ cs) fs') =
        (Val (s\<lparr>rcvBuffer := buf\<rparr>), st rs ((tr @ cs) @ cs') fs')" "length buf = BUFSIZ" "writes cs' = map (\<lambda>c. (c, m c)) q"
      using step [OF b] by blast
    then show ?thesis
      using True j(1) one w
      by (intro exI [of _ buf] exI [of _ "cs @ cs'"]) (simp add: rest upt q_def [symmetric] pbind_def)
  next
    case False
    have "length (rcvBuffer s) = BUFSIZ" using Suc.prems(2) by (simp add: select_inv_def)
    from step [OF this, of tr] show ?thesis
      using False j(1) serve_client_idle [OF c(1) False] by (simp add: rest upt q_def [symmetric] pbind_def)
  qed
qed



text \<open>
  The client moved into a freed place is not looked at in that round, although it is ready; it
  stays in the table and \<open>select\<close> reports it again.
\<close>

lemma select_moved_waits:
  assumes "numClient s = 2" and "length (clientSock s) = MAX_CLIENT" and "fd_ok (clientSock s ! 0)"
    and "clientSock s ! 0 \<in> set fds" and "clientSock s ! 1 \<in> set fds"
  shows "\<exists>s'. serve_clients fds s (st (data [] # rs) tr fs) =
    (Val s', st rs (tr @ [Read (clientSock s ! 0) BUFSIZ, Printf ''EOF\<newline>'' [], Close (clientSock s ! 0)]) fs) \<and>
    active s' = [clientSock s ! 1]"
proof -
  have "[0..<2] = [0, 1::nat]" by (simp add: upt_rec)
  moreover have "2 \<le> length (clientSock s)" using assms(2) by (simp add: MAX_CLIENT_def)
  moreover obtain c d cs where "clientSock s = c # d # cs"
    using calculation(2) by (metis Suc_le_length_iff numeral_2_eq_2)
  ultimately show ?thesis
    using assms
    by (simp add: serve_clients_def serve_client_def FD_ISSET_def fd_check_ok Let_def remove_client_def
        active_def run_simps)
qed

end
