(* ===== verification/Udp.thy ===== *)
theory Udp
  imports Sockets
begin

text \<open>
  The datagram programs: the echo server and its clients (wen/udp, wen/udp_alarm with a time
  limit on the answer, wen/udp_connect with a connected socket), and the broadcast pair
  wen/UDPbcaster.c and wen/UDPreader.c. Output to stderr is logged like output to stdout.
\<close>

section \<open>The servers\<close>

definition udp_bind :: "int \<Rightarrow> fd prog" where
  "udp_bind port =
     pbind (sys_ret (Socket 2 2 0)) (\<lambda>sd.
     pbind (sys_ret (Bind sd (sock_addr port (htonl INADDR_ANY)))) (\<lambda>r.
     if r < 0 then pseq (printf ''bind( ) error'' []) (pexit (-2)) else pret sd))"

definition recv_dgram :: "fd \<Rightarrow> string \<Rightarrow> (int \<times> string \<times> sockaddr_in) prog" where
  "recv_dgram sd buf =
     pbind (rrecvfrom sd BUFSIZ) (\<lambda>(n, d, a).
     if n < 0 then pseq (printf ''recvfrom( ) error'' []) (pexit (-3)) else
     pbind (deliver buf 0 d) (\<lambda>buf. pret (n, buf, a)))"

text \<open>wen/udp/echo_server_UDP.c\<close>

definition udp_server_iter :: "fd \<Rightarrow> string \<Rightarrow> (string, unit) iter prog" where
  "udp_server_iter sd buff =
     pseq (printf ''waiting\<newline>'' [])
    (pbind (recv_dgram sd buff) (\<lambda>(n_recv, buff, c_addr).
     pbind (sys_ret (SendTo sd (take (nat n_recv) buff) c_addr)) (\<lambda>n.
     if n < 0 then pseq (printf ''sendto( ) error'' []) (pexit (-3)) else pret (Next buff))))"

definition udp_server_main :: "string \<Rightarrow> unit prog" where
  "udp_server_main junk =
     pbind (udp_bind 9200) (\<lambda>sd. pseq (loop (udp_server_iter sd) junk) (emit (Close sd)))"

text \<open>wen/udp_alarm/echo_server_UDPalarm_test.c receives and does not answer.\<close>

definition udp_silent_iter :: "fd \<Rightarrow> string \<Rightarrow> (string, unit) iter prog" where
  "udp_silent_iter sd buff =
     pseq (printf ''waiting\<newline>'' [])
    (pbind (recv_dgram sd buff) (\<lambda>(n_recv, buff, c_addr). pret (Next buff)))"

definition udp_silent_main :: "string \<Rightarrow> unit prog" where
  "udp_silent_main junk =
     pbind (udp_bind 9200) (\<lambda>sd. pseq (loop (udp_silent_iter sd) junk) (emit (Close sd)))"

section \<open>The clients\<close>

definition local_server :: "int \<Rightarrow> sockaddr_in" where
  "local_server port = sock_addr port (inet_addr ''127.0.0.1'')"

text \<open>
  One round: a line from the terminal, and with it the exchange that the three clients do
  differently. \<open>None\<close> is the break after quit.
\<close>

definition typed :: "string \<Rightarrow> (string \<Rightarrow> string \<Rightarrow> string prog) \<Rightarrow> (string, unit) iter prog" where
  "typed sndBuffer exchange =
     pseq (printf ''waiting\<newline>'' [])
    (pbind (rread 0 BUFSIZ) (\<lambda>(n, d).
     if n \<le> 0 then pret (Next sndBuffer) else
     pbind (deliver sndBuffer 0 d) (\<lambda>buf.
     pbind (store buf n NUL) (\<lambda>buf.
     pbind (cstring buf) (\<lambda>text.
     if text = ''quit\<newline>'' then pret (Stop ()) else
     pseq (printf ''original  Data : %s'' [S text])
    (pbind (exchange text buf) (\<lambda>buf.
     pret (Next buf))))))))"

text \<open>Storing an answer in the buffer and printing it.\<close>

definition print_answer :: "string \<Rightarrow> int \<Rightarrow> string \<Rightarrow> string prog" where
  "print_answer buf n d =
     pbind (deliver buf 0 d) (\<lambda>buf.
     pbind (store buf n NUL) (\<lambda>buf.
     pbind (cstring buf) (\<lambda>text.
     pseq (printf ''echoed  Data : %s'' [S text])
     (pret buf))))"

text \<open>wen/udp/echo_client_UDP.c\<close>

definition udp_exchange :: "fd \<Rightarrow> string \<Rightarrow> string \<Rightarrow> string prog" where
  "udp_exchange sd text buf =
     pbind (sys_ret (SendTo sd text (local_server 9200))) (\<lambda>n_send.
     if n_send < 0 then pseq (printf ''sendto( ) error'' []) (pexit (-3)) else
     pbind (rrecvfrom sd BUFSIZ) (\<lambda>(n, d, _).
     if n < 0 then pseq (printf ''recvfrom( ) error'' []) (pexit (-3)) else
     print_answer buf n d))"

definition udp_client_iter :: "fd \<Rightarrow> string \<Rightarrow> (string, unit) iter prog" where
  "udp_client_iter sd sndBuffer = typed sndBuffer (udp_exchange sd)"

definition udp_client_main :: "string \<Rightarrow> unit prog" where
  "udp_client_main junk =
     pbind (sys_ret (Socket 2 2 0)) (\<lambda>sd.
     pseq (loop (udp_client_iter sd) junk) (emit (Close sd)))"

text \<open>
  wen/udp_alarm/echo_client_UDPalarm.c: \<open>recvfrom\<close> interrupted by the alarm fails with EINTR
  after the handler \<open>sigAlarm\<close> has printed its line.
\<close>

definition sigAlarm :: "unit prog" where
  "sigAlarm = printf ''alarm\<newline>'' []"

definition alarm_exchange :: "fd \<Rightarrow> string \<Rightarrow> string \<Rightarrow> string prog" where
  "alarm_exchange sd text buf =
     pbind (sys_ret (SendTo sd text (local_server 9200))) (\<lambda>n_send.
     if n_send < 0 then pseq (printf ''sendto( ) error'' []) (pexit (-3)) else
     pseq (emit (Alarm 2))
    (pseq (printf ''socket recvfrom enter\<newline>'' [])
    (pbind (sys (RecvFrom sd BUFSIZ) (\<lambda>r. (fst (got BUFSIZ r), snd (got BUFSIZ r), r_errno r))) (\<lambda>(n, d, errno).
     if n < 0 then
       (if errno = 4 then pseq sigAlarm (pseq (printf ''socket timeout\<newline>'' []) (pret buf))
        else pseq (printf ''recvfrom error\<newline>'' []) (pret buf))
     else pseq (emit (Alarm 0)) (print_answer buf n d)))))"

definition alarm_client_iter :: "fd \<Rightarrow> string \<Rightarrow> (string, unit) iter prog" where
  "alarm_client_iter sd sndBuffer = typed sndBuffer (alarm_exchange sd)"

definition alarm_client_main :: "string \<Rightarrow> unit prog" where
  "alarm_client_main junk =
     pbind (sys_ret (Socket 2 2 0)) (\<lambda>sd.
     pseq (loop (alarm_client_iter sd) junk) (emit (Close sd)))"

text \<open>wen/udp_connect/echo_client_UDPconnect.c\<close>

definition connect_exchange :: "fd \<Rightarrow> string \<Rightarrow> string \<Rightarrow> string prog" where
  "connect_exchange sd text buf =
     pbind (sys_ret (Write sd text)) (\<lambda>n_send.
     if n_send < 0 then pseq (printf ''write error'' []) (pexit (-3)) else
     pbind (rread sd BUFSIZ) (\<lambda>(n, d).
     if n < 0 then pseq (printf ''read error'' []) (pexit (-3)) else
     print_answer buf n d))"

definition connect_client_iter :: "fd \<Rightarrow> string \<Rightarrow> (string, unit) iter prog" where
  "connect_client_iter sd sndBuffer = typed sndBuffer (connect_exchange sd)"

definition connect_client_main :: "string \<Rightarrow> unit prog" where
  "connect_client_main junk =
     pbind (sys_ret (Socket 2 2 0)) (\<lambda>sd.
     pseq (sys_do (Connect sd (local_server 9000)))
    (pseq (loop (connect_client_iter sd) junk) (emit (Close sd))))"

section \<open>Broadcast\<close>

text \<open>wen/UDPbcaster.c: the last character typed, the newline, is replaced by the terminator.\<close>

definition bcaster_iter :: "fd \<Rightarrow> sockaddr_in \<Rightarrow> string \<Rightarrow> (string, unit) iter prog" where
  "bcaster_iter sd s_addr sndBuffer =
     pseq (printf ''Type broadcasting data : '' [])
    (pbind (rread 0 BUFSIZ) (\<lambda>(n, d).
     if n \<le> 0 then pret (Next sndBuffer) else
     pbind (deliver sndBuffer 0 d) (\<lambda>buf.
     pbind (store buf (n - 1) NUL) (\<lambda>buf.
     pbind (cstring buf) (\<lambda>text.
     pbind (sys_ret (SendTo sd text s_addr)) (\<lambda>n_send.
     if n_send < 0 then pseq (printf ''sendto() error'' []) (pexit (-3)) else
     if strncmp_eq buf ''quit'' 4 then pret (Stop ()) else pret (Next buf)))))))"

definition bcaster_main :: "string \<Rightarrow> string list \<Rightarrow> unit prog" where
  "bcaster_main junk argv =
     (if length argv \<noteq> 3 then pseq (printf ''usage: UDPbacster broadcast_ip_addr port\<newline>'' []) (pexit (-1))
      else
        pbind (sys_ret (Socket 2 2 0)) (\<lambda>sd.
        pbind (sys_ret (Sockopt sd 1 6)) (\<lambda>status.
        if status \<noteq> 0 then pseq (printf ''setsockopt error\<newline>'' []) (pexit (-1)) else
        pseq (loop (bcaster_iter sd (sock_addr (atoi (argv ! 2)) (inet_addr (argv ! 1)))) junk)
        (emit (Close sd)))))"

text \<open>wen/UDPreader.c\<close>

definition reader_iter :: "fd \<Rightarrow> string \<Rightarrow> (string, unit) iter prog" where
  "reader_iter sd rcvBuffer =
     pbind (rrecvfrom sd BUFSIZ) (\<lambda>(n, d, c_addr).
     if n < 0 then pseq (printf ''recvfrom error'' []) (pexit (-3)) else
     pbind (deliver rcvBuffer 0 d) (\<lambda>buf.
     pbind (store buf n NUL) (\<lambda>buf.
     if strncmp_eq buf ''quit'' 4 then pret (Stop ()) else
     pbind (cstring buf) (\<lambda>text.
     pseq (printf ''Broadcated from %s [%s]\<newline>'' [S (inet_ntoa (sin_addr c_addr)), S text])
     (pret (Next buf))))))"

definition reader_main :: "string \<Rightarrow> string list \<Rightarrow> unit prog" where
  "reader_main junk argv =
     (if length argv \<noteq> 2 then pseq (printf ''usage: UDPreader port\<newline>'' []) (pexit (-1))
      else
        pbind (sys_ret (Socket 2 2 0)) (\<lambda>sd.
        pbind (sys_ret (Bind sd (sock_addr (atoi (argv ! 1)) INADDR_ANY))) (\<lambda>r.
        if r \<noteq> 0 then pseq (printf ''bind error\<newline>'' []) (pexit (-2)) else
        pseq (loop (reader_iter sd) junk) (emit (Close sd)))))"

section \<open>Properties of the echo\<close>

lemma udp_server_answers:
  assumes "length d \<le> BUFSIZ" and "length buf = BUFSIZ" and "0 \<le> k"
  shows "udp_server_iter sd buf (st (dgram d a # rc k # rs) tr fs) =
    (Val (Next (overlay buf 0 d)), st rs (tr @ [Printf ''waiting\<newline>'' [], RecvFrom sd BUFSIZ, SendTo sd d a]) fs)"
  using assms by (simp add: udp_server_iter_def recv_dgram_def rrecvfrom_def overlay_def run_simps)

definition udp_line :: "string \<Rightarrow> bool" where
  "udp_line t \<longleftrightarrow> t \<noteq> [] \<and> length t < BUFSIZ \<and> NUL \<notin> set t \<and> t \<noteq> ''quit\<newline>''"

lemma typed_run:
  assumes "udp_line t" and "length buf = BUFSIZ"
  shows "typed buf ex (st (data t # rs) tr fs) =
    pbind (ex t ((overlay buf 0 t)[length t := NUL])) (\<lambda>buf. pret (Next buf))
      (st rs (tr @ [Printf ''waiting\<newline>'' [], Read 0 BUFSIZ, Printf ''original  Data : %s'' [S t]]) fs)"
  using assms c_str_overlay_update [of t buf]
  by (simp add: typed_def udp_line_def pbind_cstring_update)

lemma print_answer_run:
  assumes "length d < BUFSIZ" and "NUL \<notin> set d" and "length buf = BUFSIZ"
  shows "print_answer buf (int (length d)) d = pseq (printf ''echoed  Data : %s'' [S d])
    (pret ((overlay buf 0 d)[length d := NUL]))"
  using assms c_str_overlay_update [of d buf] by (simp add: print_answer_def pbind_cstring_update)

text \<open>The datagrams a program sent, with where to.\<close>

definition sent_to :: "call list \<Rightarrow> (string \<times> sockaddr_in) list" where
  "sent_to tr = concat (map (\<lambda>c. case c of SendTo _ d a \<Rightarrow> [(d, a)] | _ \<Rightarrow> []) tr)"

lemma sent_to_simps [simp]:
  "sent_to [] = []" "sent_to (tr @ tr') = sent_to tr @ sent_to tr'"
  "sent_to (c # tr) = (case c of SendTo _ d a \<Rightarrow> [(d, a)] | _ \<Rightarrow> []) @ sent_to tr"
  by (simp_all add: sent_to_def)

text \<open>
  C40. The UDP echo is end to end correct: a line typed at the client goes out as one datagram to
  port 9200 of the local host; the server returns the same bytes to the address the datagram
  came from; the client given that answer prints the line and waits for the next.
\<close>

theorem udp_echo:
  assumes "udp_line t" and "length buf = BUFSIZ" and "length sbuf = BUFSIZ" and "0 \<le> k" and "0 \<le> k'"
  shows "\<exists>buf' trc sbuf' trs.
    udp_client_iter sd buf (st (data t # rc k # dgram t (local_server 9200) # rs) [] fs) =
      (Val (Next buf'), st rs trc fs) \<and> sent_to trc = [(t, local_server 9200)] \<and>
    udp_server_iter ssd sbuf (st (dgram t me # rc k' # rs') [] fs') = (Val (Next sbuf'), st rs' trs fs') \<and>
    sent_to trs = [(t, me)] \<and> last trc = Printf ''echoed  Data : %s'' [S t]"
proof -
  have "length t \<le> BUFSIZ" using assms(1) by (simp add: udp_line_def)
  note server = udp_server_answers [OF this assms(3,5), of ssd me rs' "[]" fs']
  show ?thesis
    using assms(1,2,4)
    by (simp add: udp_client_iter_def typed_run udp_exchange_def rrecvfrom_def print_answer_run
        udp_line_def server run_simps)
qed

theorem udp_echo_witness:
  "\<exists>buf' trc sbuf' trs.
    udp_client_iter 3 (replicate BUFSIZ NUL) (st (data ''hi\<newline>'' # rc 3 # dgram ''hi\<newline>'' (local_server 9200) # []) [] Map.empty) =
      (Val (Next buf'), st [] trc Map.empty) \<and> sent_to trc = [(''hi\<newline>'', local_server 9200)] \<and>
    udp_server_iter 4 (replicate BUFSIZ NUL) (st (dgram ''hi\<newline>'' no_addr # rc 3 # []) [] Map.empty) =
      (Val (Next sbuf'), st [] trs Map.empty) \<and>
    sent_to trs = [(''hi\<newline>'', no_addr)] \<and> last trc = Printf ''echoed  Data : %s'' [S ''hi\<newline>'']"
  by (rule udp_echo) (simp_all add: udp_line_def BUFSIZ_def)

text \<open>
  After a timeout the alarm client is out of step: an answer that comes after its two
  seconds is not discarded but shown as the echo of the next line, whose own answer is still to come.
\<close>

theorem alarm_client_late_answer:
  assumes "udp_line t" and "udp_line u" and "length buf = BUFSIZ" and "0 \<le> k" and "0 \<le> k'"
  shows "loop (alarm_client_iter sd) buf
      (st (data t # rc k # failed 4 # data u # rc k' # dgram t a # []) [] fs) =
    (Abort Blocked, st [] [Printf ''waiting\<newline>'' [], Read 0 BUFSIZ, Printf ''original  Data : %s'' [S t],
       SendTo sd t (local_server 9200), Alarm 2, Printf ''socket recvfrom enter\<newline>'' [], RecvFrom sd BUFSIZ,
       Printf ''alarm\<newline>'' [], Printf ''socket timeout\<newline>'' [],
       Printf ''waiting\<newline>'' [], Read 0 BUFSIZ, Printf ''original  Data : %s'' [S u],
       SendTo sd u (local_server 9200), Alarm 2, Printf ''socket recvfrom enter\<newline>'' [], RecvFrom sd BUFSIZ,
       Alarm 0, Printf ''echoed  Data : %s'' [S t],
       Printf ''waiting\<newline>'' [], Read 0 BUFSIZ] fs)"
proof -
  have t: "length t < BUFSIZ" "NUL \<notin> set t" using assms(1) by (simp_all add: udp_line_def)
  let ?b1 = "(overlay buf 0 t)[length t := NUL]"
  let ?b2 = "(overlay ?b1 0 u)[length u := NUL]"
  have len: "length ?b1 = BUFSIZ" "length ?b2 = BUFSIZ"
    using assms(1-3) by (auto simp: udp_line_def)
  have one: "alarm_client_iter sd buf (st (data t # rc k # failed 4 # rs) tr fs) =
      (Val (Next ?b1), st rs (tr @ [Printf ''waiting\<newline>'' [], Read 0 BUFSIZ, Printf ''original  Data : %s'' [S t],
       SendTo sd t (local_server 9200), Alarm 2, Printf ''socket recvfrom enter\<newline>'' [], RecvFrom sd BUFSIZ,
       Printf ''alarm\<newline>'' [], Printf ''socket timeout\<newline>'' []]) fs)" for rs tr
    using assms by (simp add: alarm_client_iter_def typed_run alarm_exchange_def sigAlarm_def run_simps)
  have two: "alarm_client_iter sd ?b1 (st (data u # rc k' # dgram t a # rs) tr fs) =
      (Val (Next ((overlay ?b2 0 t)[length t := NUL])), st rs (tr @ [Printf ''waiting\<newline>'' [], Read 0 BUFSIZ,
       Printf ''original  Data : %s'' [S u], SendTo sd u (local_server 9200), Alarm 2,
       Printf ''socket recvfrom enter\<newline>'' [], RecvFrom sd BUFSIZ, Alarm 0, Printf ''echoed  Data : %s'' [S t]]) fs)" for rs tr
    using assms t len by (simp add: alarm_client_iter_def typed_run alarm_exchange_def print_answer_run run_simps)
  have three: "alarm_client_iter sd b (st [] tr fs) =
      (Abort Blocked, st [] (tr @ [Printf ''waiting\<newline>'' [], Read 0 BUFSIZ]) fs)" for b tr
    by (simp add: alarm_client_iter_def typed_def)
  show ?thesis
    by (simp add: loop_Next [where body = "alarm_client_iter sd", OF one] loop_Next [where body = "alarm_client_iter sd", OF two]
        loop_Abort [where body = "alarm_client_iter sd", OF three])
qed

theorem alarm_client_late_answer_witness:
  "loop (alarm_client_iter 3) (replicate BUFSIZ NUL)
      (st (data ''a\<newline>'' # rc 2 # failed 4 # data ''b\<newline>'' # rc 2 # dgram ''a\<newline>'' no_addr # []) [] Map.empty) =
    (Abort Blocked, st [] [Printf ''waiting\<newline>'' [], Read 0 BUFSIZ, Printf ''original  Data : %s'' [S ''a\<newline>''],
       SendTo 3 ''a\<newline>'' (local_server 9200), Alarm 2, Printf ''socket recvfrom enter\<newline>'' [], RecvFrom 3 BUFSIZ,
       Printf ''alarm\<newline>'' [], Printf ''socket timeout\<newline>'' [],
       Printf ''waiting\<newline>'' [], Read 0 BUFSIZ, Printf ''original  Data : %s'' [S ''b\<newline>''],
       SendTo 3 ''b\<newline>'' (local_server 9200), Alarm 2, Printf ''socket recvfrom enter\<newline>'' [], RecvFrom 3 BUFSIZ,
       Alarm 0, Printf ''echoed  Data : %s'' [S ''a\<newline>''],
       Printf ''waiting\<newline>'' [], Read 0 BUFSIZ] Map.empty)"
  by (rule alarm_client_late_answer) (simp_all add: udp_line_def BUFSIZ_def)

section \<open>Properties of the broadcast\<close>

definition is_quit :: "string \<Rightarrow> bool" where
  "is_quit t \<longleftrightarrow> take 4 t = ''quit''"

lemma strncmp_quit:
  assumes "NUL \<notin> set t"
  shows "strncmp_eq (t @ NUL # u) ''quit'' 4 \<longleftrightarrow> is_quit t"
proof -
  have "strncmp_eq (t @ NUL # u) ''quit'' 4 \<longleftrightarrow> take 4 (t @ NUL # u) = take 4 ''quit''"
    by (rule strncmp_eq_take) simp_all
  also have "\<dots> \<longleftrightarrow> is_quit t"
  proof (cases "4 \<le> length t")
    case True
    then show ?thesis by (simp add: is_quit_def)
  next
    case False
    then have n: "NUL \<in> set (take 4 (t @ NUL # u))"
      by (simp add: take_Cons')
    have "take 4 (t @ NUL # u) \<noteq> ''quit''"
    proof
      assume "take 4 (t @ NUL # u) = ''quit''"
      with n have "NUL \<in> set ''quit''" by metis
      then show False by simp
    qed
    moreover have "take 4 t \<noteq> ''quit''"
    proof
      assume "take 4 t = ''quit''"
      then have "length (take 4 t) = length ''quit''" by metis
      with False show False by simp
    qed
    ultimately show ?thesis
      by (simp add: is_quit_def)
  qed
  finally show ?thesis .
qed

lemma overlay_update: "length d < length buf \<Longrightarrow> (overlay buf 0 d)[length d := c] = d @ c # drop (Suc (length d)) buf"
  by (simp add: overlay_def upd_conv_take_nth_drop list_update_append)

text \<open>
  Broadcasting is end to end correct: a line typed at the sender is broadcast without its
  newline, and a reader that gets the datagram prints exactly that text with the sender's
  address; a text that starts with quit is still sent, and ends both programs.
\<close>

theorem broadcast_delivers:
  assumes "length t + 1 \<le> BUFSIZ" and "NUL \<notin> set t" and "length buf = BUFSIZ" and "length rbuf = BUFSIZ"
    and "0 \<le> k"
  shows "\<exists>buf' rbuf'.
    bcaster_iter sd a buf (st (data (t @ [CHR 0x0A]) # rc k # rs) tr fs) =
      (Val (if is_quit t then Stop () else Next buf'),
       st rs (tr @ [Printf ''Type broadcasting data : '' [], Read 0 BUFSIZ, SendTo sd t a]) fs) \<and>
    reader_iter rsd rbuf (st (dgram t me # rs') tr' fs') =
      (if is_quit t then (Val (Stop ()), st rs' (tr' @ [RecvFrom rsd BUFSIZ]) fs')
       else (Val (Next rbuf'), st rs' (tr' @ [RecvFrom rsd BUFSIZ,
         Printf ''Broadcated from %s [%s]\<newline>'' [S (inet_ntoa (sin_addr me)), S t]]) fs'))"
proof -
  have b: "(overlay buf 0 (t @ [CHR 0x0A]))[length t := NUL] = t @ NUL # drop (Suc (length t)) buf"
    using assms(1,3) by (simp add: overlay_def list_update_append)
  have r: "(overlay rbuf 0 t)[length t := NUL] = t @ NUL # drop (Suc (length t)) rbuf"
    using assms(1,4) by (simp add: overlay_update)
  have "length (t @ [CHR 0x0A]) \<le> BUFSIZ" using assms(1) by simp
  note got = got_simps(1) [OF this]
  show ?thesis
    using assms
    by (auto simp: bcaster_iter_def reader_iter_def rrecvfrom_def got b r strncmp_quit simp del: got_simps(1))
qed

theorem broadcast_delivers_witness:
  "\<exists>buf' rbuf'.
    bcaster_iter 3 no_addr (replicate BUFSIZ NUL) (st (data (''hi'' @ [CHR 0x0A]) # rc 2 # []) [] Map.empty) =
      (Val (if is_quit ''hi'' then Stop () else Next buf'),
       st [] ([] @ [Printf ''Type broadcasting data : '' [], Read 0 BUFSIZ, SendTo 3 ''hi'' no_addr]) Map.empty) \<and>
    reader_iter 4 (replicate BUFSIZ NUL) (st (dgram ''hi'' no_addr # []) [] Map.empty) =
      (if is_quit ''hi'' then (Val (Stop ()), st [] ([] @ [RecvFrom 4 BUFSIZ]) Map.empty)
       else (Val (Next rbuf'), st [] ([] @ [RecvFrom 4 BUFSIZ,
         Printf ''Broadcated from %s [%s]\<newline>'' [S (inet_ntoa (sin_addr no_addr)), S ''hi'']]) Map.empty))"
  by (rule broadcast_delivers) (simp_all add: BUFSIZ_def)

end
