(* ===== verification/CharDev.thy ===== *)
theory CharDev
  imports NetPrelude "HOL-Library.Signed_Division"
begin

text \<open>
  The kernel's registry of character devices, which every driver of the repository registers
  with (fs/char_dev.c and drivers/base/map.c of the vendored kernel): a hash table of chains of
  reserved number regions, ordered by major and minor, and the map from device numbers to the
  devices that \<open>open\<close> consults. Locks are not modelled: each operation runs under its mutex.
\<close>

section \<open>Kernel memory and errors\<close>

text \<open>
  \<open>kmallocs\<close> says which of the next allocations succeed (all of them once the list is used up),
  \<open>live\<close> counts the objects allocated and not freed.
\<close>

record kheap =
  kmallocs :: "bool list"
  live :: int

definition kmalloc :: "'a kheap_scheme \<Rightarrow> bool \<times> 'a kheap_scheme" where
  "kmalloc s = (case kmallocs s of
       [] \<Rightarrow> (True, s\<lparr>live := live s + 1\<rparr>)
     | b # bs \<Rightarrow> (b, s\<lparr>kmallocs := bs, live := (if b then live s + 1 else live s)\<rparr>))"

definition kfree :: "'a kheap_scheme \<Rightarrow> 'a kheap_scheme" where
  "kfree s = s\<lparr>live := live s - 1\<rparr>"

text \<open>An error number, or an access outside a table.\<close>

datatype kerror = Errno int | Oops

definition ENOMEM :: kerror where "ENOMEM = Errno (-12)"
definition EBUSY :: kerror where "EBUSY = Errno (-16)"
definition ENXIO :: kerror where "ENXIO = Errno (-6)"

section \<open>Device numbers\<close>

definition MKDEV :: "u32 \<Rightarrow> u32 \<Rightarrow> u32" where
  "MKDEV ma mi = push_bit 20 ma OR mi"

definition MAJOR :: "u32 \<Rightarrow> u32" where
  "MAJOR dev = drop_bit 20 dev"

definition MINOR :: "u32 \<Rightarrow> u32" where
  "MINOR dev = dev AND 0xfffff"

section \<open>State\<close>

text \<open>
  A set of file operations is known by the name of its table. \<open>cdev\<close> is the device
  \<open>register_chrdev\<close> created for the region.
\<close>

type_synonym fops = string

record region =
  major :: u32
  baseminor :: u32
  minorct :: u32
  rname :: string
  cdev :: "fops option"

text \<open>\<open>struct probe\<close>; the base probe of every chain finds no device.\<close>

record probe =
  pdev :: u32
  prange :: u32
  pdata :: "fops option"

record chardev = kheap +
  chrdevs :: "int \<Rightarrow> region list"
  probes :: "nat \<Rightarrow> probe list"

definition CHRDEV_MAJOR_HASH_SIZE :: int where "CHRDEV_MAJOR_HASH_SIZE = 255"

definition base_probe :: probe where
  "base_probe = \<lparr>pdev = 1, prange = - 1, pdata = None\<rparr>"

definition major_to_index :: "u32 \<Rightarrow> int" where
  "major_to_index ma = sint ma smod CHRDEV_MAJOR_HASH_SIZE"

section \<open>Regions\<close>

text \<open>\<open>for (i = ARRAY_SIZE(chrdevs)-1; i > 0; i--)\<close>: the highest empty chain but chain 0.\<close>

definition free_major :: "(int \<Rightarrow> region list) \<Rightarrow> int option" where
  "free_major tab = find (\<lambda>i. tab i = []) (rev [1..CHRDEV_MAJOR_HASH_SIZE - 1])"

text \<open>The search passes a region that lies before the new one.\<close>

definition passes :: "u32 \<Rightarrow> u32 \<Rightarrow> region \<Rightarrow> bool" where
  "passes ma base c \<longleftrightarrow> \<not> (major c > ma \<or>
     (major c = ma \<and> (baseminor c \<ge> base \<or> baseminor c + minorct c > base)))"

definition region_overlaps :: "u32 \<Rightarrow> u32 \<Rightarrow> region \<Rightarrow> bool" where
  "region_overlaps base ct c \<longleftrightarrow>
     (let old_min = sint (baseminor c); old_max = sint (baseminor c + minorct c - 1);
          new_min = sint base; new_max = sint (base + ct - 1)
      in (new_max \<ge> old_min \<and> new_max \<le> old_max) \<or> (new_min \<le> old_max \<and> new_min \<ge> old_min))"

definition insert_region :: "region \<Rightarrow> region list \<Rightarrow> region list option" where
  "insert_region cd chain =
     (let pre = takeWhile (passes (major cd) (baseminor cd)) chain;
          post = dropWhile (passes (major cd) (baseminor cd)) chain
      in case post of
           c # _ \<Rightarrow> if major c = major cd \<and> region_overlaps (baseminor cd) (minorct cd) c then None
                    else Some (pre @ cd # post)
         | [] \<Rightarrow> Some (pre @ [cd]))"

definition register_region :: "u32 \<Rightarrow> u32 \<Rightarrow> u32 \<Rightarrow> string \<Rightarrow> 'a chardev_scheme \<Rightarrow> (kerror + region) \<times> 'a chardev_scheme" where
  "register_region ma base ct name s0 =
     (let (ok, s) = kmalloc s0 in
      if \<not> ok then (Inl ENOMEM, s) else
      case (if ma = 0 then map_option word_of_int (free_major (chrdevs s)) else Some ma) of
        None \<Rightarrow> (Inl EBUSY, kfree s)
      | Some ma \<Rightarrow>
          let cd = \<lparr>major = ma, baseminor = base, minorct = ct, rname = take 64 name, cdev = None\<rparr>;
              i = major_to_index ma
          in if i < 0 then (Inl Oops, s) else
             case insert_region cd (chrdevs s i) of
               None \<Rightarrow> (Inl EBUSY, kfree s)
             | Some chain \<Rightarrow> (Inr cd, s\<lparr>chrdevs := (chrdevs s)(i := chain)\<rparr>))"

definition same_region :: "u32 \<Rightarrow> u32 \<Rightarrow> u32 \<Rightarrow> region \<Rightarrow> bool" where
  "same_region ma base ct c \<longleftrightarrow> major c = ma \<and> baseminor c = base \<and> minorct c = ct"

fun remove_first :: "('b \<Rightarrow> bool) \<Rightarrow> 'b list \<Rightarrow> 'b list" where
  "remove_first P [] = []"
| "remove_first P (x # xs) = (if P x then xs else x # remove_first P xs)"

definition unregister_region :: "u32 \<Rightarrow> u32 \<Rightarrow> u32 \<Rightarrow> 'a chardev_scheme \<Rightarrow> region option \<times> 'a chardev_scheme" where
  "unregister_region ma base ct s =
     (let i = major_to_index ma
      in (find (same_region ma base ct) (chrdevs s i),
          s\<lparr>chrdevs := (chrdevs s)(i := remove_first (same_region ma base ct) (chrdevs s i))\<rparr>))"

text \<open>\<open>kfree(__unregister_chrdev_region(...))\<close>; \<open>kfree(NULL)\<close> does nothing.\<close>

definition drop_region :: "u32 \<Rightarrow> u32 \<Rightarrow> u32 \<Rightarrow> 'a chardev_scheme \<Rightarrow> 'a chardev_scheme" where
  "drop_region ma base ct s =
     (case unregister_region ma base ct s of (None, s) \<Rightarrow> s | (Some _, s) \<Rightarrow> kfree s)"

section \<open>Ranges that span majors\<close>

text \<open>
  The loops over the majors of a range, from \<open>n\<close> up to \<open>to\<close>. The first argument bounds the
  number of iterations.
\<close>

definition next_dev :: "u32 \<Rightarrow> u32 \<Rightarrow> u32" where
  "next_dev n to = (let nxt = MKDEV (MAJOR n + 1) 0 in if nxt > to then to else nxt)"

text \<open>The cleanup loop does not cut \<open>next\<close> at \<open>to\<close>.\<close>

fun rollback :: "nat \<Rightarrow> u32 \<Rightarrow> u32 \<Rightarrow> 'a chardev_scheme \<Rightarrow> 'a chardev_scheme" where
  "rollback 0 n to s = s"
| "rollback (Suc k) n to s =
     (if n < to
      then (let nxt = MKDEV (MAJOR n + 1) 0 in rollback k nxt to (drop_region (MAJOR n) (MINOR n) (nxt - n) s))
      else s)"

fun register_loop :: "nat \<Rightarrow> u32 \<Rightarrow> u32 \<Rightarrow> u32 \<Rightarrow> string \<Rightarrow> 'a chardev_scheme \<Rightarrow> (kerror + unit) \<times> 'a chardev_scheme" where
  "register_loop 0 from n to name s = (Inl Oops, s)"
| "register_loop (Suc k) from n to name s =
     (if n < to
      then (let nxt = next_dev n to in
            case register_region (MAJOR n) (MINOR n) (nxt - n) name s of
              (Inr _, s) \<Rightarrow> register_loop k from nxt to name s
            | (Inl e, s) \<Rightarrow> (Inl e, rollback 4096 from n s))
      else (Inr (), s))"

definition register_chrdev_region :: "u32 \<Rightarrow> u32 \<Rightarrow> string \<Rightarrow> 'a chardev_scheme \<Rightarrow> (kerror + unit) \<times> 'a chardev_scheme" where
  "register_chrdev_region from count name s = register_loop 4097 from from (from + count) name s"

fun unregister_loop :: "nat \<Rightarrow> u32 \<Rightarrow> u32 \<Rightarrow> 'a chardev_scheme \<Rightarrow> 'a chardev_scheme" where
  "unregister_loop 0 n to s = s"
| "unregister_loop (Suc k) n to s =
     (if n < to
      then (let nxt = next_dev n to in unregister_loop k nxt to (drop_region (MAJOR n) (MINOR n) (nxt - n) s))
      else s)"

definition unregister_chrdev_region :: "u32 \<Rightarrow> u32 \<Rightarrow> 'a chardev_scheme \<Rightarrow> 'a chardev_scheme" where
  "unregister_chrdev_region from count s = unregister_loop 4097 from (from + count) s"

definition alloc_chrdev_region :: "u32 \<Rightarrow> u32 \<Rightarrow> string \<Rightarrow> 'a chardev_scheme \<Rightarrow> (kerror + u32) \<times> 'a chardev_scheme" where
  "alloc_chrdev_region base count name s =
     (case register_region 0 base count name s of
        (Inl e, s) \<Rightarrow> (Inl e, s)
      | (Inr cd, s) \<Rightarrow> (Inr (MKDEV (major cd) (baseminor cd)), s))"

section \<open>The device map\<close>

definition span :: "u32 \<Rightarrow> u32 \<Rightarrow> nat" where
  "span dev rng = (let n = MAJOR (dev + rng - 1) - MAJOR dev + 1 in if n > 255 then 255 else unat n)"

definition insert_probe :: "probe \<Rightarrow> probe list \<Rightarrow> probe list" where
  "insert_probe p chain = takeWhile (\<lambda>q. prange q < prange p) chain @ p # dropWhile (\<lambda>q. prange q < prange p) chain"

definition chain_of :: "u32 \<Rightarrow> nat \<Rightarrow> nat" where
  "chain_of dev i = (unat (MAJOR dev) + i) mod 255"

definition kobj_map :: "u32 \<Rightarrow> u32 \<Rightarrow> fops \<Rightarrow> 'a chardev_scheme \<Rightarrow> (kerror + unit) \<times> 'a chardev_scheme" where
  "kobj_map dev rng ops s0 =
     (let (ok, s) = kmalloc s0 in
      if \<not> ok then (Inl ENOMEM, s)
      else (Inr (), s\<lparr>probes := fold (\<lambda>i tab. tab(chain_of dev i :=
              insert_probe \<lparr>pdev = dev, prange = rng, pdata = Some ops\<rparr> (tab (chain_of dev i))))
            [0..<span dev rng] (probes s)\<rparr>))"

definition same_probe :: "u32 \<Rightarrow> u32 \<Rightarrow> probe \<Rightarrow> bool" where
  "same_probe dev rng p \<longleftrightarrow> pdev p = dev \<and> prange p = rng"

text \<open>The block of probes is freed if one of the chains had one.\<close>

definition kobj_unmap :: "u32 \<Rightarrow> u32 \<Rightarrow> 'a chardev_scheme \<Rightarrow> 'a chardev_scheme" where
  "kobj_unmap dev rng s =
     (let found = (\<exists>i \<in> set [0..<span dev rng]. find (same_probe dev rng) (probes s (chain_of dev i)) \<noteq> None);
          s = s\<lparr>probes := fold (\<lambda>i tab. tab(chain_of dev i :=
              remove_first (same_probe dev rng) (tab (chain_of dev i)))) [0..<span dev rng] (probes s)\<rparr>
      in if found then kfree s else s)"

text \<open>
  One walk over a chain: the first probe that covers the number and is narrower than the best
  so far. A probe that yields no device starts the walk again with that bound.
\<close>

fun find_probe :: "u32 \<Rightarrow> u32 \<Rightarrow> probe list \<Rightarrow> probe option" where
  "find_probe dev best [] = None"
| "find_probe dev best (p # ps) =
     (if pdev p > dev \<or> pdev p + prange p - 1 < dev then find_probe dev best ps
      else if prange p - 1 \<ge> best then None
      else Some p)"

lemma find_probe_best: "find_probe dev best ps = Some p \<Longrightarrow> prange p - 1 < best"
  by (induction ps) (auto split: if_splits)

function lookup_chain :: "u32 \<Rightarrow> u32 \<Rightarrow> probe list \<Rightarrow> fops option" where
  "lookup_chain dev best ps =
     (case find_probe dev best ps of
        None \<Rightarrow> None
      | Some p \<Rightarrow> (case pdata p of Some ops \<Rightarrow> Some ops | None \<Rightarrow> lookup_chain dev (prange p - 1) ps))"
  by pat_completeness auto
termination
  by (relation "measure (\<lambda>(dev, best, ps). unat best)") (auto dest: find_probe_best simp: word_less_nat_alt)

declare lookup_chain.simps [simp del]

definition kobj_lookup :: "u32 \<Rightarrow> 'a chardev_scheme \<Rightarrow> fops option" where
  "kobj_lookup dev s = lookup_chain dev (- 1) (probes s (unat (MAJOR dev) mod 255))"

section \<open>Devices\<close>

definition cdev_add :: "fops \<Rightarrow> u32 \<Rightarrow> u32 \<Rightarrow> 'a chardev_scheme \<Rightarrow> (kerror + unit) \<times> 'a chardev_scheme" where
  "cdev_add ops dev count s = kobj_map dev count ops s"

text \<open>\<open>cdev_del\<close>, with the release of a device that \<open>cdev_alloc\<close> made.\<close>

definition cdev_del :: "bool \<Rightarrow> u32 \<Rightarrow> u32 \<Rightarrow> 'a chardev_scheme \<Rightarrow> 'a chardev_scheme" where
  "cdev_del dynamic dev count s = (let s = kobj_unmap dev count s in if dynamic then kfree s else s)"

definition set_cdev :: "fops \<Rightarrow> region \<Rightarrow> region list \<Rightarrow> region list" where
  "set_cdev ops cd chain = map (\<lambda>c. if c = cd then c\<lparr>cdev := Some ops\<rparr> else c) chain"

definition register_chrdev :: "u32 \<Rightarrow> string \<Rightarrow> fops \<Rightarrow> 'a chardev_scheme \<Rightarrow> (kerror + int) \<times> 'a chardev_scheme" where
  "register_chrdev ma name ops s =
     (case register_region ma 0 256 name s of
        (Inl e, s) \<Rightarrow> (Inl e, s)
      | (Inr cd, s) \<Rightarrow>
          (case kmalloc s of
             (False, s) \<Rightarrow> (Inl ENOMEM, drop_region (major cd) 0 256 s)
           | (True, s) \<Rightarrow>
               (case cdev_add ops (MKDEV (major cd) 0) 256 s of
                  (Inl e, s) \<Rightarrow> (Inl e, drop_region (major cd) 0 256 (kfree s))
                | (Inr _, s) \<Rightarrow>
                    let i = major_to_index (major cd) in
                    (Inr (if ma \<noteq> 0 then 0 else uint (major cd)),
                     s\<lparr>chrdevs := (chrdevs s)(i := set_cdev ops cd (chrdevs s i))\<rparr>))))"

definition unregister_chrdev :: "u32 \<Rightarrow> 'a chardev_scheme \<Rightarrow> 'a chardev_scheme" where
  "unregister_chrdev ma s =
     (case unregister_region ma 0 256 s of
        (None, s) \<Rightarrow> s
      | (Some cd, s) \<Rightarrow>
          kfree (if cdev cd \<noteq> None then cdev_del True (MKDEV ma 0) 256 s else s))"

text \<open>
  \<open>chrdev_open\<close>: the device found for an inode is remembered in it; then the driver's own open
  runs, given here as the function \<open>open_fn\<close> of the operations table.
\<close>

definition chrdev_open :: "(fops \<Rightarrow> int) \<Rightarrow> u32 \<Rightarrow> fops option \<Rightarrow> 'a chardev_scheme \<Rightarrow> (kerror + int) \<times> fops option" where
  "chrdev_open open_fn rdev i_cdev s =
     (case (case i_cdev of Some p \<Rightarrow> Some p | None \<Rightarrow> kobj_lookup rdev s) of
        None \<Rightarrow> (Inl ENXIO, None)
      | Some p \<Rightarrow> (let ret = open_fn p in if ret \<noteq> 0 then (Inl (Errno ret), Some p) else (Inr ret, Some p)))"

section \<open>The order of a chain\<close>

text \<open>
  A proper region is not empty and stays inside the minors of its major. The regions of a chain
  are in order: by major, and within a major one ends before the next begins.
\<close>

definition proper :: "region \<Rightarrow> bool" where
  "proper c \<longleftrightarrow> 0 < minorct c \<and> uint (baseminor c) + uint (minorct c) \<le> 2 ^ 20"

definition before :: "region \<Rightarrow> region \<Rightarrow> bool" where
  "before a b \<longleftrightarrow> major a < major b \<or>
     (major a = major b \<and> uint (baseminor a) + uint (minorct a) \<le> uint (baseminor b))"

definition ordered :: "region list \<Rightarrow> bool" where
  "ordered chain \<longleftrightarrow> sorted_wrt before chain \<and> (\<forall>c \<in> set chain. proper c)"

definition minors :: "region \<Rightarrow> int set" where
  "minors c = {uint (baseminor c) ..< uint (baseminor c) + uint (minorct c)}"

text \<open>The new region reaches beyond the old one on both sides.\<close>

definition encloses :: "region \<Rightarrow> region \<Rightarrow> bool" where
  "encloses new old \<longleftrightarrow> major old = major new \<and> uint (baseminor new) < uint (baseminor old) \<and>
     uint (baseminor old) + uint (minorct old) < uint (baseminor new) + uint (minorct new)"

lemma uint_plus_small:
  "uint (a :: u32) + uint b \<le> 2 ^ 20 \<Longrightarrow> uint (a + b) = uint a + uint b"
  by (subst uint_plus_if') simp

lemma sint_small: "uint (a :: u32) < 2 ^ 31 \<Longrightarrow> sint a = uint a"
  by (simp only: sint_uint) (rule signed_take_bit_int_eq_self, auto intro: order_trans [of _ 0])

lemma proper_bounds:
  assumes "proper c"
  shows "uint (baseminor c + minorct c) = uint (baseminor c) + uint (minorct c)"
    and "sint (baseminor c) = uint (baseminor c)"
    and "sint (baseminor c + minorct c - 1) = uint (baseminor c) + uint (minorct c) - 1"
    and "0 < uint (minorct c)"
proof -
  let ?b = "uint (baseminor c)" and ?n = "uint (minorct c)"
  have n: "0 < ?n" "?b + ?n \<le> 2 ^ 20"
    using assms by (auto simp: proper_def word_less_def)
  have b: "0 \<le> ?b" by simp
  show s: "uint (baseminor c + minorct c) = ?b + ?n"
    using n by (simp add: uint_plus_small)
  have "uint (baseminor c + minorct c - 1) = ?b + ?n - 1"
    using n b s by (subst uint_sub_if') (auto intro: add_increasing)
  moreover from this have "uint (baseminor c + minorct c - 1) < 2 ^ 31" using n by simp
  ultimately show "sint (baseminor c + minorct c - 1) = ?b + ?n - 1"
    by (simp only: sint_small)
  have "?b < 2 ^ 31" using n by simp
  then show "sint (baseminor c) = ?b" by (rule sint_small)
  show "0 < ?n" by (rule n)
qed

lemma passes_proper:
  assumes "proper c" "proper cd"
  shows "passes (major cd) (baseminor cd) c \<longleftrightarrow> before c cd"
proof -
  from proper_bounds(1,4) [OF assms(1)] show ?thesis
    by (auto simp: passes_def before_def word_le_def word_less_def word_uint_eq_iff)
qed

lemma region_overlaps_proper:
  assumes "proper c" "proper cd" "major c = major cd"
  shows "region_overlaps (baseminor cd) (minorct cd) c \<longleftrightarrow>
    minors c \<inter> minors cd \<noteq> {} \<and> \<not> encloses cd c"
proof -
  have "(x \<in> minors c \<and> x \<in> minors cd) \<longleftrightarrow> (uint (baseminor c) \<le> x \<and> x < uint (baseminor c) + uint (minorct c)
     \<and> uint (baseminor cd) \<le> x \<and> x < uint (baseminor cd) + uint (minorct cd))" for x
    by (auto simp: minors_def)
  then have inter: "minors c \<inter> minors cd \<noteq> {} \<longleftrightarrow>
      uint (baseminor c) < uint (baseminor cd) + uint (minorct cd) \<and>
      uint (baseminor cd) < uint (baseminor c) + uint (minorct c)"
    using proper_bounds(4) [OF assms(1)] proper_bounds(4) [OF assms(2)]
    by (auto simp: minors_def)
  show ?thesis
    unfolding inter using assms(3) proper_bounds [OF assms(1)] proper_bounds [OF assms(2)]
    by (auto simp: region_overlaps_def Let_def encloses_def)
qed

lemma before_trans: "before a b \<Longrightarrow> proper b \<Longrightarrow> before b c \<Longrightarrow> before a c"
  using proper_bounds(4) [of b] by (auto simp: before_def)

text \<open>
  Inserting in a chain that is in order: the code refuses the region just when it shares a minor
  with one of the chain, unless it encloses the region it meets.
\<close>

lemma dropWhile_unpassed:
  assumes "ordered chain" "proper cd" "dropWhile (passes (major cd) (baseminor cd)) chain = c # post"
  shows "\<not> before c cd" "\<forall>d \<in> set post. before c d" "proper c" "c \<in> set chain"
    "\<forall>d \<in> set (takeWhile (passes (major cd) (baseminor cd)) chain). before d cd"
    "\<forall>d \<in> set post. proper d"
proof -
  let ?P = "passes (major cd) (baseminor cd)"
  have split: "chain = takeWhile ?P chain @ c # post"
    using assms(3) takeWhile_dropWhile_id [of ?P chain] by simp
  then have srt: "sorted_wrt before (takeWhile ?P chain @ c # post)" and pr: "\<forall>d \<in> set chain. proper d"
    using assms(1) by (auto simp: ordered_def)
  from srt show "\<forall>d \<in> set post. before c d" by (simp add: sorted_wrt_append)
  show mem: "c \<in> set chain" by (subst split) simp
  with pr show p: "proper c" by blast
  have "\<not> ?P c" using assms(3) by (simp add: dropWhile_eq_Cons_conv)
  then show "\<not> before c cd" by (simp add: passes_proper [OF p assms(2)])
  show "\<forall>d \<in> set (takeWhile ?P chain). before d cd"
  proof
    fix d assume d: "d \<in> set (takeWhile ?P chain)"
    then have "?P d" "d \<in> set chain" by (auto dest: set_takeWhileD)
    then show "before d cd" using passes_proper [OF _ assms(2)] pr by blast
  qed
  show "\<forall>d \<in> set post. proper d" using pr by (subst (asm) split) simp
qed

lemma dropWhile_all_passed:
  assumes "ordered chain" "proper cd" "dropWhile (passes (major cd) (baseminor cd)) chain = []"
  shows "\<forall>d \<in> set chain. before d cd" "takeWhile (passes (major cd) (baseminor cd)) chain = chain"
  using assms passes_proper [OF _ assms(2)] takeWhile_dropWhile_id [of "passes (major cd) (baseminor cd)" chain]
  by (auto simp: ordered_def dropWhile_eq_Nil_conv)

lemma before_disjoint: "before d cd \<Longrightarrow> major d = major cd \<Longrightarrow> minors d \<inter> minors cd = {}"
  by (auto simp: before_def minors_def)

lemma not_before:
  assumes "proper c" "proper cd" "\<not> before c cd" "major c = major cd \<Longrightarrow> minors c \<inter> minors cd = {}"
  shows "before cd c"
proof (cases "major c = major cd")
  case True
  then have "\<not> region_overlaps (baseminor cd) (minorct cd) c \<and> \<not> encloses cd c"
    using assms proper_bounds(4) [OF assms(1)] proper_bounds(4) [OF assms(2)]
    by (auto simp: region_overlaps_proper encloses_def minors_def disjoint_iff)
  then show ?thesis
    using assms(3) True proper_bounds [OF assms(1)] proper_bounds [OF assms(2)]
    by (auto simp: before_def region_overlaps_def Let_def encloses_def)
next
  case False
  then show ?thesis using assms(3) by (auto simp: before_def)
qed

lemma insert_region_Some:
  assumes o: "ordered chain" and p: "proper cd"
    and ins: "insert_region cd chain = Some chain'"
    and enc: "\<forall>c \<in> set chain. \<not> encloses cd c"
  shows "ordered chain'" "set chain' = insert cd (set chain)"
    "\<forall>c \<in> set chain. major c = major cd \<longrightarrow> minors c \<inter> minors cd = {}"
proof -
  let ?P = "passes (major cd) (baseminor cd)"
  have pr: "\<forall>d \<in> set chain. proper d" using o by (simp add: ordered_def)
  have tw: "sorted_wrt before (takeWhile ?P chain)"
    using o takeWhile_dropWhile_id [of ?P chain] by (metis ordered_def sorted_wrt_append)
  consider (Nil) "dropWhile ?P chain = []"
    | (Cons) c post where "dropWhile ?P chain = c # post" by (cases "dropWhile ?P chain") auto
  then have "ordered chain' \<and> set chain' = insert cd (set chain) \<and>
    (\<forall>c \<in> set chain. major c = major cd \<longrightarrow> minors c \<inter> minors cd = {})"
  proof cases
    case Nil
    note all = dropWhile_all_passed [OF o p Nil]
    have "chain' = chain @ [cd]" using ins Nil all(2) by (simp add: insert_region_def)
    then show ?thesis using o p all before_disjoint by (auto simp: ordered_def sorted_wrt_append)
  next
    case (Cons c post)
    note d = dropWhile_unpassed [OF o p Cons]
    have no: "\<not> (major c = major cd \<and> region_overlaps (baseminor cd) (minorct cd) c)"
      and ch: "chain' = takeWhile ?P chain @ cd # c # post"
      using ins Cons by (auto simp: insert_region_def split: if_splits)
    have split: "chain = takeWhile ?P chain @ c # post"
      using Cons takeWhile_dropWhile_id [of ?P chain] by simp
    have cdc: "before cd c"
      by (rule not_before [OF d(3) p d(1)])
        (use no enc d(4) region_overlaps_proper [OF d(3) p] in blast)
    then have rest: "\<forall>e \<in> set post. before cd e"
      using d(2,3) before_trans by blast
    have "sorted_wrt before chain'"
      using o d cdc rest tw unfolding ch
      by (subst (asm) (1) ordered_def, subst (asm) (1) split) (auto simp: sorted_wrt_append)
    moreover have st: "set chain' = insert cd (set chain)"
      unfolding ch by (subst (2) split) auto
    moreover have "\<forall>e \<in> set chain. major e = major cd \<longrightarrow> minors e \<inter> minors cd = {}"
    proof (intro ballI impI)
      fix e assume "e \<in> set chain" and m: "major e = major cd"
      then consider "e \<in> set (takeWhile ?P chain)" | "e = c" | "e \<in> set post"
        by (subst (asm) split) auto
      then show "minors e \<inter> minors cd = {}"
        using d(5) cdc rest before_disjoint m by cases (metis Int_commute)+
    qed
    ultimately show ?thesis using pr p by (auto simp: ordered_def)
  qed
  then show "ordered chain'" "set chain' = insert cd (set chain)"
    "\<forall>c \<in> set chain. major c = major cd \<longrightarrow> minors c \<inter> minors cd = {}" by auto
qed

lemma insert_region_None:
  assumes o: "ordered chain" and p: "proper cd" and ins: "insert_region cd chain = None"
  shows "\<exists>c \<in> set chain. major c = major cd \<and> minors c \<inter> minors cd \<noteq> {}"
proof -
  from ins obtain c post where c: "dropWhile (passes (major cd) (baseminor cd)) chain = c # post"
    "major c = major cd" "region_overlaps (baseminor cd) (minorct cd) c"
    by (auto simp: insert_region_def Let_def split: list.splits if_splits)
  note d = dropWhile_unpassed [OF o p c(1)]
  show ?thesis using c d(3,4) region_overlaps_proper [OF d(3) p c(2)] by blast
qed

section \<open>The table of regions\<close>

definition regions :: "'a chardev_scheme \<Rightarrow> region set" where
  "regions s = (\<Union>i. set (chrdevs s i))"

definition registry_ok :: "'a chardev_scheme \<Rightarrow> bool" where
  "registry_ok s \<longleftrightarrow> (\<forall>i. ordered (chrdevs s i) \<and>
     (\<forall>c \<in> set (chrdevs s i). major c < 4096 \<and> major_to_index (major c) = i))"

lemma registry_okD:
  "registry_ok s \<Longrightarrow> ordered (chrdevs s i)"
  "registry_ok s \<Longrightarrow> c \<in> set (chrdevs s i) \<Longrightarrow> major_to_index (major c) = i"
  "registry_ok s \<Longrightarrow> c \<in> set (chrdevs s i) \<Longrightarrow> major c < 4096"
  by (auto simp: registry_ok_def)

lemma regions_iff:
  "registry_ok s \<Longrightarrow> c \<in> regions s \<longleftrightarrow> c \<in> set (chrdevs s (major_to_index (major c)))"
  by (auto simp: regions_def dest: registry_okD)

lemma smod_nonneg: "0 \<le> x \<Longrightarrow> 0 < k \<Longrightarrow> x smod k = x mod (k :: int)"
  by (cases "x = 0") (simp_all add: signed_modulo_int_def)

lemma major_to_index:
  assumes "ma < 4096"
  shows "major_to_index ma = uint ma mod 255"
proof -
  have "uint ma < 2 ^ 31" using assms by (simp add: word_less_def)
  then show ?thesis
    by (simp only: major_to_index_def CHRDEV_MAJOR_HASH_SIZE_def sint_small) (simp add: smod_nonneg)
qed

lemma kmalloc_simps [simp]:
  "chrdevs (snd (kmalloc s)) = chrdevs s" "probes (snd (kmalloc s)) = probes s"
  "chrdevs (kfree s) = chrdevs s" "probes (kfree s) = probes s"
  "live (kfree s) = live s - 1" "kmallocs (kfree s) = kmallocs s"
  by (auto simp: kmalloc_def kfree_def split: list.splits)

lemma kmalloc_live: "live (snd (kmalloc s)) = live s + (if fst (kmalloc s) then 1 else 0)"
  by (auto simp: kmalloc_def split: list.splits)

lemma find_SomeD: "find P xs = Some x \<Longrightarrow> P x \<and> x \<in> set xs"
  by (induction xs) (auto split: if_splits)

lemma free_major_Some:
  assumes "free_major tab = Some i"
  shows "tab i = []" "1 \<le> i" "i \<le> 254"
  using find_SomeD [OF assms [unfolded free_major_def]] by (auto simp: CHRDEV_MAJOR_HASH_SIZE_def)

text \<open>The major a call reserves: its own, or the highest free one.\<close>

definition major_for :: "u32 \<Rightarrow> 'a chardev_scheme \<Rightarrow> u32 option" where
  "major_for ma s = (if ma = 0 then map_option word_of_int (free_major (chrdevs s)) else Some ma)"

definition new_region :: "u32 \<Rightarrow> u32 \<Rightarrow> u32 \<Rightarrow> string \<Rightarrow> region" where
  "new_region ma base ct name = \<lparr>major = ma, baseminor = base, minorct = ct, rname = take 64 name, cdev = None\<rparr>"

lemma new_region_simps [simp]:
  "major (new_region ma base ct name) = ma" "baseminor (new_region ma base ct name) = base"
  "minorct (new_region ma base ct name) = ct" "cdev (new_region ma base ct name) = None"
  by (simp_all add: new_region_def)

lemma major_for_bound: "major_for ma s = Some m \<Longrightarrow> ma < 4096 \<Longrightarrow> m < 4096"
  using free_major_Some(2,3) [of "chrdevs s"]
  by (force simp: major_for_def word_less_def uint_word_of_int split: if_splits)

lemma major_for_chain:
  assumes "major_for ma s = Some m"
  shows "m = ma \<or> chrdevs s (major_to_index m) = []"
proof (cases "ma = 0")
  case True
  then obtain i where i: "free_major (chrdevs s) = Some i" "m = word_of_int i"
    using assms by (auto simp: major_for_def)
  note f = free_major_Some [OF i(1)]
  have "uint m = i" using f by (simp add: i(2) uint_word_of_int)
  moreover from this have "m < 4096" using f by (simp add: word_less_def)
  ultimately have "major_to_index m = i" using f by (simp add: major_to_index)
  then show ?thesis using f by simp
qed (use assms in \<open>simp add: major_for_def\<close>)

lemma register_region_cases:
  assumes "ma < 4096"
  obtains (nomem) "register_region ma base ct name s = (Inl ENOMEM, snd (kmalloc s))" "\<not> fst (kmalloc s)"
  | (full) "register_region ma base ct name s = (Inl EBUSY, kfree (snd (kmalloc s)))" "fst (kmalloc s)"
      "major_for ma s = None"
  | (busy) m where "register_region ma base ct name s = (Inl EBUSY, kfree (snd (kmalloc s)))"
      "fst (kmalloc s)" "major_for ma s = Some m" "m < 4096"
      "insert_region (new_region m base ct name) (chrdevs s (major_to_index m)) = None"
  | (ok) m chain where "fst (kmalloc s)" "major_for ma s = Some m" "m < 4096"
      "insert_region (new_region m base ct name) (chrdevs s (major_to_index m)) = Some chain"
      "register_region ma base ct name s = (Inr (new_region m base ct name),
         snd (kmalloc s)\<lparr>chrdevs := (chrdevs s)(major_to_index m := chain)\<rparr>)"
proof -
  have nn: "\<not> major_to_index m < 0" if "m < 4096" for m
    using that by (simp add: major_to_index)
  have mf: "(if ma = 0 then map_option word_of_int (free_major (chrdevs (snd (kmalloc s)))) else Some ma) = major_for ma s"
    by (simp add: major_for_def)
  note eq = register_region_def [of ma base ct name s, unfolded Let_def case_prod_beta mf new_region_def [symmetric]]
  show thesis
  proof (cases "fst (kmalloc s)")
    case False
    then show thesis by (intro nomem) (simp_all add: eq)
  next
    case True
    show thesis
    proof (cases "major_for ma s")
      case None
      with True show thesis by (intro full) (simp_all add: eq)
    next
      case (Some m)
      note b = major_for_bound [OF Some assms]
      show thesis
        by (cases "insert_region (new_region m base ct name) (chrdevs s (major_to_index m))")
           (use True Some b nn [OF b] in \<open>auto simp: eq intro: busy ok\<close>)
    qed
  qed
qed

text \<open>What a caller asks of the numbers it wants: a proper range that encloses no reserved region.\<close>

definition fits :: "u32 \<Rightarrow> u32 \<Rightarrow> u32 \<Rightarrow> 'a chardev_scheme \<Rightarrow> bool" where
  "fits ma base ct s \<longleftrightarrow> proper (new_region ma base ct []) \<and>
     (\<forall>c \<in> regions s. \<not> encloses (new_region ma base ct []) c)"

lemma fits_new_region:
  "fits ma base ct s \<Longrightarrow> proper (new_region m base ct name)"
  "fits ma base ct s \<Longrightarrow> c \<in> regions s \<Longrightarrow> \<not> encloses (new_region ma base ct name) c"
  by (auto simp: fits_def proper_def encloses_def)

lemma register_region_ok:
  assumes ok: "registry_ok s" and b: "ma < 4096" and fit: "fits ma base ct s"
    and reg: "register_region ma base ct name s = (Inr cd, s')"
  shows "registry_ok s'" "regions s' = insert cd (regions s)" "live s' = live s + 1"
    "\<exists>m. major_for ma s = Some m \<and> m < 4096 \<and> cd = new_region m base ct name"
    "\<forall>c \<in> regions s. major c = major cd \<longrightarrow> minors c \<inter> minors cd = {}"
proof -
  show "\<exists>m. major_for ma s = Some m \<and> m < 4096 \<and> cd = new_region m base ct name"
    using reg by (cases rule: register_region_cases [OF b, of base ct name s]) auto
  from reg obtain m chain where m: "major_for ma s = Some m" "m < 4096" "cd = new_region m base ct name"
      and ins: "insert_region cd (chrdevs s (major_to_index m)) = Some chain"
      and s': "s' = snd (kmalloc s)\<lparr>chrdevs := (chrdevs s)(major_to_index m := chain)\<rparr>" "fst (kmalloc s)"
    by (cases rule: register_region_cases [OF b, of base ct name s]) auto
  note o = registry_okD(1) [OF ok, of "major_to_index m"]
  have p: "proper cd" using fits_new_region(1) [OF fit] m(3) by simp
  have e: "\<forall>c \<in> set (chrdevs s (major_to_index m)). \<not> encloses cd c"
    using major_for_chain [OF m(1)] fits_new_region(2) [OF fit] m(3) by (fastforce simp: regions_def)
  note ch = insert_region_Some [OF o p ins e]
  show "registry_ok s'"
    unfolding registry_ok_def s'(1) using ok ch(1,2) m(2,3) by (auto simp: registry_ok_def)
  show "regions s' = insert cd (regions s)"
    unfolding regions_def s'(1) using ch(2) by (auto split: if_splits)
  show "live s' = live s + 1" using s' kmalloc_live [of s] by simp
  show "\<forall>c \<in> regions s. major c = major cd \<longrightarrow> minors c \<inter> minors cd = {}"
    using ch(3) m(3) by (auto simp: regions_iff [OF ok])
qed

lemma register_region_fails:
  assumes ok: "registry_ok s" and b: "ma < 4096" and fit: "fits ma base ct s"
    and reg: "register_region ma base ct name s = (Inl e, s')"
  shows "chrdevs s' = chrdevs s" "probes s' = probes s" "live s' = live s"
    "e = ENOMEM \<and> \<not> fst (kmalloc s) \<or>
     e = EBUSY \<and> (ma = 0 \<and> free_major (chrdevs s) = None \<or>
       (\<exists>c \<in> regions s. major_for ma s = Some (major c) \<and>
          minors c \<inter> minors (new_region ma base ct name) \<noteq> {}))"
proof -
  show "chrdevs s' = chrdevs s" "probes s' = probes s" "live s' = live s"
    using reg kmalloc_live [of s]
    by (cases rule: register_region_cases [OF b, of base ct name s]; auto)+
  show "e = ENOMEM \<and> \<not> fst (kmalloc s) \<or>
     e = EBUSY \<and> (ma = 0 \<and> free_major (chrdevs s) = None \<or>
       (\<exists>c \<in> regions s. major_for ma s = Some (major c) \<and>
          minors c \<inter> minors (new_region ma base ct name) \<noteq> {}))"
    using b
  proof (cases rule: register_region_cases [where base = base and ct = ct and name = name and s = s])
    case nomem
    then show ?thesis using reg by simp
  next
    case full
    then show ?thesis using reg by (auto simp: major_for_def split: if_splits)
  next
    case (busy m)
    obtain c where "c \<in> set (chrdevs s (major_to_index m))" "major c = m"
      "minors c \<inter> minors (new_region m base ct name) \<noteq> {}"
      using insert_region_None [OF registry_okD(1) [OF ok] fits_new_region(1) [OF fit] busy(5)] by auto
    moreover have "minors (new_region m base ct name) = minors (new_region ma base ct name)"
      by (simp add: minors_def)
    ultimately show ?thesis using busy reg by (auto simp: regions_def)
  next
    case ok
    then show ?thesis using reg by simp
  qed
qed

text \<open>
  C2. The registry of device numbers. While the regions are in order and disjoint, a request for
  a proper range of minors that encloses no reserved region either keeps the registry so and adds
  exactly the requested region, which shares no number with the others; or it changes nothing and
  frees what it allocated, and then memory was short (\<open>ENOMEM\<close>), no major was free, or a number
  of the range was taken (\<open>EBUSY\<close>).
\<close>

theorem register_region_exact:
  assumes "registry_ok s" "ma < 4096" "fits ma base ct s"
  shows "case register_region ma base ct name s of
     (Inr cd, s') \<Rightarrow> registry_ok s' \<and> regions s' = insert cd (regions s) \<and> live s' = live s + 1 \<and>
        major_for ma s = Some (major cd) \<and> cd = new_region (major cd) base ct name \<and>
        (\<forall>c \<in> regions s. major c = major cd \<longrightarrow> minors c \<inter> minors cd = {})
   | (Inl e, s') \<Rightarrow> chrdevs s' = chrdevs s \<and> probes s' = probes s \<and> live s' = live s \<and>
        (e = ENOMEM \<and> \<not> fst (kmalloc s) \<or>
         e = EBUSY \<and> (ma = 0 \<and> free_major (chrdevs s) = None \<or>
           (\<exists>c \<in> regions s. major_for ma s = Some (major c) \<and>
              minors c \<inter> minors (new_region ma base ct name) \<noteq> {})))"
proof (cases "register_region ma base ct name s")
  case (Pair r s')
  show ?thesis
  proof (cases r)
    case (Inl e)
    show ?thesis
      unfolding Pair Inl prod.case sum.case
      using register_region_fails [OF assms Pair [unfolded Inl]] by simp
  next
    case (Inr cd)
    show ?thesis
      unfolding Pair Inr prod.case sum.case
      using register_region_ok [OF assms Pair [unfolded Inr]] by auto
  qed
qed

definition blank_registry :: chardev where
  "blank_registry = \<lparr>kmallocs = [], live = 0, chrdevs = (\<lambda>_. []), probes = (\<lambda>_. [base_probe])\<rparr>"

lemma blank_registry_ok: "registry_ok blank_registry" "regions blank_registry = {}"
  by (simp_all add: blank_registry_def registry_ok_def ordered_def regions_def)

lemma register_region_exact_witness:
  "case register_region 240 0 256 ''LED'' blank_registry of (Inr cd, s') \<Rightarrow> regions s' = {cd} | _ \<Rightarrow> False"
proof -
  have f: "fits 240 0 256 blank_registry"
    by (simp add: fits_def proper_def blank_registry_ok)
  have r: "fst (register_region 240 0 256 ''LED'' blank_registry) = Inr (new_region 240 0 256 ''LED'')"
    by (simp add: register_region_def Let_def blank_registry_def kmalloc_def major_to_index insert_region_def
        new_region_def)
  show ?thesis
    using register_region_exact [OF blank_registry_ok(1) _ f, of "''LED''"] r
    by (simp add: case_prod_beta blank_registry_ok)
qed

section \<open>Arithmetic of device numbers\<close>

lemma uint_MAJOR: "uint (MAJOR dev) = uint dev div 2 ^ 20"
  by (simp add: MAJOR_def drop_bit_eq_div uint_div)

lemma uint_MINOR: "uint (MINOR dev) = uint dev mod 2 ^ 20"
proof -
  have "(0xfffff :: u32) = mask 20" by (simp add: mask_eq_exp_minus_1)
  then have "MINOR dev = take_bit 20 dev" by (simp add: MINOR_def take_bit_eq_mask)
  then show ?thesis by (simp add: take_bit_eq_mod uint_mod)
qed

lemma uint_MKDEV:
  assumes "ma < 4096" "mi < 2 ^ 20"
  shows "uint (MKDEV ma mi) = uint ma * 2 ^ 20 + uint mi"
proof -
  have small: "uint ma < 4096" "uint mi < 2 ^ 20" using assms by (simp_all add: word_less_def)
  have "take_bit 20 mi = mi"
    using small by (simp add: word_uint_eq_iff take_bit_eq_mod uint_mod)
  then have bits: "bit mi n \<Longrightarrow> n < 20" for n by (metis bit_take_bit_iff)
  have "MKDEV ma mi = push_bit 20 ma + mi"
    unfolding MKDEV_def
    by (rule disjunctive_add [symmetric]) (use bits in \<open>auto simp: bit_push_bit_iff dest: leD\<close>)
  moreover have "uint (push_bit 20 ma) = uint ma * 2 ^ 20"
    using small by (simp add: push_bit_eq_mult uint_word_ariths)
  ultimately show ?thesis
    using small by (subst \<open>MKDEV ma mi = _\<close>, subst uint_plus_if') simp
qed

lemma MAJOR_MKDEV: "ma < 4096 \<Longrightarrow> mi < 2 ^ 20 \<Longrightarrow> MAJOR (MKDEV ma mi) = ma"
  by (rule word_uint_eqI) (simp add: uint_MAJOR uint_MKDEV word_less_def)

lemma MINOR_MKDEV: "ma < 4096 \<Longrightarrow> mi < 2 ^ 20 \<Longrightarrow> MINOR (MKDEV ma mi) = mi"
  by (rule word_uint_eqI) (simp add: uint_MINOR uint_MKDEV word_less_def)

lemma dev_end: "ma < 4096 \<Longrightarrow> uint (MKDEV ma 0 + 256 - 1) = uint ma * 2 ^ 20 + 255"
proof -
  assume ma: "ma < 4096"
  then have "uint ma < 4096" by (simp add: word_less_def)
  moreover have "MKDEV ma 0 + 256 - 1 = MKDEV ma 0 + 255" by simp
  ultimately show ?thesis
    using uint_MKDEV [OF ma, of 0] by (subst \<open>_ = MKDEV ma 0 + 255\<close>, subst uint_plus_if') simp
qed

lemma span_major:
  assumes "ma < 4096"
  shows "span (MKDEV ma 0) 256 = 1"
proof -
  have "MAJOR (MKDEV ma 0 + 256 - 1) = ma"
    by (rule word_uint_eqI) (simp only: uint_MAJOR dev_end [OF assms], simp)
  then show ?thesis by (simp add: span_def MAJOR_MKDEV assms Let_def)
qed

lemma chain_of_0: "ma < 4096 \<Longrightarrow> chain_of (MKDEV ma 0) 0 = unat ma mod 255"
  by (simp add: chain_of_def MAJOR_MKDEV)

section \<open>Registering a driver\<close>

lemma remove_first_append:
  assumes "P x" "\<forall>y \<in> set zs. \<not> P y"
  shows "remove_first P (zs @ x # ys) = zs @ ys" "find P (zs @ x # ys) = Some x"
  using assms by (induction zs) auto

lemma remove_first_none: "\<forall>x \<in> set xs. \<not> P x \<Longrightarrow> remove_first P xs = xs"
  by (induction xs) auto

lemma remove_inserted_probe:
  "remove_first (same_probe (pdev p) (prange p)) (insert_probe p chain) = chain"
  "find (same_probe (pdev p) (prange p)) (insert_probe p chain) = Some p"
proof -
  have "\<forall>q \<in> set (takeWhile (\<lambda>q. prange q < prange p) chain). \<not> same_probe (pdev p) (prange p) q"
    by (auto simp: same_probe_def dest!: set_takeWhileD)
  moreover have "same_probe (pdev p) (prange p) p" by (simp add: same_probe_def)
  ultimately show "remove_first (same_probe (pdev p) (prange p)) (insert_probe p chain) = chain"
    "find (same_probe (pdev p) (prange p)) (insert_probe p chain) = Some p"
    unfolding insert_probe_def by (simp_all add: remove_first_append)
qed

lemma insert_region_split:
  "insert_region cd chain = Some chain' \<Longrightarrow>
   chain' = takeWhile (passes (major cd) (baseminor cd)) chain @ cd # dropWhile (passes (major cd) (baseminor cd)) chain"
  by (cases "dropWhile (passes (major cd) (baseminor cd)) chain")
     (simp_all add: insert_region_def del: dropWhile_eq_Nil_conv split: if_splits)

lemma insert_region_fresh:
  assumes o: "ordered chain" and p: "proper cd" and ins: "insert_region cd chain = Some chain'"
    and c: "c \<in> set chain"
  shows "\<not> same_region (major cd) (baseminor cd) (minorct cd) c"
proof
  let ?P = "passes (major cd) (baseminor cd)"
  assume same: "same_region (major cd) (baseminor cd) (minorct cd) c"
  have n: "0 < uint (minorct cd)" by (rule proper_bounds(4) [OF p])
  have pc: "proper c" using o c by (simp add: ordered_def)
  have "\<not> before c cd" using same n by (auto simp: same_region_def before_def)
  then have "c \<in> set (dropWhile ?P chain)"
    using c takeWhile_dropWhile_id [of ?P chain] passes_proper [OF pc p] by (metis Un_iff set_append set_takeWhileD)
  then obtain d post where d: "dropWhile ?P chain = d # post" "c = d \<or> c \<in> set post"
    by (cases "dropWhile ?P chain") auto
  note dw = dropWhile_unpassed [OF o p d(1)]
  have "c \<noteq> d"
    using ins d(1) same region_overlaps_proper [OF pc p] n
    by (auto simp: insert_region_def same_region_def minors_def encloses_def split: if_splits)
  then have "before d c" using d(2) dw(2) by blast
  then show False using dw(1) same by (auto simp: before_def same_region_def)
qed

text \<open>The region found and removed may have got its device in the meantime.\<close>

lemma remove_inserted_region:
  assumes o: "ordered chain" and p: "proper cd" and ins: "insert_region cd chain = Some chain'"
    and f: "\<And>c. c \<noteq> cd \<Longrightarrow> f c = c" "same_region (major cd) (baseminor cd) (minorct cd) (f cd)"
  shows "remove_first (same_region (major cd) (baseminor cd) (minorct cd)) (map f chain') = chain"
    "find (same_region (major cd) (baseminor cd) (minorct cd)) (map f chain') = Some (f cd)"
proof -
  let ?P = "passes (major cd) (baseminor cd)" and ?S = "same_region (major cd) (baseminor cd) (minorct cd)"
  note fresh = insert_region_fresh [OF o p ins]
  have "?S cd" by (simp add: same_region_def)
  with fresh have "cd \<notin> set chain" by blast
  then have "map f (takeWhile ?P chain) = takeWhile ?P chain" "map f (dropWhile ?P chain) = dropWhile ?P chain"
    by (auto intro!: map_idI f(1) dest: set_takeWhileD set_dropWhileD)
  then have ch: "map f chain' = takeWhile ?P chain @ f cd # dropWhile ?P chain"
    unfolding insert_region_split [OF ins] by simp
  have "\<forall>c \<in> set (takeWhile ?P chain). \<not> ?S c" using fresh by (auto dest: set_takeWhileD)
  with f(2) show "remove_first ?S (map f chain') = chain" "find ?S (map f chain') = Some (f cd)"
    unfolding ch by (simp_all add: remove_first_append)
qed

text \<open>\<open>register_chrdev\<close> for a given major, on the branch that succeeds.\<close>

lemma register_chrdev_Inr:
  assumes b: "ma < 4096" "ma \<noteq> 0" and reg: "register_chrdev ma name ops s = (Inr r, s')"
  obtains chain where
    "insert_region (new_region ma 0 256 name) (chrdevs s (major_to_index ma)) = Some chain"
    "chrdevs s' = (chrdevs s)(major_to_index ma := set_cdev ops (new_region ma 0 256 name) chain)"
    "probes s' = (probes s)(unat ma mod 255 :=
       insert_probe \<lparr>pdev = MKDEV ma 0, prange = 256, pdata = Some ops\<rparr> (probes s (unat ma mod 255)))"
    "live s' = live s + 3" "r = 0"
proof -
  have mf: "major_for ma s = Some ma" using b(2) by (simp add: major_for_def)
  show thesis
    using b(1)
  proof (cases rule: register_region_cases [where base = 0 and ct = 256 and name = name and s = s])
    case (ok m chain)
    then have m: "m = ma" using mf by simp
    obtain k1 t1 where t1: "kmalloc (snd (kmalloc s)\<lparr>chrdevs := (chrdevs s)(major_to_index ma := chain)\<rparr>) = (k1, t1)"
      by fastforce
    obtain k2 t2 where t2: "kmalloc t1 = (k2, t2)" by fastforce
    have st: "k1" "k2"
      "s' = t2\<lparr>probes := (probes t2)(unat ma mod 255 :=
         insert_probe \<lparr>pdev = MKDEV ma 0, prange = 256, pdata = Some ops\<rparr> (probes t2 (unat ma mod 255))),
        chrdevs := (chrdevs t2)(major_to_index ma := set_cdev ops (new_region ma 0 256 name) (chrdevs t2 (major_to_index ma)))\<rparr>"
      "r = 0"
      using reg b t1 t2
      by (auto simp: register_chrdev_def ok(5) m cdev_add_def kobj_map_def span_major chain_of_0 Let_def
          case_prod_beta split: bool.splits if_splits prod.splits)
    have c1: "chrdevs t1 = (chrdevs s)(major_to_index ma := chain)" "probes t1 = probes s" "live t1 = live s + 2"
      using kmalloc_simps(1,2) [of "snd (kmalloc s)\<lparr>chrdevs := (chrdevs s)(major_to_index ma := chain)\<rparr>"]
        kmalloc_live [of "snd (kmalloc s)\<lparr>chrdevs := (chrdevs s)(major_to_index ma := chain)\<rparr>"]
        kmalloc_live [of s] t1 ok(1) st(1) by auto
    have c2: "chrdevs t2 = chrdevs t1" "probes t2 = probes t1" "live t2 = live t1 + 1"
      using kmalloc_simps(1,2) [of t1] kmalloc_live [of t1] t2 st(2) by auto
    show thesis
      using ok(4) m by (intro that [of chain]) (simp_all add: st c1 c2)
  qed (use reg in \<open>simp_all add: register_chrdev_def\<close>)
qed

lemma proper_256: "proper (new_region ma 0 256 name)"
  by (simp add: proper_def)

lemma register_chrdev_restored:
  assumes "registry_ok s" "ma < 4096" "ma \<noteq> 0" "register_chrdev ma name ops s = (Inr r, s')"
  shows "chrdevs (unregister_chrdev ma s') = chrdevs s"
    and "probes (unregister_chrdev ma s') = probes s"
    and "live (unregister_chrdev ma s') = live s"
proof -
  let ?i = "major_to_index ma" and ?j = "unat ma mod 255" and ?cd = "new_region ma 0 256 name"
    and ?p = "\<lparr>pdev = MKDEV ma 0, prange = 256, pdata = Some ops\<rparr>"
  obtain chain where ins: "insert_region ?cd (chrdevs s ?i) = Some chain"
    and c: "chrdevs s' = (chrdevs s)(?i := set_cdev ops ?cd chain)"
    and p: "probes s' = (probes s)(?j := insert_probe ?p (probes s ?j))"
    and l: "live s' = live s + 3"
    using register_chrdev_Inr [OF assms(2-4)] by metis
  note rm = remove_inserted_region [OF registry_okD(1) [OF assms(1)] proper_256 ins,
      where f = "\<lambda>c. if c = ?cd then c\<lparr>cdev := Some ops\<rparr> else c", folded set_cdev_def, simplified]
  have f: "find (same_region ma 0 256) (set_cdev ops ?cd chain) = Some (?cd\<lparr>cdev := Some ops\<rparr>)"
    and r: "remove_first (same_region ma 0 256) (set_cdev ops ?cd chain) = chrdevs s ?i"
    using rm by (simp_all add: same_region_def)
  have pf: "find (same_probe (MKDEV ma 0) 256) (insert_probe ?p (probes s ?j)) = Some ?p"
    and pr: "remove_first (same_probe (MKDEV ma 0) 256) (insert_probe ?p (probes s ?j)) = probes s ?j"
    using remove_inserted_probe [of ?p "probes s ?j"] by simp_all
  have "unregister_chrdev ma s' = kfree (kfree (kfree (s'\<lparr>chrdevs := chrdevs s, probes := probes s\<rparr>)))"
    by (simp add: unregister_chrdev_def unregister_region_def Let_def c f r cdev_del_def kobj_unmap_def
        span_major assms(2) chain_of_0 p pf pr)
  then show "chrdevs (unregister_chrdev ma s') = chrdevs s"
    "probes (unregister_chrdev ma s') = probes s" "live (unregister_chrdev ma s') = live s"
    using l by simp_all
qed


lemma register_on_blank:
  "fst (register_chrdev 240 ''led'' ''led_fops'' blank_registry) = Inr 0"
  by (simp add: register_chrdev_def register_region_def Let_def blank_registry_def kmalloc_def
      major_to_index insert_region_def cdev_add_def kobj_map_def)


section \<open>Opening a device\<close>

definition covers :: "probe \<Rightarrow> u32 \<Rightarrow> bool" where
  "covers p dev \<longleftrightarrow> pdev p \<le> dev \<and> dev \<le> pdev p + prange p - 1"

lemma find_probe_skip:
  "\<forall>q \<in> set qs. \<not> covers q dev \<Longrightarrow> find_probe dev best (qs @ p # ps) = find_probe dev best (p # ps)"
  by (induction qs) (auto simp: covers_def not_le)

lemma major_covers:
  assumes "ma < 4096" "mi < 256"
  shows "covers \<lparr>pdev = MKDEV ma 0, prange = 256, pdata = d\<rparr> (MKDEV ma mi)"
proof -
  have mi: "uint mi < 256" "mi < 2 ^ 20" using assms(2) by (simp_all add: word_less_def)
  then show ?thesis
    using uint_MKDEV [OF assms(1), of 0] uint_MKDEV [OF assms(1) mi(2)] dev_end [OF assms(1)]
    by (simp add: covers_def word_le_def)
qed

lemma lookup_registered:
  assumes "ma < 4096" "ma \<noteq> 0" "mi < 256" "register_chrdev ma name ops s = (Inr r, s')"
    and "\<forall>q \<in> set (probes s (unat ma mod 255)). covers q (MKDEV ma mi) \<longrightarrow> 256 \<le> prange q"
  shows "kobj_lookup (MKDEV ma mi) s' = Some ops"
proof -
  let ?j = "unat ma mod 255" and ?p = "\<lparr>pdev = MKDEV ma 0, prange = 256, pdata = Some ops\<rparr>"
  have p: "probes s' = (probes s)(?j := insert_probe ?p (probes s ?j))"
    using register_chrdev_Inr [OF assms(1,2,4)] by metis
  have mi: "mi < 2 ^ 20" using assms(3) by (simp add: word_less_def)
  have "\<forall>q \<in> set (takeWhile (\<lambda>q. prange q < prange ?p) (probes s ?j)). \<not> covers q (MKDEV ma mi)"
    using assms(5) by (auto dest!: set_takeWhileD simp: not_le [symmetric])
  moreover have "\<not> (- 1 :: u32) \<le> 255"
    by (simp add: word_le_def unsigned_minus_1_eq_mask mask_eq_exp_minus_1)
  moreover note major_covers [OF assms(1,3), of "Some ops"]
  ultimately have "find_probe (MKDEV ma mi) (- 1) (insert_probe ?p (probes s ?j)) = Some ?p"
    unfolding insert_probe_def by (subst find_probe_skip) (auto simp: covers_def not_le [symmetric])
  then show ?thesis
    using MAJOR_MKDEV [OF assms(1) mi] by (simp add: kobj_lookup_def p lookup_chain.simps)
qed

text \<open>
  C14. Opening a device. Once a driver is registered for a major, opening any of its minors below
  256 finds its operations and returns what the driver's own open returns, unless some device with
  a narrower range of numbers covers that minor.
\<close>

theorem chrdev_open_finds:
  assumes "ma < 4096" "ma \<noteq> 0" "mi < 256" "register_chrdev ma name ops s = (Inr r, s')"
    and "\<forall>q \<in> set (probes s (unat ma mod 255)). covers q (MKDEV ma mi) \<longrightarrow> 256 \<le> prange q"
  shows "chrdev_open open_fn (MKDEV ma mi) None s' =
     (if open_fn ops = 0 then Inr 0 else Inl (Errno (open_fn ops)), Some ops)"
  using lookup_registered [OF assms] by (simp add: chrdev_open_def Let_def)

lemma chrdev_open_finds_witness:
  "chrdev_open (\<lambda>_. 0) (MKDEV 240 5) None (snd (register_chrdev 240 ''led'' ''led_fops'' blank_registry))
     = (Inr 0, Some ''led_fops'')"
proof -
  have "register_chrdev 240 ''led'' ''led_fops'' blank_registry =
      (Inr 0, snd (register_chrdev 240 ''led'' ''led_fops'' blank_registry))"
    using register_on_blank by (metis prod.collapse)
  from chrdev_open_finds [OF _ _ _ this, of 5 "\<lambda>_. 0"] show ?thesis
    by (simp add: blank_registry_def base_probe_def)
qed

section \<open>Two drivers for one major\<close>

text \<open>The whole table, with the devices of the regions forgotten.\<close>

lemma ordered_map:
  assumes "\<And>c. major (f c) = major c \<and> baseminor (f c) = baseminor c \<and> minorct (f c) = minorct c"
  shows "ordered (map f chain) = ordered chain"
proof -
  have "before (f a) (f b) = before a b" "proper (f a) = proper a" for a b
    by (simp_all add: before_def proper_def assms)
  then show ?thesis by (simp add: ordered_def sorted_wrt_map)
qed

lemma ordered_set_cdev: "ordered (set_cdev ops cd chain) = ordered chain"
  unfolding set_cdev_def by (rule ordered_map) simp

lemma insert_region_taken:
  assumes o: "ordered chain" and p: "proper cd"
    and c: "c \<in> set chain" "major c = major cd" "baseminor c = baseminor cd"
  shows "insert_region cd chain = None"
proof -
  let ?P = "passes (major cd) (baseminor cd)"
  have n: "0 < uint (minorct cd)" by (rule proper_bounds(4) [OF p])
  have pc: "proper c" using o c(1) by (simp add: ordered_def)
  have nb: "\<not> before c cd" using c proper_bounds(4) [OF pc] by (auto simp: before_def)
  then have "c \<in> set (dropWhile ?P chain)"
    using c(1) takeWhile_dropWhile_id [of ?P chain] passes_proper [OF pc p] by (metis Un_iff set_append set_takeWhileD)
  then obtain d post where d: "dropWhile ?P chain = d # post" "c = d \<or> c \<in> set post"
    by (cases "dropWhile ?P chain") auto
  note dw = dropWhile_unpassed [OF o p d(1)]
  have "\<not> before d c" using dw(1) c by (auto simp: before_def)
  then have "c = d" using d(2) dw(2) by blast
  moreover have "region_overlaps (baseminor cd) (minorct cd) c"
    using c n proper_bounds(4) [OF pc] region_overlaps_proper [OF pc p c(2)]
    by (auto simp: minors_def encloses_def)
  ultimately show ?thesis using d(1) c(2) by (simp add: insert_region_def)
qed

lemma register_chrdev_ok:
  assumes "registry_ok s" "ma < 4096" "ma \<noteq> 0" "register_chrdev ma name ops s = (Inr r, s')"
    and fit: "fits ma 0 256 s"
  shows "registry_ok s'" "\<exists>c \<in> regions s'. major c = ma \<and> baseminor c = 0 \<and> minorct c = 256"
proof -
  let ?i = "major_to_index ma" and ?cd = "new_region ma 0 256 name"
  obtain chain where ins: "insert_region ?cd (chrdevs s ?i) = Some chain"
    and c: "chrdevs s' = (chrdevs s)(?i := set_cdev ops ?cd chain)"
    using register_chrdev_Inr [OF assms(2-4)] by metis
  note o = registry_okD(1) [OF assms(1), of ?i]
  have e: "\<forall>c \<in> set (chrdevs s ?i). \<not> encloses ?cd c"
    using fits_new_region(2) [OF fit] by (auto simp: regions_def)
  note ch = insert_region_Some [OF o proper_256 ins e]
  show "registry_ok s'"
    unfolding registry_ok_def c using assms(1,2) ch(1,2)
    by (auto simp: registry_ok_def ordered_set_cdev) (auto simp: set_cdev_def)
  have "?cd\<lparr>cdev := Some ops\<rparr> \<in> regions s'"
    using ch(2) by (auto simp: regions_def c set_cdev_def intro!: exI [of _ ?i])
  then show "\<exists>c \<in> regions s'. major c = ma \<and> baseminor c = 0 \<and> minorct c = 256"
    by (intro bexI [of _ "?cd\<lparr>cdev := Some ops\<rparr>"]) simp_all
qed

lemma register_chrdev_refused:
  assumes "registry_ok s" "ma < 4096" "ma \<noteq> 0"
    and "c \<in> regions s" "major c = ma" "baseminor c = 0"
  shows "case register_chrdev ma name ops s of
     (Inl e, s') \<Rightarrow> e = (if fst (kmalloc s) then EBUSY else ENOMEM) \<and>
        chrdevs s' = chrdevs s \<and> probes s' = probes s \<and> live s' = live s
   | (Inr _, _) \<Rightarrow> False"
proof -
  have mf: "major_for ma s = Some ma" using assms(3) by (simp add: major_for_def)
  have c: "c \<in> set (chrdevs s (major_to_index ma))"
    using assms(1,4,5) by (simp add: regions_iff)
  have none: "insert_region (new_region ma 0 256 name) (chrdevs s (major_to_index ma)) = None"
    using assms(5,6) by (intro insert_region_taken [OF registry_okD(1) [OF assms(1)] proper_256 c]) simp_all
  show ?thesis
    using assms(2)
  proof (cases rule: register_region_cases [where base = 0 and ct = 256 and name = name and s = s])
    case nomem
    then show ?thesis using kmalloc_live [of s] by (simp add: register_chrdev_def)
  next
    case (busy m)
    then show ?thesis using kmalloc_live [of s] by (simp add: register_chrdev_def)
  qed (use mf none in simp_all)
qed

text \<open>
  A major belongs to one driver. While a region reserves minor 0 of a major, registering a
  driver for that major fails with \<open>EBUSY\<close> (or \<open>ENOMEM\<close>), and neither the regions, nor the devices,
  nor the allocated memory change.
\<close>

theorem register_chrdev_busy:
  assumes "registry_ok s" "ma < 4096" "ma \<noteq> 0"
    and "c \<in> regions s" "major c = ma" "baseminor c = 0"
  shows "case register_chrdev ma name ops s of
     (Inl e, s') \<Rightarrow> e = (if fst (kmalloc s) then EBUSY else ENOMEM) \<and>
        chrdevs s' = chrdevs s \<and> probes s' = probes s \<and> live s' = live s
   | (Inr _, _) \<Rightarrow> False"
  using register_chrdev_refused [OF assms] .

lemma register_chrdev_busy_witness:
  "fst (register_chrdev 240 ''key'' ''key_fops'' (snd (register_chrdev 240 ''led'' ''led_fops'' blank_registry)))
     = Inl EBUSY"
proof -
  let ?s = "snd (register_chrdev 240 ''led'' ''led_fops'' blank_registry)"
  have "register_chrdev 240 ''led'' ''led_fops'' blank_registry = (Inr 0, ?s)"
    using register_on_blank by (metis prod.collapse)
  note ok = register_chrdev_ok [OF blank_registry_ok(1) _ _ this, simplified fits_def proper_256 blank_registry_ok, simplified]
  then obtain c where c: "c \<in> regions ?s" "major c = 240" "baseminor c = 0" by blast
  have "fst (kmalloc ?s)"
    by (simp add: register_chrdev_def register_region_def Let_def blank_registry_def kmalloc_def
        major_to_index insert_region_def cdev_add_def kobj_map_def)
  then show ?thesis
    using register_chrdev_busy [OF ok(1) _ _ c, of "''key''" "''key_fops''"]
    by (auto split: prod.splits sum.splits)
qed

text \<open>
  C37. The check for overlapping ranges misses one case. With minors 1 to 254 or a part of them
  reserved for a device, a driver can still register the whole major: both registrations succeed,
  and the two regions share the smaller one's numbers.
\<close>

theorem overlap_missed:
  fixes name1 name2 :: string
  assumes "0 < base" "0 < ct" "uint base + uint ct < 256"
    and "chrdevs s (major_to_index ma) = []" "0 < ma" "ma < 4096" "kmallocs s = []"
  defines "small \<equiv> new_region ma base ct name1" and "big \<equiv> new_region ma 0 256 name2"
  shows "minors small \<inter> minors big = minors small \<and> minors small \<noteq> {} \<and>
    (case register_region ma base ct name1 s of
       (Inr cd, s1) \<Rightarrow> cd = small \<and>
          (case register_region ma 0 256 name2 s1 of
             (Inr cd2, s2) \<Rightarrow> cd2 = big \<and> chrdevs s2 (major_to_index ma) = [big, small]
           | _ \<Rightarrow> False)
     | _ \<Rightarrow> False)"
proof -
  have ma: "ma \<noteq> 0" "\<not> major_to_index ma < 0" using assms(5,6) by (auto simp: major_to_index)
  have ps: "proper small" "proper big"
    using assms(2,3) by (simp_all add: small_def big_def proper_def)
  have enc: "encloses big small"
    using assms(1,3) by (simp add: encloses_def big_def small_def word_less_def)
  have ov: "\<not> region_overlaps (baseminor big) (minorct big) small"
    using region_overlaps_proper [OF ps] enc by (simp add: encloses_def)
  have np: "\<not> passes (major big) (baseminor big) small"
    unfolding passes_proper [OF ps] using proper_bounds(4) [OF ps(1)]
    by (simp add: before_def big_def small_def not_le add_nonneg_pos)
  have i2: "insert_region big [small] = Some [big, small]"
    using ov np by (simp add: insert_region_def Let_def)
  have i1: "insert_region small [] = Some [small]" by (simp add: insert_region_def)
  have r1: "register_region ma base ct name1 s =
      (Inr small, s\<lparr>live := live s + 1, chrdevs := (chrdevs s)(major_to_index ma := [small])\<rparr>)"
    using ma assms(4,7) i1
    by (simp add: register_region_def kmalloc_def Let_def small_def new_region_def)
  have r2: "register_region ma 0 256 name2 (s\<lparr>live := live s + 1, chrdevs := (chrdevs s)(major_to_index ma := [small])\<rparr>)
      = (Inr big, s\<lparr>live := live s + 2, chrdevs := (chrdevs s)(major_to_index ma := [big, small])\<rparr>)"
    using ma assms(7) i2
    by (simp add: register_region_def kmalloc_def Let_def big_def new_region_def)
  have "minors small \<inter> minors big = minors small" "minors small \<noteq> {}"
    using assms(3) proper_bounds(4) [OF ps(1)] by (auto simp: minors_def small_def big_def)
  then show ?thesis by (simp add: r1 r2)
qed

lemma overlap_missed_witness:
  "chrdevs (snd (register_region 240 0 256 ''led'' (snd (register_region 240 10 10 ''key'' blank_registry)))) 240
     = [new_region 240 0 256 ''led'', new_region 240 10 10 ''key'']"
  using overlap_missed [of 10 10 blank_registry 240 "''key''" "''led''"]
  by (simp add: blank_registry_def major_to_index split: prod.splits sum.splits)

section \<open>Ranges over several majors\<close>

text \<open>
  The loops cut the range \<open>from\<close> to \<open>to\<close> at the majors: piece \<open>i\<close> starts at \<open>from\<close> or at the
  beginning of the \<open>i\<close>th next major.
\<close>

definition piece_start :: "u32 \<Rightarrow> nat \<Rightarrow> u32" where
  "piece_start from i = (if i = 0 then from else MKDEV (MAJOR from + of_nat i) 0)"

definition piece :: "u32 \<Rightarrow> u32 \<Rightarrow> string \<Rightarrow> nat \<Rightarrow> region" where
  "piece from to name i = (let n = piece_start from i in new_region (MAJOR n) (MINOR n) (next_dev n to - n) name)"

definition drop_piece :: "u32 \<Rightarrow> u32 \<Rightarrow> nat \<Rightarrow> 'a chardev_scheme \<Rightarrow> 'a chardev_scheme" where
  "drop_piece from to i s =
     (let n = piece_start from i in drop_region (MAJOR n) (MINOR n) (next_dev n to - n) s)"

lemma uint_plus_nat:
  "uint (a :: u32) + int i < 2 ^ 32 \<Longrightarrow> uint (a + of_nat i) = uint a + int i"
proof -
  assume small: "uint a + int i < 2 ^ 32"
  then have i: "int i < 2 ^ 32" using uint_ge_0 [of a] by linarith
  then have "uint (of_nat i :: u32) = int i" by (simp add: unsigned_of_nat take_bit_nat_eq_self_iff)
  then show ?thesis using small by (subst uint_plus_if') simp
qed

lemma MAJOR_less: "MAJOR dev < 4096"
proof -
  have "uint dev < 2 ^ 32" using unsigned_less [of dev] by simp
  then show ?thesis by (simp add: word_less_def uint_MAJOR)
qed

lemma MAJOR_piece_start:
  assumes "uint (MAJOR from) + int i < 4096"
  shows "uint (MAJOR (piece_start from i)) = uint (MAJOR from) + int i"
proof (cases "i = 0")
  case False
  have "uint (MAJOR from + of_nat i) = uint (MAJOR from) + int i" using assms by (simp add: uint_plus_nat)
  then show ?thesis
    using assms False by (subst piece_start_def) (simp add: uint_MAJOR uint_MKDEV word_less_def)
qed (simp add: piece_start_def)

lemma piece_start_Suc:
  assumes "uint (MAJOR from) + int i < 4096"
  shows "MKDEV (MAJOR (piece_start from i) + 1) 0 = piece_start from (Suc i)"
proof -
  have "MAJOR (piece_start from i) = MAJOR from + of_nat i"
    using assms by (intro word_uint_eqI) (simp add: MAJOR_piece_start uint_plus_nat)
  then show ?thesis by (simp add: piece_start_def algebra_simps)
qed

lemma uint_piece_start_Suc:
  assumes "uint (MAJOR from) + int (Suc i) < 4096"
  shows "uint (piece_start from (Suc i)) = (uint (MAJOR from) + int (Suc i)) * 2 ^ 20"
proof -
  have "uint (MAJOR from + of_nat (Suc i)) = uint (MAJOR from) + int (Suc i)"
    using assms by (intro uint_plus_nat) simp
  then show ?thesis
    using assms by (simp only: piece_start_def) (simp add: uint_MKDEV word_less_def)
qed

lemma piece_start_mono:
  assumes "i < j" "uint (MAJOR from) + int j < 4096"
  shows "piece_start from i < piece_start from j"
proof -
  obtain j' where j: "j = Suc j'" using assms(1) by (cases j) auto
  have "uint (piece_start from i) < (uint (MAJOR (piece_start from i)) + 1) * 2 ^ 20"
    by (simp add: uint_MAJOR)
  also have "\<dots> \<le> (uint (MAJOR from) + int j) * 2 ^ 20"
    using assms by (subst MAJOR_piece_start) auto
  also have "\<dots> = uint (piece_start from j)"
    using assms(2) uint_piece_start_Suc [of "from" j'] unfolding j by simp
  finally show ?thesis by (simp add: word_less_def)
qed

lemma next_dev_piece:
  assumes "uint (MAJOR from) + int (Suc i) < 4096" "piece_start from (Suc i) \<le> to"
  shows "next_dev (piece_start from i) to = piece_start from (Suc i)"
  using assms piece_start_Suc [of "from" i] by (auto simp: next_dev_def Let_def)

text \<open>Taking back the regions of two majors commutes.\<close>

lemma remove_first_commute:
  assumes "\<And>x. P x \<Longrightarrow> \<not> Q x"
  shows "remove_first P (remove_first Q xs) = remove_first Q (remove_first P xs)"
    "find P (remove_first Q xs) = find P xs"
  using assms by (induction xs) auto

lemma drop_region_simps:
  "drop_region ma base ct s = s\<lparr>chrdevs := (chrdevs s)(major_to_index ma :=
      remove_first (same_region ma base ct) (chrdevs s (major_to_index ma))),
    live := live s - (if find (same_region ma base ct) (chrdevs s (major_to_index ma)) = None then 0 else 1)\<rparr>"
  by (auto simp: drop_region_def unregister_region_def Let_def kfree_def split: option.splits)

lemma drop_region_chrdevs:
  "chrdevs (drop_region ma base ct s) = (chrdevs s)(major_to_index ma :=
      remove_first (same_region ma base ct) (chrdevs s (major_to_index ma)))"
  "live (drop_region ma base ct s) =
    live s - (if find (same_region ma base ct) (chrdevs s (major_to_index ma)) = None then 0 else 1)"
  by (simp_all add: drop_region_simps)

lemma drop_region_commute:
  assumes "ma \<noteq> mb"
  shows "drop_region ma b c (drop_region mb b' c' s) = drop_region mb b' c' (drop_region ma b c s)"
proof -
  let ?P = "same_region ma b c" and ?Q = "same_region mb b' c'"
  have "\<And>x. ?P x \<Longrightarrow> \<not> ?Q x" "\<And>x. ?Q x \<Longrightarrow> \<not> ?P x" using assms by (auto simp: same_region_def)
  note rc = remove_first_commute [of ?P ?Q, OF this(1)] remove_first_commute(2) [of ?Q ?P, OF this(2)]
  show ?thesis
  proof (cases "major_to_index ma = major_to_index mb")
    case True
    show ?thesis unfolding drop_region_simps by (simp add: True rc(1)) (auto simp: rc(2,3))
  next
    case False
    then show ?thesis unfolding drop_region_simps by (simp add: fun_upd_twist)
  qed
qed

lemma drop_piece_commute:
  assumes "i \<noteq> j" "uint (MAJOR from) + int i < 4096" "uint (MAJOR from) + int j < 4096"
  shows "drop_piece from to i (drop_piece from to' j s) = drop_piece from to' j (drop_piece from to i s)"
proof -
  have "MAJOR (piece_start from i) \<noteq> MAJOR (piece_start from j)"
    using assms MAJOR_piece_start [of "from" i] MAJOR_piece_start [of "from" j] by auto
  then show ?thesis by (simp add: drop_piece_def Let_def drop_region_commute)
qed

lemma fold_drop_commute:
  assumes "\<forall>j \<in> set js. j \<noteq> i \<and> uint (MAJOR from) + int j < 4096" "uint (MAJOR from) + int i < 4096"
  shows "fold (drop_piece from to) js (drop_piece from to' i s) = drop_piece from to' i (fold (drop_piece from to) js s)"
  using assms(1)
proof (induction js arbitrary: s)
  case (Cons j js)
  then show ?case using drop_piece_commute [of j i "from" to to' s] assms(2) by simp
qed simp

text \<open>Two states with the same tables and the same memory in use.\<close>

definition same_tables :: "'a chardev_scheme \<Rightarrow> 'a chardev_scheme \<Rightarrow> bool" where
  "same_tables s t \<longleftrightarrow> chrdevs s = chrdevs t \<and> probes s = probes t \<and> live s = live t"

lemma same_tables_trans [trans]: "same_tables s t \<Longrightarrow> same_tables t u \<Longrightarrow> same_tables s u"
  by (simp add: same_tables_def)

lemma same_tables_drop: "same_tables s t \<Longrightarrow> same_tables (drop_piece from to i s) (drop_piece from to i t)"
  by (simp add: same_tables_def drop_piece_def Let_def drop_region_simps)

lemma same_tables_fold:
  "same_tables s t \<Longrightarrow> same_tables (fold (drop_piece from to) js s) (fold (drop_piece from to) js t)"
  by (induction js arbitrary: s t) (auto intro: same_tables_drop)

lemma drop_registered:
  assumes ok: "registry_ok s" and b: "ma < 4096" "ma \<noteq> 0" and fit: "fits ma base ct s"
    and reg: "register_region ma base ct name s = (Inr cd, s')"
  shows "same_tables (drop_region ma base ct s') s"
proof -
  have mf: "major_for ma s = Some ma" using b(2) by (simp add: major_for_def)
  obtain chain where ins: "insert_region (new_region ma base ct name) (chrdevs s (major_to_index ma)) = Some chain"
    and s': "s' = snd (kmalloc s)\<lparr>chrdevs := (chrdevs s)(major_to_index ma := chain)\<rparr>" and k: "fst (kmalloc s)"
    using reg mf by (cases rule: register_region_cases [OF b(1), of base ct name s]) auto
  have "same_region ma base ct (new_region ma base ct name)" by (simp add: same_region_def)
  note rm = remove_inserted_region [OF registry_okD(1) [OF ok] fits_new_region(1) [OF fit] ins,
      where f = id, simplified, OF this]
  show ?thesis
    using rm k kmalloc_live [of s] by (simp add: same_tables_def drop_region_simps s')
qed

definition in_majors :: "u32 \<Rightarrow> nat \<Rightarrow> bool" where
  "in_majors from i \<longleftrightarrow> uint (MAJOR from) + int i < 4096"

lemma next_dev_full:
  assumes "in_majors from (Suc i)" "piece_start from (Suc i) \<le> to"
  shows "drop_piece from to i = drop_piece from (piece_start from (Suc i)) i"
  using next_dev_piece [of "from" i] assms by (auto simp: in_majors_def drop_piece_def Let_def fun_eq_iff)

lemma rollback_fold:
  assumes "i \<le> j" "in_majors from j" "j - i < k"
  shows "rollback k (piece_start from i) (piece_start from j) s = fold (drop_piece from (piece_start from j)) [i..<j] s"
  using assms(1,3)
proof (induction k arbitrary: i s)
  case (Suc k)
  show ?case
  proof (cases "i = j")
    case False
    then have lt: "i < j" using Suc.prems by simp
    then have m: "in_majors from i" "in_majors from (Suc i)" using assms(2) by (auto simp: in_majors_def)
    have le: "piece_start from (Suc i) \<le> piece_start from j"
      using lt piece_start_mono [of "Suc i" j "from"] assms(2) by (cases "Suc i = j") (auto simp: in_majors_def)
    have "rollback (Suc k) (piece_start from i) (piece_start from j) s =
        rollback k (piece_start from (Suc i)) (piece_start from j) (drop_piece from (piece_start from j) i s)"
      using lt assms(2) m le piece_start_mono [OF lt] piece_start_Suc [of "from" i] next_dev_piece [of "from" i]
      by (simp add: in_majors_def drop_piece_def Let_def)
    also have "\<dots> = fold (drop_piece from (piece_start from j)) [Suc i..<j] (drop_piece from (piece_start from j) i s)"
      using Suc.prems lt by (intro Suc.IH) auto
    finally show ?thesis using lt by (simp add: upt_conv_Cons)
  qed simp
qed simp

text \<open>
  The device numbers a call may ask for: they stay below major 4095, start above major 0, and no
  piece of the range encloses a reserved region.
\<close>

definition range_ok :: "u32 \<Rightarrow> u32 \<Rightarrow> 'a chardev_scheme \<Rightarrow> bool" where
  "range_ok from to s \<longleftrightarrow> 0 < MAJOR from \<and> to \<le> MKDEV 4095 0 \<and>
     (\<forall>c \<in> regions s. \<forall>i. in_majors from i \<longrightarrow> \<not> encloses (piece from to [] i) c)"

lemma piece_step:
  assumes r: "range_ok from to s" and i: "in_majors from i" and lt: "piece_start from i < to"
  shows "in_majors from (Suc i)" "MAJOR (piece_start from i) < 4096" "MAJOR (piece_start from i) \<noteq> 0"
    "fits (MAJOR (piece_start from i)) (MINOR (piece_start from i)) (next_dev (piece_start from i) to - piece_start from i) s"
    "next_dev (piece_start from i) to = (if piece_start from (Suc i) \<le> to then piece_start from (Suc i) else to)"
proof -
  let ?n = "piece_start from i"
  have M: "uint (MAJOR ?n) = uint (MAJOR from) + int i" using i by (simp add: in_majors_def MAJOR_piece_start)
  have "uint ?n < 4095 * 2 ^ 20"
    using r lt uint_MKDEV [of 4095 0] by (simp add: range_ok_def word_less_def word_le_def)
  then have M95: "uint (MAJOR ?n) < 4095" by (simp add: uint_MAJOR)
  then show S: "in_majors from (Suc i)" using M by (simp add: in_majors_def)
  show "MAJOR ?n < 4096" by (rule MAJOR_less)
  show "MAJOR ?n \<noteq> 0" using r M by (auto simp: range_ok_def word_less_def)
  show nd: "next_dev ?n to = (if piece_start from (Suc i) \<le> to then piece_start from (Suc i) else to)"
    using piece_start_Suc [of "from" i] i by (auto simp: next_dev_def Let_def in_majors_def)
  have st: "?n < piece_start from (Suc i)" using S by (intro piece_start_mono) (simp_all add: in_majors_def)
  then have gt: "?n < next_dev ?n to" using lt nd by simp
  have us: "uint (piece_start from (Suc i)) = (uint (MAJOR ?n) + 1) * 2 ^ 20"
    using S M by (simp add: in_majors_def uint_piece_start_Suc)
  have le: "next_dev ?n to \<le> piece_start from (Suc i)" unfolding nd by (simp add: not_le less_imp_le)
  have ct: "uint (next_dev ?n to - ?n) = uint (next_dev ?n to) - uint ?n"
    using gt by (subst uint_sub_if') (simp add: word_less_def)
  have "uint (MINOR ?n) + uint (next_dev ?n to - ?n) \<le> 2 ^ 20"
    using le us unfolding ct uint_MINOR by (simp add: word_le_def uint_MAJOR) presburger
  moreover have "0 < next_dev ?n to - ?n" using gt ct by (simp add: word_less_def)
  ultimately have "proper (new_region (MAJOR ?n) (MINOR ?n) (next_dev ?n to - ?n) [])" by (simp add: proper_def)
  then show "fits (MAJOR ?n) (MINOR ?n) (next_dev ?n to - ?n) s"
    using r i by (auto simp: fits_def range_ok_def piece_def Let_def)
qed

lemma range_ok_step:
  assumes r: "range_ok from to s" and i: "in_majors from i" and lt: "piece_start from i < to" and ok: "registry_ok s"
    and reg: "register_region (MAJOR (piece_start from i)) (MINOR (piece_start from i))
       (next_dev (piece_start from i) to - piece_start from i) name s = (Inr cd, s1)"
  shows "range_ok from to s1" "registry_ok s1" "same_tables (drop_piece from to i s1) s"
proof -
  note p = piece_step [OF r i lt]
  note ro = register_region_ok [OF ok p(2,4) reg]
  show "registry_ok s1" by (rule ro(1))
  have cd: "major cd = MAJOR (piece_start from i)" "baseminor cd = MINOR (piece_start from i)"
    using ro(4) p(3) by (auto simp: major_for_def)
  have "\<not> encloses (piece from to [] j) cd" if j: "in_majors from j" for j
  proof (cases "j = i")
    case True
    then show ?thesis by (simp add: encloses_def piece_def Let_def cd)
  next
    case False
    have "MAJOR (piece_start from i) \<noteq> MAJOR (piece_start from j)"
      using False i j MAJOR_piece_start [of "from" i] MAJOR_piece_start [of "from" j]
      by (auto simp: in_majors_def)
    then show ?thesis by (simp add: encloses_def piece_def Let_def cd)
  qed
  then show "range_ok from to s1" using r unfolding range_ok_def ro(2) by blast
  show "same_tables (drop_piece from to i s1) s"
    using drop_registered [OF ok p(2,3,4) reg] by (simp add: drop_piece_def Let_def)
qed

lemma register_loop_fails:
  assumes "in_majors from i" "range_ok from to s" "registry_ok s" "4097 \<le> int k + int i + uint (MAJOR from)"
    and "register_loop k from (piece_start from i) to name s = (Inl e, s')"
  shows "same_tables s' (fold (drop_piece from to) [0..<i] s)"
  using assms
proof (induction k arbitrary: i s)
  case 0
  then show ?case by (simp add: in_majors_def)
next
  case (Suc k)
  let ?n = "piece_start from i" and ?x = "next_dev (piece_start from i) to"
  note i = Suc.prems(1) and r = Suc.prems(2) and ok = Suc.prems(3)
  have lt: "?n < to" using Suc.prems(5) by (auto split: if_splits)
  note p = piece_step [OF r i lt]
  obtain q s1 where q: "register_region (MAJOR ?n) (MINOR ?n) (?x - ?n) name s = (q, s1)" by fastforce
  show ?case
  proof (cases q)
    case (Inl e1)
    note fl = register_region_fails [OF ok p(2,4) q [unfolded Inl]]
    have "s' = rollback 4096 (piece_start from 0) ?n s1"
      using Suc.prems(5) lt q Inl by (simp add: Let_def piece_start_def)
    also have "\<dots> = fold (drop_piece from ?n) [0..<i] s1"
    proof (rule rollback_fold)
      show "i - 0 < 4096" using i uint_ge_0 [of "MAJOR from"] unfolding in_majors_def by linarith
    qed (use i in simp_all)
    also have "\<dots> = fold (drop_piece from to) [0..<i] s1"
    proof (rule fold_cong)
      fix j assume j: "j \<in> set [0..<i]"
      then have m: "in_majors from (Suc j)" using i by (auto simp: in_majors_def)
      have le: "piece_start from (Suc j) \<le> ?n"
        using j i piece_start_mono [of "Suc j" i "from"] by (cases "Suc j = i") (auto simp: in_majors_def)
      with lt have le2: "piece_start from (Suc j) \<le> to" by simp
      show "drop_piece from ?n j = drop_piece from to j"
        by (rule trans [OF next_dev_full [OF m le] next_dev_full [OF m le2, symmetric]])
    qed simp_all
    finally show ?thesis
      using fl(1-3) by (auto simp: same_tables_def intro!: same_tables_fold [unfolded same_tables_def])
  next
    case (Inr cd)
    note st = range_ok_step [OF r i lt ok q [unfolded Inr]]
    have go: "register_loop k from ?x to name s1 = (Inl e, s')"
      using Suc.prems(5) lt q Inr by (simp add: Let_def)
    have kpos: "k \<noteq> 0" using Suc.prems(4) p(1) by (auto simp: in_majors_def)
    have "?x \<noteq> to"
    proof
      assume "?x = to"
      then show False using go kpos by (cases k) simp_all
    qed
    then have x: "?x = piece_start from (Suc i)" using p(5) by (auto split: if_splits)
    have "same_tables s' (fold (drop_piece from to) [0..<Suc i] s1)"
      using Suc.prems(4) go by (intro Suc.IH p(1) st) (simp_all add: x)
    also have "fold (drop_piece from to) [0..<Suc i] s1 = fold (drop_piece from to) [0..<i] (drop_piece from to i s1)"
      using i by (subst fold_drop_commute) (auto simp: in_majors_def)
    also have "same_tables \<dots> (fold (drop_piece from to) [0..<i] s)"
      by (rule same_tables_fold [OF st(3)])
    finally show ?thesis .
  qed
qed

lemma unregister_loop_fold:
  assumes "in_majors from i" "to \<le> MKDEV 4095 0"
  shows "\<exists>js. (\<forall>j \<in> set js. i \<le> j \<and> in_majors from j) \<and>
    (\<forall>s :: 'a chardev_scheme. unregister_loop k (piece_start from i) to s = fold (drop_piece from to) js s)"
  using assms(1)
proof (induction k arbitrary: i)
  case 0
  then show ?case by (intro exI [of _ "[]"]) simp
next
  case (Suc k)
  let ?n = "piece_start from i" and ?x = "next_dev (piece_start from i) to"
  show ?case
  proof (cases "?n < to")
    case False
    then show ?thesis by (intro exI [of _ "[]"]) simp
  next
    case True
    have "uint ?n < 4095 * 2 ^ 20"
      using True assms(2) uint_MKDEV [of 4095 0] by (simp add: word_less_def word_le_def)
    then have "uint (MAJOR ?n) < 4095" by (simp add: uint_MAJOR)
    then have S: "in_majors from (Suc i)"
      using Suc.prems MAJOR_piece_start [of "from" i] by (simp add: in_majors_def)
    have nd: "?x = (if piece_start from (Suc i) \<le> to then piece_start from (Suc i) else to)"
      using piece_start_Suc [of "from" i] Suc.prems by (auto simp: next_dev_def Let_def in_majors_def)
    have step: "unregister_loop (Suc k) ?n to s = unregister_loop k ?x to (drop_piece from to i s)" for s :: "'a chardev_scheme"
      using True by (simp add: drop_piece_def Let_def)
    show ?thesis
    proof (cases "piece_start from (Suc i) \<le> to")
      case True
      obtain js where js: "\<forall>j \<in> set js. Suc i \<le> j \<and> in_majors from j"
        "\<forall>s :: 'a chardev_scheme. unregister_loop k (piece_start from (Suc i)) to s = fold (drop_piece from to) js s"
        using Suc.IH [OF S] by blast
      have "\<forall>s :: 'a chardev_scheme. unregister_loop (Suc k) ?n to s = fold (drop_piece from to) (i # js) s"
        using js(2) step nd True by simp
      then show ?thesis using js(1) Suc.prems by (intro exI [of _ "i # js"]) auto
    next
      case False
      have "unregister_loop k to to s = s" for s :: "'a chardev_scheme" by (cases k) simp_all
      then have "\<forall>s :: 'a chardev_scheme. unregister_loop (Suc k) ?n to s = fold (drop_piece from to) [i] s"
        using step nd False by simp
      then show ?thesis using Suc.prems by (intro exI [of _ "[i]"]) auto
    qed
  qed
qed

lemma register_loop_undone:
  assumes "in_majors from i" "range_ok from to s" "registry_ok s"
    and "register_loop k from (piece_start from i) to name s = (Inr (), s')"
  shows "same_tables (unregister_loop k (piece_start from i) to s') s"
  using assms
proof (induction k arbitrary: i s)
  case (Suc k)
  let ?n = "piece_start from i" and ?x = "next_dev (piece_start from i) to"
  note i = Suc.prems(1) and r = Suc.prems(2) and ok = Suc.prems(3)
  show ?case
  proof (cases "?n < to")
    case False
    then show ?thesis using Suc.prems(4) by (simp add: same_tables_def)
  next
    case lt: True
    note p = piece_step [OF r i lt]
    obtain cd s1 where q: "register_region (MAJOR ?n) (MINOR ?n) (?x - ?n) name s = (Inr cd, s1)"
      and go: "register_loop k from ?x to name s1 = (Inr (), s')"
      using Suc.prems(4) lt by (auto simp: Let_def split: prod.splits sum.splits)
    note st = range_ok_step [OF r i lt ok q]
    have step: "unregister_loop (Suc k) ?n to s' = unregister_loop k ?x to (drop_piece from to i s')"
      using lt by (simp add: drop_piece_def Let_def)
    show ?thesis
    proof (cases "piece_start from (Suc i) \<le> to")
      case True
      then have x: "?x = piece_start from (Suc i)" using p(5) by simp
      have to: "to \<le> MKDEV 4095 0" using r by (simp add: range_ok_def)
      obtain js where js: "\<forall>j \<in> set js. Suc i \<le> j \<and> in_majors from j"
        "\<And>s :: 'a chardev_scheme. unregister_loop k ?x to s = fold (drop_piece from to) js s"
        using unregister_loop_fold [OF p(1) to, where k = k] unfolding x by blast
      have "unregister_loop (Suc k) ?n to s' = drop_piece from to i (unregister_loop k ?x to s')"
        unfolding step js(2) using js(1) i by (intro fold_drop_commute) (auto simp: in_majors_def)
      moreover have "same_tables (unregister_loop k ?x to s') s1"
        using go unfolding x by (intro Suc.IH p(1) st)
      ultimately show ?thesis using same_tables_drop same_tables_trans st(3) by metis
    next
      case False
      then have x: "?x = to" using p(5) by simp
      then have "s' = s1" using go by (cases k) simp_all
      moreover have "unregister_loop k to to t = t" for t :: "'a chardev_scheme" by (cases k) simp_all
      ultimately show ?thesis using st(3) step x by simp
    qed
  qed
qed simp



text \<open>
  The last major has no next one: the loop over a range there goes on at device number 0, below
  every bound.
\<close>

lemma last_major_wraps:
  assumes "mi < 2 ^ 20"
  shows "next_dev (MKDEV 4095 mi) to = 0"
proof -
  have "MAJOR (MKDEV 4095 mi) = 4095" using assms by (intro MAJOR_MKDEV) simp_all
  moreover have "MKDEV 4096 0 = 0" by (rule word_uint_eqI) (simp add: MKDEV_def)
  ultimately show ?thesis by (simp add: next_dev_def)
qed

section \<open>What drivers rely on\<close>

text \<open>
  The contract between the registry and the drivers: \<open>look ma mi\<close> is the operations table that
  opening minor \<open>mi\<close> of major \<open>ma\<close> finds, \<open>vacant\<close> and \<open>owned\<close> say that nobody or somebody has the
  major, and \<open>tables\<close> is what two states must have in common to be the same to a driver.
\<close>

locale number_space =
  fixes reg :: "u32 \<Rightarrow> string \<Rightarrow> fops \<Rightarrow> 's \<Rightarrow> (kerror + int) \<times> 's"
    and unreg :: "u32 \<Rightarrow> 's \<Rightarrow> 's"
    and look :: "u32 \<Rightarrow> u32 \<Rightarrow> 's \<Rightarrow> fops option"
    and ready :: "'s \<Rightarrow> bool"
    and vacant :: "u32 \<Rightarrow> 's \<Rightarrow> bool"
    and owned :: "u32 \<Rightarrow> 's \<Rightarrow> bool"
    and tables :: "'s \<Rightarrow> 't"
  assumes look_registered: "ready s \<Longrightarrow> vacant ma s \<Longrightarrow> mi < 256 \<Longrightarrow> reg ma n f s = (Inr r, s') \<Longrightarrow> look ma mi s' = Some f"
    and registered: "ready s \<Longrightarrow> vacant ma s \<Longrightarrow> reg ma n f s = (Inr r, s') \<Longrightarrow> ready s' \<and> owned ma s'"
    and owned_refused: "ready s \<Longrightarrow> owned ma s \<Longrightarrow> reg ma n f s = (q, s') \<Longrightarrow> (\<exists>e. q = Inl e) \<and> tables s' = tables s"
    and unregistered: "ready s \<Longrightarrow> vacant ma s \<Longrightarrow> reg ma n f s = (Inr r, s') \<Longrightarrow> tables (unreg ma s') = tables s"
    and tables_look: "tables s = tables t \<Longrightarrow> look ma mi s = look ma mi t"
    and tables_ready: "tables s = tables t \<Longrightarrow> ready s = ready t \<and> vacant ma s = vacant ma t"
begin

lemma first_driver_stays:
  assumes "ready s" "vacant ma s" "mi < 256"
    and "reg ma n1 f1 s = (Inr r1, s1)" "reg ma n2 f2 s1 = (q, s2)"
  shows "(\<exists>e. q = Inl e) \<and> look ma mi s2 = Some f1"
proof -
  note r = registered [OF assms(1,2,4)]
  note o = owned_refused [OF conjunct1 [OF r] conjunct2 [OF r] assms(5)]
  then show ?thesis using look_registered [OF assms(1-4)] tables_look by metis
qed

lemma next_driver_loads:
  assumes "ready s" "vacant ma s" "mi < 256"
    and "reg ma n1 f1 s = (Inr r1, s1)" "reg ma n2 f2 (unreg ma s1) = (Inr r2, s2)"
  shows "look ma mi s2 = Some f2"
  using unregistered [OF assms(1,2,4)] tables_ready assms(1-3,5) look_registered by metis

end

definition look_major :: "u32 \<Rightarrow> u32 \<Rightarrow> 'a chardev_scheme \<Rightarrow> fops option" where
  "look_major ma mi s = kobj_lookup (MKDEV ma mi) s"

definition vacant_major :: "u32 \<Rightarrow> 'a chardev_scheme \<Rightarrow> bool" where
  "vacant_major ma s \<longleftrightarrow> 0 < ma \<and> ma < 4096 \<and> (\<forall>c \<in> regions s. major c \<noteq> ma) \<and>
     (\<forall>q \<in> set (probes s (unat ma mod 255)). \<forall>mi < 256. covers q (MKDEV ma mi) \<longrightarrow> 256 \<le> prange q)"

definition owned_major :: "u32 \<Rightarrow> 'a chardev_scheme \<Rightarrow> bool" where
  "owned_major ma s \<longleftrightarrow> 0 < ma \<and> ma < 4096 \<and> (\<exists>c \<in> regions s. major c = ma \<and> baseminor c = 0)"

definition tables_of :: "'a chardev_scheme \<Rightarrow> (int \<Rightarrow> region list) \<times> (nat \<Rightarrow> probe list) \<times> int" where
  "tables_of s = (chrdevs s, probes s, live s)"

lemma unregister_tables:
  "tables_of s = tables_of t \<Longrightarrow> tables_of (unregister_chrdev ma s) = tables_of (unregister_chrdev ma t)"
  by (auto simp: tables_of_def unregister_chrdev_def unregister_region_def cdev_del_def kobj_unmap_def Let_def
      kfree_def split: option.split)

lemma look_major_open:
  "look_major ma mi s = Some ops \<Longrightarrow> snd (chrdev_open open_fn (MKDEV ma mi) None s) = Some ops"
  by (simp add: look_major_def chrdev_open_def Let_def)

interpretation cdevs: number_space register_chrdev unregister_chrdev look_major registry_ok
  vacant_major owned_major tables_of
proof
  fix s s' :: "'a chardev_scheme" and ma mi :: u32 and n f r
  assume ok: "registry_ok s" and v: "vacant_major ma s" and reg: "register_chrdev ma n f s = (Inr r, s')"
  have ma: "ma < 4096" "ma \<noteq> 0" using v by (auto simp: vacant_major_def)
  have fit: "fits ma 0 256 s" using v by (auto simp: fits_def proper_256 vacant_major_def encloses_def)
  show "registry_ok s' \<and> owned_major ma s'"
    using register_chrdev_ok [OF ok ma reg fit] ma by (auto simp: owned_major_def word_gt_0)
  show "tables_of (unregister_chrdev ma s') = tables_of s"
    using register_chrdev_restored [OF ok ma reg] by (simp add: tables_of_def)
  assume mi: "mi < 256"
  show "look_major ma mi s' = Some f"
    using v mi lookup_registered [OF ma mi reg] by (auto simp: vacant_major_def look_major_def)
next
  fix s s' :: "'a chardev_scheme" and ma :: u32 and n f q
  assume ok: "registry_ok s" and o: "owned_major ma s" and reg: "register_chrdev ma n f s = (q, s')"
  from o obtain c where c: "ma < 4096" "ma \<noteq> 0" "c \<in> regions s" "major c = ma" "baseminor c = 0"
    by (auto simp: owned_major_def)
  show "(\<exists>e. q = Inl e) \<and> tables_of s' = tables_of s"
    using register_chrdev_refused [OF ok c, of n f] reg by (cases q) (auto simp: tables_of_def)
next
  fix s t :: "'a chardev_scheme" and ma mi :: u32
  assume "tables_of s = tables_of t"
  then show "look_major ma mi s = look_major ma mi t" "registry_ok s = registry_ok t \<and> vacant_major ma s = vacant_major ma t"
    by (simp_all add: tables_of_def look_major_def kobj_lookup_def registry_ok_def vacant_major_def regions_def)
qed

end
