(* ===== verification/Board.thy ===== *)
theory Board
  imports CharDev
begin

text \<open>
  The board the drivers run on: the registry of character devices with the registers of port F
  and the kernel's log, in which the formats stand without their newline, and the signals the kernel has
  sent, as process and number; and what the drivers use of the kernel, \<open>kmalloc\<close> for buffers and the copies from and to a process.
\<close>

record board = chardev +
  gpfcon :: u32
  gpfdat :: u32
  gpfup :: u32
  klog :: "(string \<times> int list) list"
  signals :: "(int \<times> int) list"

definition printk :: "string \<Rightarrow> int list \<Rightarrow> 'a board_scheme \<Rightarrow> 'a board_scheme" where
  "printk fmt as s = s\<lparr>klog := klog s @ [(fmt, as)]\<rparr>"

definition SIGUSR1 :: int where "SIGUSR1 = 10"

definition kill_proc :: "int \<Rightarrow> int \<Rightarrow> 'a board_scheme \<Rightarrow> 'a board_scheme" where
  "kill_proc pid sig s = s\<lparr>signals := signals s @ [(pid, sig)]\<rparr>"

text \<open>
  What \<open>kmalloc\<close> returns: no memory, the address of an empty object (\<open>ZERO_SIZE_PTR\<close>, which must
  not be read), or memory.
\<close>

datatype kptr = Null | ZeroSize | Mem

definition kmalloc_buf :: "nat \<Rightarrow> 'a kheap_scheme \<Rightarrow> kptr \<times> 'a kheap_scheme" where
  "kmalloc_buf count s =
     (if count = 0 then (ZeroSize, s)
      else case kmalloc s of (ok, s) \<Rightarrow> (if ok then Mem else Null, s))"

definition kfree_buf :: "kptr \<Rightarrow> 'a kheap_scheme \<Rightarrow> 'a kheap_scheme" where
  "kfree_buf p s = (if p = Mem then kfree s else s)"

text \<open>
  A user buffer is given by the bytes that are accessible at its address. The copies return what
  they copied and how many bytes they could not copy; kernel memory that is not there is an oops.
\<close>

definition copy_from_user :: "kptr \<Rightarrow> string \<Rightarrow> nat \<Rightarrow> kerror + string \<times> nat" where
  "copy_from_user k_buf user count =
     (if count \<noteq> 0 \<and> k_buf = Null then Inl Oops else Inr (take count user, count - length user))"

definition copy_to_user :: "nat \<Rightarrow> string \<Rightarrow> string \<times> nat" where
  "copy_to_user room k_buf = (take room k_buf, length k_buf - room)"

definition EFAULT :: kerror where "EFAULT = Errno (-14)"

text \<open>Reading \<open>k_buf[0]\<close>.\<close>

definition first_char :: "string \<Rightarrow> kerror + char" where
  "first_char k = (case k of [] \<Rightarrow> Inl Oops | c # _ \<Rightarrow> Inr c)"

lemma printk_simps [simp]:
  "chrdevs (printk f a s) = chrdevs s" "probes (printk f a s) = probes s" "live (printk f a s) = live s"
  "gpfdat (printk f a s) = gpfdat s" "gpfcon (printk f a s) = gpfcon s" "gpfup (printk f a s) = gpfup s"
  "kmallocs (printk f a s) = kmallocs s" "signals (printk f a s) = signals s"
  by (simp_all add: printk_def)

lemma kmalloc_board [simp]:
  "gpfdat (snd (kmalloc s)) = gpfdat s" "gpfcon (snd (kmalloc s)) = gpfcon s" "gpfup (snd (kmalloc s)) = gpfup s"
  "gpfdat (kfree s) = gpfdat s" "gpfcon (kfree s) = gpfcon s" "gpfup (kfree s) = gpfup s"
  by (auto simp: kmalloc_def kfree_def split: list.splits)

lemma registry_printk [simp]:
  "registry_ok (printk f a s) = registry_ok s" "vacant_major ma (printk f a s) = vacant_major ma s"
  "owned_major ma (printk f a s) = owned_major ma s" "look_major ma mi (printk f a s) = look_major ma mi s"
  by (simp_all add: registry_ok_def vacant_major_def owned_major_def look_major_def kobj_lookup_def regions_def)

lemma tables_of_printk [simp]: "tables_of (printk f a s) = tables_of s"
  by (simp add: tables_of_def)

end
