(* ===== verification/LedDriver.thy ===== *)
theory LedDriver
  imports Board
begin

unbundle bit_operations_syntax

text \<open>
  The LED drivers (thu/led/el2440_led.c, thu/homework/led_driver.c, fri/ledok/driver.c and the
  parts of fri/kernelTimer/el2440_led.c it shares with them) and the skeleton driver
  thu/mydrv-copy_to_user/mydrv.c, on the registry of character devices.
\<close>

section \<open>The LEDs\<close>

text \<open>The LEDs are bits 4 to 7 of port F, lit when the bit is clear.\<close>

definition led_display :: "int \<Rightarrow> 'a board_scheme \<Rightarrow> 'a board_scheme" where
  "led_display d s = s\<lparr>gpfdat :=
     (gpfdat s AND NOT (push_bit 4 0xf)) OR push_bit 4 (NOT (word_of_int d) AND 0xf)\<rparr>"

definition Led_Display :: "int \<Rightarrow> 'a board_scheme \<Rightarrow> 'a board_scheme" where
  "Led_Display d s = printk ''Led_Display : 0x%02x'' [d] (led_display d s)"

definition LED_MAJOR :: u32 where "LED_MAJOR = 240"

text \<open>\<open>led_open\<close>, \<open>led_release\<close> and \<open>led_read\<close> of the drivers in thu and fri/kernelTimer\<close>

definition led_open :: "'a board_scheme \<Rightarrow> int \<times> 'a board_scheme" where
  "led_open s = (0, printk ''led opened !!'' [] s)"

definition led_release :: "'a board_scheme \<Rightarrow> int \<times> 'a board_scheme" where
  "led_release s = (0, printk ''led released !!'' [] s)"

definition led_read :: "'a board_scheme \<Rightarrow> int \<times> 'a board_scheme" where
  "led_read s = (0, printk ''led_read is invoked'' [] s)"

text \<open>thu/led: a write counts to 99 on the LEDs, a quarter of a second each.\<close>

definition led_write_count :: "'a board_scheme \<Rightarrow> int \<times> 'a board_scheme" where
  "led_write_count s = (0, fold (\<lambda>i. Led_Display (int i)) [0..<100] (printk ''led_write is invoked'' [] s))"

text \<open>thu/homework: the first character of the buffer chooses a LED.\<close>

definition led_mode :: "char \<Rightarrow> int" where
  "led_mode number =
     (if number = CHR ''1'' then 1 else if number = CHR ''2'' then 2
      else if number = CHR ''3'' then 4 else if number = CHR ''4'' then 8 else 0)"

definition led_write_homework :: "string \<Rightarrow> nat \<Rightarrow> 'a board_scheme \<Rightarrow> (kerror + int) \<times> 'a board_scheme" where
  "led_write_homework user count s0 =
     (case kmalloc_buf count s0 of (p, s) \<Rightarrow>
      case copy_from_user p user count of
        Inl e \<Rightarrow> (Inl e, s)
      | Inr (k_buf, left) \<Rightarrow>
          if left \<noteq> 0 then (Inl EFAULT, s) else
          (case first_char k_buf of
             Inl e \<Rightarrow> (Inl e, s)
           | Inr number \<Rightarrow> (Inr 0, Led_Display (led_mode number) s)))"

text \<open>fri/ledok: the first byte of the buffer is shown.\<close>

definition led_write :: "string \<Rightarrow> nat \<Rightarrow> 'a board_scheme \<Rightarrow> (kerror + int) \<times> 'a board_scheme" where
  "led_write user count s0 =
     (case kmalloc_buf count s0 of (p, s) \<Rightarrow>
      case copy_from_user p user count of
        Inl e \<Rightarrow> (Inl e, s)
      | Inr (k_buf, left) \<Rightarrow>
          if left \<noteq> 0 then (Inl EFAULT, printk ''led_write() fail!'' [] s) else
          (case first_char k_buf of
             Inl e \<Rightarrow> (Inl e, s)
           | Inr c \<Rightarrow> (Inr 0, kfree_buf p (led_display (int (of_char c)) s))))"

text \<open>The quiet functions of fri/ledok.\<close>

definition led_quiet :: "'a board_scheme \<Rightarrow> int \<times> 'a board_scheme" where
  "led_quiet s = (0, s)"

text \<open>The port is configured once the major is registered.\<close>

definition gpf_setup :: "'a board_scheme \<Rightarrow> 'a board_scheme" where
  "gpf_setup s = s\<lparr>gpfcon := 0x55aa, gpfup := 0xff\<rparr>"

definition led_init :: "'a board_scheme \<Rightarrow> (kerror + int) \<times> 'a board_scheme" where
  "led_init s = (case register_chrdev LED_MAJOR ''led'' ''led_fops'' s of
       (Inl e, s) \<Rightarrow> (Inl e, printk ''led: %d character device driver can't be registered'' [240] s)
     | (Inr _, s) \<Rightarrow> (Inr 0, printk ''led registered!!'' [] (gpf_setup s)))"

definition led_exit :: "'a board_scheme \<Rightarrow> 'a board_scheme" where
  "led_exit s = printk ''led unregistered !!'' [] (unregister_chrdev LED_MAJOR s)"

definition ledok_init :: "'a board_scheme \<Rightarrow> (kerror + int) \<times> 'a board_scheme" where
  "ledok_init s = (case register_chrdev LED_MAJOR ''led'' ''led_fops'' s of
       (Inl e, s) \<Rightarrow> (Inl e, printk ''%d character device driver can't be registered.'' [240] s)
     | (Inr _, s) \<Rightarrow> (Inr 0, printk ''LED driver registered!'' [] (led_display 0 (gpf_setup s))))"

definition ledok_exit :: "'a board_scheme \<Rightarrow> 'a board_scheme" where
  "ledok_exit s = printk ''LED driver unregistered!'' [] (unregister_chrdev LED_MAJOR s)"

section \<open>The skeleton driver\<close>

record mydrv = board +
  mydrv_major :: u32

definition mydrv_open :: "'a board_scheme \<Rightarrow> int \<times> 'a board_scheme" where
  "mydrv_open s = (0, printk ''mydrv opened !!'' [] s)"

definition mydrv_release :: "'a board_scheme \<Rightarrow> int \<times> 'a board_scheme" where
  "mydrv_release s = (0, printk ''mydrv released !!'' [] s)"

text \<open>
  \<open>mydrv_read\<close> with a user buffer of \<open>room\<close> writable bytes: the result, what arrives in the buffer,
  and the new state. The characters are those from A on, modulo 256.
\<close>

definition mydrv_read :: "nat \<Rightarrow> nat \<Rightarrow> 'a board_scheme \<Rightarrow> (kerror + int) \<times> string \<times> 'a board_scheme" where
  "mydrv_read room count s0 =
     (case kmalloc_buf count s0 of (p, s) \<Rightarrow>
      if p = Null then (Inl Oops, [], s) else
      let k_buf = map (\<lambda>i. char_of (of_char CHR ''A'' + i :: nat)) [0..<count] in
      case copy_to_user room k_buf of (out, left) \<Rightarrow>
      if left \<noteq> 0 then (Inl EFAULT, out, s)
      else (Inr 0, out, kfree_buf p (printk ''mydrv_read is invoked'' [] s)))"

text \<open>\<open>mydrv_write\<close> prints the buffer as a string, which must end in it.\<close>

definition mydrv_write :: "string \<Rightarrow> nat \<Rightarrow> 'a board_scheme \<Rightarrow> (kerror + int) \<times> 'a board_scheme" where
  "mydrv_write user count s0 =
     (case kmalloc_buf count s0 of (p, s) \<Rightarrow>
      case copy_from_user p user count of
        Inl e \<Rightarrow> (Inl e, s)
      | Inr (k_buf, left) \<Rightarrow>
          if left \<noteq> 0 then (Inl EFAULT, s) else
          if \<not> terminated k_buf then (Inl Oops, s) else
          (Inr 0, kfree_buf p (printk ''mydrv_write is invoked'' [] (printk (''k_buf = '' @ c_str k_buf) [] s))))"

definition mydrv_setup_cdev :: "u32 \<Rightarrow> 'a mydrv_scheme \<Rightarrow> 'a mydrv_scheme" where
  "mydrv_setup_cdev minor s =
     (case cdev_add ''mydrv_fops'' (MKDEV (mydrv_major s) minor) 1 s of
        (Inl e, s) \<Rightarrow> printk ''Error %d adding mydrv%d'' [case e of Errno n \<Rightarrow> n | Oops \<Rightarrow> 0, uint minor] s
      | (Inr _, s) \<Rightarrow> s)"

definition mydrv_init :: "'a mydrv_scheme \<Rightarrow> (kerror + int) \<times> 'a mydrv_scheme" where
  "mydrv_init s =
     (case (if mydrv_major s \<noteq> 0
            then register_chrdev_region (MKDEV (mydrv_major s) 0) 1 ''mydrv'' s
            else (case alloc_chrdev_region 0 1 ''mydrv'' s of
                    (Inl e, s) \<Rightarrow> (Inl e, s\<lparr>mydrv_major := MAJOR (MKDEV 0 0)\<rparr>)
                  | (Inr dev, s) \<Rightarrow> (Inr (), s\<lparr>mydrv_major := MAJOR dev\<rparr>))) of
        (Inl e, s) \<Rightarrow> (Inl e, printk ''mydrv: unable to get major %d'' [uint (mydrv_major s)] s)
      | (Inr _, s) \<Rightarrow> (Inr 0, printk ''mydrv_init done'' [] (mydrv_setup_cdev 0 s)))"

definition mydrv_exit :: "'a mydrv_scheme \<Rightarrow> 'a mydrv_scheme" where
  "mydrv_exit s =
     printk ''mydrv_exit done'' []
       (unregister_chrdev_region (MKDEV (mydrv_major s) 0) 1
         (cdev_del False (MKDEV (mydrv_major s) 0) 1 s))"

section \<open>What the drivers do to the board\<close>

lemma led_display_simps [simp]:
  "chrdevs (led_display d s) = chrdevs s" "probes (led_display d s) = probes s" "live (led_display d s) = live s"
  "kmallocs (led_display d s) = kmallocs s" "gpfcon (led_display d s) = gpfcon s" "gpfup (led_display d s) = gpfup s"
  by (simp_all add: led_display_def)

lemma gpf_setup_simps [simp]:
  "chrdevs (gpf_setup s) = chrdevs s" "probes (gpf_setup s) = probes s" "live (gpf_setup s) = live s"
  "gpfdat (gpf_setup s) = gpfdat s" "kmallocs (gpf_setup s) = kmallocs s"
  by (simp_all add: gpf_setup_def)

lemma Led_Display_simps [simp]:
  "gpfdat (Led_Display d s) = gpfdat (led_display d s)" "live (Led_Display d s) = live s"
  "kmallocs (Led_Display d s) = kmallocs s"
  by (simp_all add: Led_Display_def)

lemma gpfdat_bits:
  "bit (gpfdat (led_display d s)) n \<longleftrightarrow> (if 4 \<le> n \<and> n < 8 then \<not> bit d (n - 4) else bit (gpfdat s) n)"
proof -
  have m: "(0xf :: u32) = mask 4" by (simp add: mask_eq_exp_minus_1)
  show ?thesis
    by (cases "n < 32")
      (auto simp: led_display_def m bit_or_iff bit_and_iff bit_not_iff bit_push_bit_iff bit_mask_iff
        bit_word_of_int_iff not_le not_less possible_bit_word dest: bit_imp_le_length)
qed

lemma gpfdat_cong: "gpfdat s = gpfdat t \<Longrightarrow> gpfdat (led_display d s) = gpfdat (led_display d t)"
  by (simp add: led_display_def)

lemma gpfdat_again:
  assumes "gpfdat t = gpfdat (led_display d s)"
  shows "gpfdat (led_display e t) = gpfdat (led_display e s)"
proof (rule bit_eqI)
  fix n
  show "bit (gpfdat (led_display e t)) n = bit (gpfdat (led_display e s)) n"
    unfolding gpfdat_bits assms by simp
qed

text \<open>
  The LEDs and nothing else. Displaying a value changes exactly bits 4 to 7 of the port, and
  there LED \<open>k\<close> is lit (its bit is 0) just when bit \<open>k\<close> of the value is set.
\<close>

theorem led_display_exact:
  "bit (gpfdat (led_display d s)) n \<longleftrightarrow> (if 4 \<le> n \<and> n < 8 then \<not> bit d (n - 4) else bit (gpfdat s) n)"
  by (rule gpfdat_bits)

text \<open>
  C34. A write to the LED device of fri/ledok, on every branch. The first byte of the user's buffer
  is shown, the write returns 0 and keeps no memory. If not all of the bytes can be copied, it
  fails with \<open>EFAULT\<close>, the LEDs stay, and the kernel buffer is lost. A write of no bytes reads
  memory that is not there, and so does a write for which \<open>kmalloc\<close> fails.
\<close>

theorem led_write_exact:
  "case led_write user count s of (q, s') \<Rightarrow>
     if count = 0 then q = Inl Oops \<and> s' = s
     else if \<not> fst (kmalloc s) then q = Inl Oops \<and> gpfdat s' = gpfdat s
     else if length user < count then q = Inl EFAULT \<and> gpfdat s' = gpfdat s \<and> live s' = live s + 1
     else q = Inr 0 \<and> gpfdat s' = gpfdat (led_display (int (of_char (hd user))) s) \<and> live s' = live s"
proof (cases "count = 0")
  case True
  then show ?thesis by (simp add: led_write_def kmalloc_buf_def copy_from_user_def first_char_def)
next
  case False
  show ?thesis
  proof (cases "fst (kmalloc s)")
    case no: False
    with False show ?thesis
      by (simp add: led_write_def kmalloc_buf_def copy_from_user_def case_prod_beta)
  next
    case True
    note kl = kmalloc_live [of s, simplified True, simplified]
    show ?thesis
    proof (cases "length user < count")
      case short: True
      with True False kl show ?thesis
        by (simp add: led_write_def kmalloc_buf_def copy_from_user_def case_prod_beta)
    next
      case enough: False
      then obtain c u where u: "user = c # u" using False by (cases user) auto
      have "take count user = c # take (count - 1) u" using False by (cases count) (simp_all add: u)
      then show ?thesis
        using True False enough kl
        by (simp add: led_write_def kmalloc_buf_def copy_from_user_def case_prod_beta first_char_def
            kfree_buf_def u) (simp add: led_display_def)
    qed
  qed
qed

definition led_board :: board where
  "led_board = \<lparr>kmallocs = [], live = 0, chrdevs = (\<lambda>_. []), probes = (\<lambda>_. [base_probe]),
     gpfcon = 0, gpfdat = 0xff, gpfup = 0, klog = [], signals = []\<rparr>"

lemma led_write_exact_witness:
  "fst (led_write ''ab'' 2 led_board) = Inr 0 \<and> live (snd (led_write ''ab'' 2 led_board)) = 0"
  using led_write_exact [where user = "''ab''" and count = 2 and s = led_board]
  by (simp add: led_board_def kmalloc_def case_prod_beta)

lemma homework_write_ok:
  assumes "kmallocs s = []" "user = c # u"
  shows "led_write_homework user (length user) s =
    (Inr 0, Led_Display (led_mode c) (s\<lparr>live := live s + 1\<rparr>))"
  using assms by (simp add: led_write_homework_def kmalloc_buf_def kmalloc_def copy_from_user_def first_char_def)

text \<open>
  The homework driver loses memory. Every successful write leaves its kernel buffer
  allocated: after the writes \<open>us\<close> as many more objects are in use as there were writes, and the
  LEDs show only the last one, one LED for the digits 1 to 4 and none for any other character.
\<close>

theorem homework_driver_leaks:
  assumes "kmallocs s = []" "\<forall>u \<in> set us. u \<noteq> []"
  shows "let s' = fold (\<lambda>u s. snd (led_write_homework u (length u) s)) us s in
    live s' = live s + int (length us) \<and>
    gpfdat s' = (if us = [] then gpfdat s else gpfdat (led_display (led_mode (hd (last us))) s))"
  using assms
proof (induction us rule: rev_induct)
  case (snoc u us)
  let ?s = "fold (\<lambda>u s. snd (led_write_homework u (length u) s)) us s"
  have k: "kmallocs ?s = []"
    using snoc.prems
  proof (induction us rule: rev_induct)
    case (snoc v vs)
    moreover obtain c w where "v = c # w" using snoc.prems(2) by (cases v) auto
    ultimately show ?case by (simp add: homework_write_ok [where user = "c # w", simplified])
  qed simp
  obtain c w where u: "u = c # w" using snoc.prems(2) by (cases u) auto
  have "gpfdat (led_display (led_mode c) ?s) = gpfdat (led_display (led_mode c) s)"
    if "gpfdat ?s = (if us = [] then gpfdat s else gpfdat (led_display (led_mode (hd (last us))) s))"
    using that gpfdat_again gpfdat_cong by (auto split: if_splits)
  then show ?case
    using snoc homework_write_ok [OF k u] by (simp add: u Let_def) (simp add: led_display_def)
qed simp

lemma homework_driver_leaks_witness:
  "live (fold (\<lambda>u s. snd (led_write_homework u (length u) s)) [''1'', ''3''] led_board) = 2"
  using homework_driver_leaks [of led_board "[''1'', ''3'']"] by (simp add: led_board_def Let_def)

section \<open>One major, several drivers\<close>

lemma tables_of_board [simp]:
  "tables_of (led_display d s) = tables_of s"
  "tables_of (gpf_setup s) = tables_of s"
  by (simp_all add: tables_of_def)

lemma registry_gpf_setup [simp]:
  "registry_ok (gpf_setup s) = registry_ok s" "owned_major ma (gpf_setup s) = owned_major ma s"
  "look_major ma mi (gpf_setup s) = look_major ma mi s"
  by (simp_all add: registry_ok_def owned_major_def look_major_def kobj_lookup_def regions_def)

lemma led_init_Inr:
  assumes "led_init s = (Inr r, s1)"
  obtains r0 t where "register_chrdev LED_MAJOR ''led'' ''led_fops'' s = (Inr r0, t)"
    "s1 = printk ''led registered!!'' [] (gpf_setup t)"
  using assms by (auto simp: led_init_def split: prod.splits sum.splits)

lemma led_init_owns:
  assumes "registry_ok s" "vacant_major LED_MAJOR s" "led_init s = (Inr r, s1)"
  shows "registry_ok s1" "owned_major LED_MAJOR s1" "mi < 256 \<Longrightarrow> look_major LED_MAJOR mi s1 = Some ''led_fops''"
proof -
  obtain r0 t where t: "register_chrdev LED_MAJOR ''led'' ''led_fops'' s = (Inr r0, t)"
    "s1 = printk ''led registered!!'' [] (gpf_setup t)"
    using led_init_Inr [OF assms(3)] by metis
  show "registry_ok s1" "owned_major LED_MAJOR s1"
    using cdevs.registered [OF assms(1,2) t(1)] by (simp_all add: t(2))
  show "mi < 256 \<Longrightarrow> look_major LED_MAJOR mi s1 = Some ''led_fops''"
    using cdevs.look_registered [OF assms(1,2) _ t(1)] by (simp add: t(2))
qed

text \<open>The skeleton driver asks for a single number of major 240.\<close>

lemma device_240: "MKDEV 240 0 = 0x0f000000" "MAJOR 0x0f000000 = 240" "MINOR 0x0f000000 = 0"
  "next_dev 0x0f000000 0x0f000001 = 0x0f000001" "span 0x0f000000 1 = 1" "chain_of 0x0f000000 0 = 240"
  by (simp_all add: MKDEV_def MAJOR_def MINOR_def next_dev_def span_def chain_of_def)

lemma rollback_nothing [simp]: "rollback k n n s = s"
  by (cases k) simp_all

lemma one_device:
  "register_chrdev_region (MKDEV 240 0) 1 name s =
    (case register_region 240 0 1 name s of (Inr _, s) \<Rightarrow> (Inr (), s) | (Inl e, s) \<Rightarrow> (Inl e, s))"
proof -
  have n: "(4097 :: nat) = Suc (Suc 4095)" "(4096 :: nat) = Suc 4095" by simp_all
  show ?thesis
    by (simp only: register_chrdev_region_def device_240 n register_loop.simps)
       (simp add: device_240 Let_def split: prod.split sum.split)
qed

lemma one_device_back: "unregister_chrdev_region (MKDEV 240 0) 1 s = drop_region 240 0 1 s"
proof -
  have n: "(4097 :: nat) = Suc (Suc 4095)" by simp
  show ?thesis
    by (simp only: unregister_chrdev_region_def device_240 n unregister_loop.simps)
       (simp add: device_240 Let_def)
qed

lemma one_device_refused:
  assumes ok: "registry_ok s" and own: "owned_major 240 s"
    and reg: "register_region 240 0 1 name s = (q, s')"
  shows "\<exists>e. q = Inl e" "tables_of s' = tables_of s"
proof -
  obtain c where c: "c \<in> regions s" "major c = 240" "baseminor c = 0" using own by (auto simp: owned_major_def)
  then have "c \<in> set (chrdevs s (major_to_index 240))" using ok by (simp add: regions_iff)
  moreover have "proper (new_region 240 0 1 name)" by (simp add: proper_def)
  ultimately have none: "insert_region (new_region 240 0 1 name) (chrdevs s (major_to_index 240)) = None"
    using c(2,3) by (intro insert_region_taken [OF registry_okD(1) [OF ok]]) simp_all
  have b: "(240 :: u32) < 4096" by simp
  have mf: "major_for 240 s = Some 240" by (simp add: major_for_def)
  have "(\<exists>e. q = Inl e) \<and> tables_of s' = tables_of s"
    using b
  proof (cases rule: register_region_cases [where base = 0 and ct = 1 and name = name and s = s])
    case nomem
    then show ?thesis using reg kmalloc_live [of s] by (auto simp: tables_of_def)
  next
    case (busy m)
    then show ?thesis using reg kmalloc_live [of s] by (auto simp: tables_of_def)
  qed (use mf none in simp_all)
  then show "\<exists>e. q = Inl e" "tables_of s' = tables_of s" by simp_all
qed

lemma register_region_gpfdat: "gpfdat (snd (register_region ma base ct name s)) = gpfdat s"
  by (auto simp: register_region_def Let_def case_prod_beta split: option.splits)

lemma drop_region_gpfdat: "gpfdat (drop_region ma base ct s) = gpfdat s"
  by (simp add: drop_region_simps)

lemma kobj_map_gpfdat: "gpfdat (snd (kobj_map dev rng ops s)) = gpfdat s"
  by (simp add: kobj_map_def Let_def case_prod_beta)

lemma register_chrdev_gpfdat: "gpfdat (snd (register_chrdev ma name ops s)) = gpfdat s"
  using register_region_gpfdat [of ma 0 256 name s]
  by (auto simp: register_chrdev_def cdev_add_def Let_def case_prod_beta drop_region_gpfdat kobj_map_gpfdat
      split: sum.splits bool.splits)

text \<open>
  The drivers exclude each other. They all claim major 240. With a LED driver loaded, loading
  a second one fails, and so does the skeleton driver; the registry is as it was, the port is not
  set up again, and opening any of the LED minors still finds the first driver. \<close>

theorem drivers_exclude:
  fixes s :: "'a mydrv_scheme"
  assumes "registry_ok s" "vacant_major LED_MAJOR s" "led_init s = (Inr r, s1)" "mi < 256"
    and "mydrv_major s1 = 240" "ledok_init s1 = (q2, s2)" "mydrv_init s1 = (q3, s3)"
  shows "(\<exists>e. q2 = Inl e) \<and> tables_of s2 = tables_of s1 \<and> gpfdat s2 = gpfdat s1 \<and>
     (\<exists>e. q3 = Inl e) \<and> tables_of s3 = tables_of s1 \<and>
     look_major LED_MAJOR mi s2 = Some ''led_fops'' \<and> look_major LED_MAJOR mi s3 = Some ''led_fops''"
proof -
  note own = led_init_owns [OF assms(1-3)]
  obtain q t where t: "register_chrdev LED_MAJOR ''led'' ''led_fops'' s1 = (q, t)" by fastforce
  obtain e where q: "q = Inl e" "tables_of t = tables_of s1"
    using cdevs.owned_refused [OF own(1,2) t] by auto
  have g: "gpfdat t = gpfdat s1"
    using register_chrdev_gpfdat [of LED_MAJOR "''led''" "''led_fops''" s1] t by simp
  have 2: "q2 = Inl e" "tables_of s2 = tables_of s1" "gpfdat s2 = gpfdat s1"
    using assms(6) t q g by (auto simp: ledok_init_def)
  obtain q' t' where t': "register_region 240 0 1 ''mydrv'' s1 = (q', t')" by fastforce
  obtain e' where q': "q' = Inl e'" "tables_of t' = tables_of s1"
    using one_device_refused [OF own(1) own(2) [unfolded LED_MAJOR_def] t'] by auto
  have 3: "q3 = Inl e'" "tables_of s3 = tables_of s1"
    using assms(5,7) t' q' by (auto simp: mydrv_init_def one_device)
  show ?thesis
    using 2 3 own(3) [OF assms(4)] cdevs.tables_look by metis
qed

definition mydrv_board :: mydrv where
  "mydrv_board = \<lparr>kmallocs = [], live = 0, chrdevs = (\<lambda>_. []), probes = (\<lambda>_. [base_probe]),
     gpfcon = 0, gpfdat = 0xff, gpfup = 0, klog = [], signals = [], mydrv_major = 240\<rparr>"

lemma mydrv_board_ok: "registry_ok mydrv_board" "0 < ma \<Longrightarrow> ma < 4096 \<Longrightarrow> vacant_major ma mydrv_board"
  by (simp_all add: mydrv_board_def registry_ok_def ordered_def vacant_major_def regions_def base_probe_def)

lemmas register_run = register_chrdev_def register_region_def Let_def kmalloc_def major_to_index
  insert_region_def cdev_add_def kobj_map_def

lemma led_init_mydrv_board:
  "led_init mydrv_board = (Inr 0, snd (led_init mydrv_board))" "mydrv_major (snd (led_init mydrv_board)) = 240"
proof -
  have "fst (led_init mydrv_board) = Inr 0"
    by (simp add: led_init_def LED_MAJOR_def mydrv_board_def register_run)
  then show "led_init mydrv_board = (Inr 0, snd (led_init mydrv_board))" by (metis prod.collapse)
  show "mydrv_major (snd (led_init mydrv_board)) = 240"
    by (simp add: led_init_def LED_MAJOR_def mydrv_board_def register_run gpf_setup_def printk_def)
qed

lemma drivers_exclude_witness:
  "look_major 240 3 (snd (mydrv_init (snd (led_init mydrv_board)))) = Some ''led_fops''"
  using drivers_exclude [OF mydrv_board_ok(1) _ led_init_mydrv_board(1) _ led_init_mydrv_board(2)
      prod.collapse [symmetric] prod.collapse [symmetric], of 3]
  by (simp add: mydrv_board_ok LED_MAJOR_def)

section \<open>The skeleton driver's buffers and its life\<close>

text \<open>
  Reading from the skeleton driver. If the reader's buffer has room for them, it receives
  exactly \<open>count\<close> characters, counting on from A modulo 256, and no memory is kept; but the read
  returns 0, which says that nothing was read. Without the room it fails with \<open>EFAULT\<close>, and the
  kernel buffer is lost.
\<close>

theorem mydrv_read_exact:
  assumes "0 < count" "fst (kmalloc s)"
  shows "case mydrv_read room count s of (q, out, s') \<Rightarrow>
     (\<forall>i < length out. of_char (out ! i) = (65 + i) mod 256) \<and> length out = min room count \<and>
     (if count \<le> room then q = Inr 0 \<and> live s' = live s else q = Inl EFAULT \<and> live s' = live s + 1)"
proof -
  have "live (snd (kmalloc s)) = live s + 1" using assms(2) kmalloc_live [of s] by simp
  then show ?thesis
    using assms by (auto simp: mydrv_read_def kmalloc_buf_def case_prod_beta copy_to_user_def Let_def kfree_buf_def)
qed

lemma mydrv_read_exact_witness:
  "length (fst (snd (mydrv_read 100 100 mydrv_board))) = 100 \<and> fst (mydrv_read 100 100 mydrv_board) = Inr 0"
  using mydrv_read_exact [of 100 mydrv_board 100] by (auto simp: mydrv_board_def kmalloc_def case_prod_beta)

text \<open>Adding and removing the device of one number.\<close>

lemma cdev_240_roundtrip:
  assumes "\<forall>q \<in> set (probes s 240). \<forall>mi < 256. covers q (MKDEV 240 mi) \<longrightarrow> 256 \<le> prange q"
  shows "probes (cdev_del False (MKDEV 240 0) 1 (snd (cdev_add ops (MKDEV 240 0) 1 s))) = probes s"
    "live (cdev_del False (MKDEV 240 0) 1 (snd (cdev_add ops (MKDEV 240 0) 1 s))) = live s"
proof -
  let ?p = "\<lparr>pdev = 0x0f000000, prange = 1, pdata = Some ops\<rparr>"
  note ins = remove_inserted_probe [of ?p "probes s 240", simplified]
  have none: "\<forall>q \<in> set (probes s 240). \<not> same_probe 0x0f000000 1 q"
  proof
    fix q assume q: "q \<in> set (probes s 240)"
    show "\<not> same_probe 0x0f000000 1 q"
    proof
      assume sp: "same_probe 0x0f000000 1 q"
      then have "covers q (MKDEV 240 0)" by (simp add: covers_def same_probe_def device_240)
      then have "256 \<le> prange q" using bspec [OF assms q, rule_format, of 0] by simp
      then show False using sp by (simp add: same_probe_def word_le_def)
    qed
  qed
  then have n: "find (same_probe 0x0f000000 1) (probes s 240) = None"
    and r: "remove_first (same_probe 0x0f000000 1) (probes s 240) = probes s 240"
    by (auto simp: find_None_iff remove_first_none)
  show "probes (cdev_del False (MKDEV 240 0) 1 (snd (cdev_add ops (MKDEV 240 0) 1 s))) = probes s"
    "live (cdev_del False (MKDEV 240 0) 1 (snd (cdev_add ops (MKDEV 240 0) 1 s))) = live s"
    using kmalloc_live [of s] ins n r
    by (auto simp: cdev_del_def kobj_unmap_def cdev_add_def kobj_map_def Let_def case_prod_beta device_240)
qed

lemma cdev_240_chrdevs:
  "chrdevs (cdev_del False dev 1 s) = chrdevs s" "chrdevs (snd (cdev_add ops dev 1 s)) = chrdevs s"
  by (auto simp: cdev_del_def kobj_unmap_def Let_def cdev_add_def kobj_map_def case_prod_beta)

lemma tables_of_cdev_del:
  "tables_of s = tables_of t \<Longrightarrow> tables_of (cdev_del False dev 1 s) = tables_of (cdev_del False dev 1 t)"
  by (auto simp: tables_of_def cdev_del_def kobj_unmap_def Let_def)

lemma tables_of_drop:
  "tables_of s = tables_of t \<Longrightarrow> tables_of (drop_region ma b c s) = tables_of (drop_region ma b c t)"
  by (simp add: tables_of_def drop_region_simps)

lemma tables_of_same: "same_tables s t \<longleftrightarrow> tables_of s = tables_of t"
  by (simp add: same_tables_def tables_of_def)

lemma mydrv_setup_tables:
  "tables_of (mydrv_setup_cdev 0 s) = tables_of (snd (cdev_add ''mydrv_fops'' (MKDEV (mydrv_major s) 0) 1 s))"
  by (simp add: mydrv_setup_cdev_def case_prod_beta split: sum.split)

lemma mydrv_setup_major: "mydrv_major (mydrv_setup_cdev mi s) = mydrv_major s"
  by (auto simp: mydrv_setup_cdev_def cdev_add_def kobj_map_def Let_def case_prod_beta printk_def kmalloc_def
      split: sum.split list.splits)

lemma register_region_major: "mydrv_major (snd (register_region ma base ct name s)) = mydrv_major s"
  by (auto simp: register_region_def Let_def case_prod_beta kmalloc_def kfree_def split: option.splits list.splits)

text \<open>
  The skeleton driver leaves no trace. For the major 240 it has by default, a load that
  succeeds followed by an unload restores the registry, the devices and the memory in use, also
  when the device itself could not be added in between.
\<close>

theorem mydrv_roundtrip:
  assumes "registry_ok s" "vacant_major 240 s" "mydrv_major s = 240" "mydrv_init s = (Inr r, s1)"
  shows "tables_of (mydrv_exit s1) = tables_of s"
proof -
  obtain cd t where t: "register_region 240 0 1 ''mydrv'' s = (Inr cd, t)"
    and s1: "s1 = printk ''mydrv_init done'' [] (mydrv_setup_cdev 0 t)"
    using assms(3,4) by (auto simp: mydrv_init_def one_device split: prod.splits sum.splits)
  have fit: "fits 240 0 1 s" using assms(2) by (auto simp: fits_def proper_def vacant_major_def encloses_def)
  have restored: "tables_of (drop_region 240 0 1 t) = tables_of s"
    using drop_registered [OF assms(1) _ _ fit t] by (simp add: tables_of_same)
  have mt: "mydrv_major t = 240" using register_region_major [of 240 0 1 "''mydrv''" s] t assms(3) by simp
  have "fst (kmalloc s)" and pt: "probes t = probes s"
    using t by (auto simp: register_region_def Let_def case_prod_beta split: if_splits option.splits)
  then have vt: "probes t = probes s" by simp
  let ?a = "snd (cdev_add ''mydrv_fops'' (MKDEV 240 0) 1 t)"
  have "probes (cdev_del False (MKDEV 240 0) 1 ?a) = probes t \<and> live (cdev_del False (MKDEV 240 0) 1 ?a) = live t"
    using cdev_240_roundtrip [of t] assms(2) by (simp add: vt vacant_major_def)
  then have del: "tables_of (cdev_del False (MKDEV 240 0) 1 ?a) = tables_of t"
    by (simp add: tables_of_def cdev_240_chrdevs)
  have "tables_of s1 = tables_of ?a" by (simp add: s1 mydrv_setup_tables mt)
  then have "tables_of (cdev_del False (MKDEV 240 0) 1 s1) = tables_of t"
    using tables_of_cdev_del del by metis
  then have "tables_of (drop_region 240 0 1 (cdev_del False (MKDEV 240 0) 1 s1)) = tables_of s"
    using tables_of_drop restored by metis
  moreover have "mydrv_major s1 = 240" by (simp add: s1 mydrv_setup_major mt printk_def)
  ultimately show ?thesis by (simp add: mydrv_exit_def one_device_back)
qed

lemma mydrv_init_board: "mydrv_init mydrv_board = (Inr 0, snd (mydrv_init mydrv_board))"
proof -
  have "fst (mydrv_init mydrv_board) = Inr 0"
    unfolding mydrv_init_def by (simp add: mydrv_board_def one_device register_run)
  then show ?thesis by (metis prod.collapse)
qed

lemma mydrv_roundtrip_witness: "live (mydrv_exit (snd (mydrv_init mydrv_board))) = 0"
  using mydrv_roundtrip [OF mydrv_board_ok(1) _ _ mydrv_init_board]
  by (simp add: mydrv_board_ok tables_of_def) (simp add: mydrv_board_def)

text \<open>
  A load that reports success without a device. When the memory for the device's entry in the
  map is not there, \<open>mydrv_init\<close> only logs it: it returns 0 with its number reserved, and opening
  the device finds nothing.
\<close>

theorem mydrv_without_device:
  assumes "registry_ok s" "vacant_major 240 s" "mydrv_major s = 240" "kmallocs s = [True, False]"
    and "probes s 240 = [base_probe]"
  shows "\<exists>s1. mydrv_init s = (Inr 0, s1) \<and> look_major 240 0 s1 = None \<and>
    (\<exists>c \<in> regions s1. major c = 240 \<and> baseminor c = 0)"
proof -
  obtain q t where t: "register_region 240 0 1 ''mydrv'' s = (q, t)" by fastforce
  have b: "(240 :: u32) < 4096" by simp
  have fit: "fits 240 0 1 s" using assms(2) by (auto simp: fits_def proper_def vacant_major_def encloses_def)
  have k: "fst (kmalloc s)" using assms(4) by (simp add: kmalloc_def)
  have "\<exists>cd. q = Inr cd"
  proof (rule ccontr)
    assume "\<not> (\<exists>cd. q = Inr cd)"
    then obtain e where "q = Inl e" by (cases q) auto
    then show False
      using register_region_fails(4) [OF assms(1) b fit t [unfolded \<open>q = Inl e\<close>]] k assms(2)
      by (auto simp: vacant_major_def major_for_def)
  qed
  then obtain cd where q: "q = Inr cd" by blast
  note ok = register_region_ok [OF assms(1) b fit t [unfolded q]]
  have cd: "cd \<in> regions t" "major cd = 240" "baseminor cd = 0" using ok(2,4) by (auto simp: major_for_def)
  have kt: "kmallocs t = [False]" "probes t = probes s" "mydrv_major t = 240"
    using t q assms(3,4) register_region_major [of 240 0 1 "''mydrv''" s]
    by (auto simp: register_region_def Let_def kmalloc_def split: option.splits if_splits)
  have s1: "mydrv_init s = (Inr 0, printk ''mydrv_init done'' [] (printk ''Error %d adding mydrv%d'' [-12, 0] (snd (kmalloc t))))"
    using assms(3) t q kt
    by (simp add: mydrv_init_def one_device mydrv_setup_cdev_def cdev_add_def kobj_map_def kmalloc_def ENOMEM_def)
  have "look_major 240 0 s = None"
    using assms(5) by (simp add: look_major_def kobj_lookup_def device_240 base_probe_def lookup_chain.simps)
  then show ?thesis
    using cd kt(2) unfolding s1
    by (auto simp: look_major_def kobj_lookup_def regions_def)
qed

lemma mydrv_without_device_witness:
  "fst (mydrv_init (mydrv_board\<lparr>kmallocs := [True, False]\<rparr>)) = Inr 0 \<and>
   look_major 240 0 (snd (mydrv_init (mydrv_board\<lparr>kmallocs := [True, False]\<rparr>))) = None"
proof -
  let ?s = "mydrv_board\<lparr>kmallocs := [True, False]\<rparr>"
  have "registry_ok ?s" "vacant_major 240 ?s" "mydrv_major ?s = 240" "kmallocs ?s = [True, False]"
    "probes ?s 240 = [base_probe]"
    by (simp_all add: mydrv_board_def registry_ok_def ordered_def vacant_major_def regions_def base_probe_def)
  from mydrv_without_device [OF this] show ?thesis by auto
qed

end
