(* ===== verification/LedControl.thy ===== *)
theory LedControl
  imports Sockets LedDriver
begin

text \<open>
  The programs that drive the LEDs: the network control of fri/ledok (client.c, server.c), the one
  of thu/homework (client.c, test_app.c), and the small users of the devices (thu/led/test.c,
  thu/mydrv-copy_to_user/test_mydrv.c, wen/led_driver/myapp.c). What a program writes to the device
  is what the driver of theory LedDriver gets.
\<close>

section \<open>fri/ledok\<close>

text \<open>\<open>struct _msg\<close>, four bytes, one per LED.\<close>

record led_msg =
  b1 :: u8
  b2 :: u8
  b3 :: u8
  b4 :: u8

definition msg_bytes :: "led_msg \<Rightarrow> string" where
  "msg_bytes m = string_of [b1 m, b2 m, b3 m, b4 m]"

definition msg_of :: "string \<Rightarrow> led_msg" where
  "msg_of s = (let bs = bytes_of s in \<lparr>b1 = bs ! 0, b2 = bs ! 1, b3 = bs ! 2, b4 = bs ! 3\<rparr>)"

definition lnot :: "u8 \<Rightarrow> u8" where
  "lnot b = (if b = 0 then 1 else 0)"

definition toggle :: "int \<Rightarrow> led_msg \<Rightarrow> led_msg" where
  "toggle which m =
     (if which = 1 then m\<lparr>b1 := lnot (b1 m)\<rparr> else if which = 2 then m\<lparr>b2 := lnot (b2 m)\<rparr>
      else if which = 3 then m\<lparr>b3 := lnot (b3 m)\<rparr> else m\<lparr>b4 := lnot (b4 m)\<rparr>)"

text \<open>
  The number \<open>scanf("%d")\<close> converts is the value of the reply, its result the number of
  conversions.
\<close>

definition scanf_d :: "(int \<times> int) prog" where
  "scanf_d = sys Scanf (\<lambda>r. (r_ret r, r_errno r))"

definition ledclient_iter :: "fd \<Rightarrow> led_msg \<Rightarrow> (led_msg, unit) iter prog" where
  "ledclient_iter sock msg =
     pseq (printf ''1)LED1   2)LED2   3)LED3   4)LED4   5)Quit : '' [])
    (pbind scanf_d (\<lambda>(res, n).
     let which = (if res \<noteq> 1 then 5 else n) in
     if which = 5 then pseq (emit (Close sock)) (pexit 0)
     else if which \<notin> {1, 2, 3, 4} then pret (Next msg)
     else let msg = toggle which msg in
       pbind (sys_ret (Send sock (msg_bytes msg))) (\<lambda>res.
       if res < 0 then pseq (perror ''send()'') (pret (Stop ())) else pret (Next msg))))"

definition ledclient_main :: "string list \<Rightarrow> unit prog" where
  "ledclient_main argv =
     (if length argv \<noteq> 3 then pseq (printf ''Usage: %s <IP> <Port>\<newline>'' [S (hd argv)]) (pexit 1) else
      pbind (sys_ret (Socket 2 1 0)) (\<lambda>sock.
      if sock < 0 then pseq (perror ''socket()'') (pexit 1) else
      pbind (sys_ret (Connect sock (sock_addr (atoi (argv ! 2)) (inet_addr (argv ! 1))))) (\<lambda>res.
      if res < 0 then pseq (perror ''connect()'') (pexit 1) else
      pseq (loop (ledclient_iter sock) \<lparr>b1 = 0, b2 = 0, b3 = 0, b4 = 0\<rparr>)
      (emit (Close sock)))))"

text \<open>The variables of the server: the message, uninitialised at first, and the static buffer.\<close>

record ledserver =
  cur_msg :: string
  cur_buf :: string

definition led_ctrl :: "fd \<Rightarrow> u8 \<Rightarrow> u8 \<Rightarrow> u8 \<Rightarrow> u8 \<Rightarrow> string \<Rightarrow> string prog" where
  "led_ctrl device led1 led2 led3 led4 buf_out =
     (let val = push_bit 3 led4 OR push_bit 2 led3 OR push_bit 1 led2 OR push_bit 0 led1 in
      pbind (store buf_out 0 (char_of_byte val)) (\<lambda>buf_out.
      pseq (sys_do (Write device buf_out)) (pret buf_out)))"

definition ledserver_recv_iter :: "fd \<Rightarrow> fd \<Rightarrow> ledserver \<Rightarrow> (ledserver, ledserver) iter prog" where
  "ledserver_recv_iter device cli_sock s =
     pbind (rrecv cli_sock 4 True) (\<lambda>(nbytes, d).
     if nbytes > 0 then
       pbind (deliver (cur_msg s) 0 d) (\<lambda>m.
       pbind (led_ctrl device (b1 (msg_of m)) (b2 (msg_of m)) (b3 (msg_of m)) (b4 (msg_of m)) (cur_buf s)) (\<lambda>b.
       pret (Next \<lparr>cur_msg = m, cur_buf = b\<rparr>)))
     else pret (Stop s))"

definition ledserver_iter :: "fd \<Rightarrow> fd \<Rightarrow> ledserver \<Rightarrow> (ledserver, unit) iter prog" where
  "ledserver_iter device listen_sock s =
     pbind (sys (Accept listen_sock) (\<lambda>r. (r_ret r, r_from r))) (\<lambda>(cli_sock, cliaddr).
     if cli_sock < 0 then pseq (perror ''accept()'') (pret (Stop ())) else
     pseq (printf ''LED control client connected!    (%s/%d)\<newline>''
       [S (inet_ntoa (sin_addr cliaddr)), I (uint (htons (sin_port cliaddr)))])
    (pbind (loop (ledserver_recv_iter device cli_sock) s) (\<lambda>s.
     pseq (printf ''LED control client disconnected! (%s/%d)\<newline>''
       [S (inet_ntoa (sin_addr cliaddr)), I (uint (htons (sin_port cliaddr)))])
    (pseq (emit (Close cli_sock))
     (pret (Next s))))))"

definition ledserver_main :: "string \<Rightarrow> string list \<Rightarrow> unit prog" where
  "ledserver_main junk argv =
     (if length argv \<noteq> 2 then pseq (printf ''Usage: %s <Port>\<newline>'' [S (hd argv)]) (pexit 1) else
      pbind (sys_ret (Open ''/dev/led'')) (\<lambda>device.
      if device < 0 then pseq (perror ''open()'') (pexit 1) else
      pbind (sys_ret (Socket 2 1 0)) (\<lambda>listen_sock.
      if listen_sock < 0 then pseq (perror ''socket()'') (pexit 1) else
      pbind (sys_ret (Bind listen_sock (sock_addr (atoi (argv ! 1)) (htonl 0)))) (\<lambda>res.
      if res < 0 then pseq (perror ''bind()'') (pexit 1) else
      pbind (sys_ret (Listen listen_sock 1)) (\<lambda>res.
      if res < 0 then pseq (perror ''listen()'') (pexit 1) else
      pseq (printf ''LED control server running...\<newline>'' [])
     (pseq (loop (ledserver_iter device listen_sock) \<lparr>cur_msg = junk, cur_buf = [NUL, NUL]\<rparr>)
     (pseq (emit (Close device)) (emit (Close listen_sock)))))))))"

section \<open>thu/homework\<close>

text \<open>client.c: lines typed at the terminal go to the server, the line \<open>5\<close> ends the client.\<close>

definition hw_client_iter :: "fd \<Rightarrow> string \<Rightarrow> (string, unit) iter prog" where
  "hw_client_iter c_socket sndBuffer =
     pbind (rread 0 BUFSIZ) (\<lambda>(n, d).
     pbind (deliver sndBuffer 0 d) (\<lambda>sndBuffer.
     if n > 0 then
       pbind (store sndBuffer n NUL) (\<lambda>sndBuffer.
       pbind (cstring sndBuffer) (\<lambda>text.
       if text = ''5\<newline>'' then pret (Stop ()) else
       pbind (sys_ret (Write c_socket text)) (\<lambda>n.
       if n < 0 then pexit (-1) else pret (Next sndBuffer))))
     else pret (Next sndBuffer)))"

definition hw_client_main :: "string \<Rightarrow> unit prog" where
  "hw_client_main junk =
     pbind (connect_to ''192.168.100.5'' 9000) (\<lambda>c_socket.
     pseq (loop (hw_client_iter c_socket) junk) (emit (Close c_socket)))"

text \<open>test_app.c: the thread writes what it receives to the device.\<close>

definition hw_thread_iter :: "fd \<Rightarrow> fd \<Rightarrow> string \<Rightarrow> (string, unit) iter prog" where
  "hw_thread_iter device c_socket rcvBuffer =
     pbind (rread c_socket BUFSIZ) (\<lambda>(n, d).
     if n = 0 then pret (Stop ()) else
     pbind (deliver rcvBuffer 0 d) (\<lambda>rcvBuffer.
     pbind (store rcvBuffer n NUL) (\<lambda>rcvBuffer.
     pbind (cstring rcvBuffer) (\<lambda>text.
     pseq (printf ''%s'' [S text])
    (pseq (sys_do (Write device (take (nat n) rcvBuffer)))
    (pseq (printf ''...\<newline>'' [])
     (pret (Next rcvBuffer))))))))"

definition hw_thread :: "fd \<Rightarrow> fd \<Rightarrow> string \<Rightarrow> unit prog" where
  "hw_thread device c_socket junk =
     pseq (printf ''c_socket : %d\<newline>'' [I c_socket])
    (pseq (loop (hw_thread_iter device c_socket) junk)
    (pseq (printf ''out\<newline>'' [])
     (emit (Close c_socket))))"

definition hw_server_iter :: "fd \<Rightarrow> unit \<Rightarrow> (unit, unit) iter prog" where
  "hw_server_iter s_socket _ =
     pbind (sys_ret (Accept s_socket)) (\<lambda>c_socket.
     pseq (printf ''c_socket : %d\<newline>'' [I c_socket])
    (pbind (sys (ThreadCreate c_socket) (\<lambda>r. (r_ret r, r_errno r))) (\<lambda>(sts, thread_id).
     if sts \<noteq> 0 then pseq (perror ''thread create error\<newline>'') (pexit 1) else
     pseq (printf ''thread %x is created \<newline>'' [I thread_id])
    (pseq (sys_do (Sleep 3))
     (pret (Next ()))))))"

definition hw_server_main :: "unit prog" where
  "hw_server_main =
     pbind (sys_ret (Open ''/dev/led'')) (\<lambda>device.
     pbind (listen_on 9000 ''listen Fail\<newline>'') (\<lambda>s_socket.
     pseq (loop (hw_server_iter s_socket) ())
    (pseq (emit (Close s_socket)) (emit (Close device)))))"

section \<open>Small users of the devices\<close>

text \<open>thu/led/test.c; the results of \<open>open\<close>, \<open>read\<close> and \<open>write\<close> are not looked at.\<close>

definition led_test_main :: "int prog" where
  "led_test_main =
     pbind (sys_ret (Open ''/dev/led'')) (\<lambda>fd.
     pbind (rread fd 2) (\<lambda>(_, d).
     pseq (sys_do (Write fd (replicate 2 NUL)))
    (pseq (emit (Close fd)) (pret 0))))"

text \<open>
  thu/mydrv-copy_to_user/test_mydrv.c, with the uninitialised bytes of the packed structure. The
  driver's read returns 0 whatever it delivers, so the data of the reply count, not its result.
\<close>

definition mydrv_record :: "string \<Rightarrow> string" where
  "mydrv_record junk =
     (let address = overlay (take 20 (drop 34 junk)) 0 ''HONG_KILDONG'';
          depart = overlay (take 20 (drop 58 junk)) 0 ''ELAYER''
      in put_int 35 @ take 30 (drop 4 junk) @ address @ put_int 1234 @ depart)"

definition test_mydrv_main :: "string \<Rightarrow> int prog" where
  "test_mydrv_main junk =
     (let buf = overlay (replicate 100 NUL) 0 (mydrv_record junk) in
      pbind (sys_ret (Open ''/dev/mydrv'')) (\<lambda>fd.
      pbind (sys (Read fd 100) (\<lambda>r. take 100 (r_data r))) (\<lambda>d.
      pbind (deliver (replicate 100 NUL) 0 d) (\<lambda>buf_in.
      pbind (cstring buf_in) (\<lambda>text.
      pseq (printf ''buf_in = %s\<newline>'' [S text])
     (pseq (sys_do (Write fd buf))
     (pseq (emit (Close fd)) (pret 0))))))))"

section \<open>From the keyboard to the LEDs\<close>

definition num :: "int \<Rightarrow> reply" where
  "num n = (rc 1)\<lparr>r_errno := n\<rparr>"

lemma num_sel [simp]: "r_ret (num n) = 1" "r_errno (num n) = n"
  by (simp_all add: num_def)

text \<open>The messages a program sent, the buffers it wrote, and the answers it got on the way.\<close>

definition sent :: "fd \<Rightarrow> call list \<Rightarrow> string list" where
  "sent d tr = concat (map (\<lambda>c. case c of Send d' x \<Rightarrow> if d' = d then [x] else [] | _ \<Rightarrow> []) tr)"

definition device_writes :: "fd \<Rightarrow> call list \<Rightarrow> string list" where
  "device_writes d tr = concat (map (\<lambda>c. case c of Write d' x \<Rightarrow> if d' = d then [x] else [] | _ \<Rightarrow> []) tr)"

definition typed_numbers :: "int list \<Rightarrow> reply list" where
  "typed_numbers ws = concat (map (\<lambda>w. [num w, rc 4]) ws) @ [num 5]"

definition led_messages :: "string list \<Rightarrow> reply list" where
  "led_messages ms = concat (map (\<lambda>m. [data m, rc 0]) ms) @ [data []]"

text \<open>The device gets one write after the other.\<close>

definition led_writes :: "string list \<Rightarrow> 'a board_scheme \<Rightarrow> 'a board_scheme" where
  "led_writes us s = fold (\<lambda>u s. snd (led_write u (length u) s)) us s"

fun msgs :: "led_msg \<Rightarrow> int list \<Rightarrow> string list" where
  "msgs m [] = []"
| "msgs m (w # ws) = msg_bytes (toggle w m) # msgs (toggle w m) ws"

lemma sent_simps [simp]:
  "sent d [] = []" "sent d (tr @ tr') = sent d tr @ sent d tr'"
  "sent d (c # tr) = (case c of Send d' x \<Rightarrow> if d' = d then [x] else [] | _ \<Rightarrow> []) @ sent d tr"
  by (simp_all add: sent_def)

lemma device_writes_simps [simp]:
  "device_writes d [] = []" "device_writes d (tr @ tr') = device_writes d tr @ device_writes d tr'"
  "device_writes d (c # tr) = (case c of Write d' x \<Rightarrow> if d' = d then [x] else [] | _ \<Rightarrow> []) @ device_writes d tr"
  by (simp_all add: device_writes_def)

lemma ledclient_sends:
  assumes "set ws \<subseteq> {1, 2, 3, 4}"
  shows "\<exists>trc. loop (ledclient_iter c) m (st (typed_numbers ws) tr fs) = (Abort (Exit 0), st [] (tr @ trc) fs) \<and>
    sent c trc = msgs m ws"
  using assms
proof (induction ws arbitrary: m tr)
  case Nil
  have "ledclient_iter c m (st (typed_numbers []) tr fs) =
      (Abort (Exit 0), st [] (tr @ [Printf ''1)LED1   2)LED2   3)LED3   4)LED4   5)Quit : '' [], Scanf, Close c]) fs)"
    by (simp add: ledclient_iter_def typed_numbers_def scanf_d_def)
  then show ?case by (simp add: loop_Abort [where body = "ledclient_iter c"])
next
  case (Cons w ws)
  let ?p = "[Printf ''1)LED1   2)LED2   3)LED3   4)LED4   5)Quit : '' [], Scanf, Send c (msg_bytes (toggle w m))]"
  have "ledclient_iter c m (st (typed_numbers (w # ws)) tr fs) =
      (Val (Next (toggle w m)), st (typed_numbers ws) (tr @ ?p) fs)"
    using Cons.prems by (auto simp: ledclient_iter_def typed_numbers_def scanf_d_def Let_def)
  then have "loop (ledclient_iter c) m (st (typed_numbers (w # ws)) tr fs) =
      loop (ledclient_iter c) (toggle w m) (st (typed_numbers ws) (tr @ ?p) fs)"
    by (simp add: loop_Next [where body = "ledclient_iter c"] typed_numbers_def)
  moreover obtain trc where "loop (ledclient_iter c) (toggle w m) (st (typed_numbers ws) (tr @ ?p) fs) =
      (Abort (Exit 0), st [] ((tr @ ?p) @ trc) fs)" "sent c trc = msgs (toggle w m) ws"
    using Cons.IH [of "toggle w m" "tr @ ?p"] Cons.prems by auto
  ultimately show ?case by (intro exI [of _ "?p @ trc"]) simp
qed

definition led_value :: "led_msg \<Rightarrow> char" where
  "led_value m = char_of_byte (push_bit 3 (b4 m) OR push_bit 2 (b3 m) OR push_bit 1 (b2 m) OR push_bit 0 (b1 m))"

lemma led_ctrl_run:
  "led_ctrl dev (b1 m) (b2 m) (b3 m) (b4 m) [x, y] (st (r # rs) tr fs) =
    (Val [led_value m, y], st rs (tr @ [Write dev [led_value m, y]]) fs)"
  by (simp add: led_ctrl_def Let_def led_value_def)

lemma ledserver_writes:
  assumes "\<forall>m \<in> set ms. length m = 4" "length cm = 4"
  shows "\<exists>trs sv. loop (ledserver_recv_iter dev cl) \<lparr>cur_msg = cm, cur_buf = [x, y]\<rparr> (st (led_messages ms) tr fs) =
     (Val sv, st [] (tr @ trs) fs) \<and> device_writes dev trs = map (\<lambda>m. [led_value (msg_of m), y]) ms"
  using assms
proof (induction ms arbitrary: cm x tr)
  case Nil
  have "ledserver_recv_iter dev cl \<lparr>cur_msg = cm, cur_buf = [x, y]\<rparr> (st (led_messages []) tr fs) =
      (Val (Stop \<lparr>cur_msg = cm, cur_buf = [x, y]\<rparr>), st [] (tr @ [Recv cl 4 True]) fs)"
    by (simp add: ledserver_recv_iter_def led_messages_def rrecv_def)
  then show ?case by (simp add: loop_Stop [where body = "ledserver_recv_iter dev cl"])
next
  case (Cons m ms)
  let ?v = "led_value (msg_of m)"
  let ?p = "[Recv cl 4 True, Write dev [?v, y]]"
  have "ledserver_recv_iter dev cl \<lparr>cur_msg = cm, cur_buf = [x, y]\<rparr> (st (led_messages (m # ms)) tr fs) =
      (Val (Next \<lparr>cur_msg = m, cur_buf = [?v, y]\<rparr>), st (led_messages ms) (tr @ ?p) fs)"
    using Cons.prems
    by (simp add: ledserver_recv_iter_def led_messages_def rrecv_def overlay_0
        pbind_Val [where m = "led_ctrl dev u1 u2 u3 u4 u" for u1 u2 u3 u4 u, OF led_ctrl_run])
  then have "loop (ledserver_recv_iter dev cl) \<lparr>cur_msg = cm, cur_buf = [x, y]\<rparr> (st (led_messages (m # ms)) tr fs) =
      loop (ledserver_recv_iter dev cl) \<lparr>cur_msg = m, cur_buf = [?v, y]\<rparr> (st (led_messages ms) (tr @ ?p) fs)"
    by (simp add: loop_Next [where body = "ledserver_recv_iter dev cl"] led_messages_def)
  moreover obtain trs sv where "loop (ledserver_recv_iter dev cl) \<lparr>cur_msg = m, cur_buf = [?v, y]\<rparr>
       (st (led_messages ms) (tr @ ?p) fs) = (Val sv, st [] ((tr @ ?p) @ trs) fs)"
    "device_writes dev trs = map (\<lambda>m. [led_value (msg_of m), y]) ms"
    using Cons.IH [of m ?v "tr @ ?p"] Cons.prems by auto
  ultimately show ?case by (intro exI [of _ "?p @ trs"] exI [of _ sv]) simp
qed

lemma led_write_ok:
  assumes "kmallocs s = []" "user = c # u"
  shows "led_write user (length user) s = (Inr 0, led_display (int (of_char c)) s)"
  using assms
  by (simp add: led_write_def kmalloc_buf_def kmalloc_def copy_from_user_def first_char_def kfree_buf_def
      kfree_def led_display_def)

lemma led_writes_last:
  assumes "kmallocs s = []" "\<forall>u \<in> set us. u \<noteq> []"
  shows "kmallocs (led_writes us s) = [] \<and> live (led_writes us s) = live s \<and>
    gpfdat (led_writes us s) = (if us = [] then gpfdat s else gpfdat (led_display (int (of_char (hd (last us)))) s))"
  using assms
proof (induction us rule: rev_induct)
  case (snoc u us)
  then obtain c w where u: "u = c # w" by (cases u) auto
  have IH: "kmallocs (led_writes us s) = []" "live (led_writes us s) = live s"
    "gpfdat (led_writes us s) = (if us = [] then gpfdat s else gpfdat (led_display (int (of_char (hd (last us)))) s))"
    using snoc by auto
  have "led_writes (us @ [u]) s = led_display (int (of_char c)) (led_writes us s)"
    using led_write_ok [OF IH(1) u] by (simp add: led_writes_def u)
  then show ?case
    using IH gpfdat_again gpfdat_cong by (auto simp: u split: if_splits)
qed (simp add: led_writes_def)

text \<open>The message after the choices \<open>ws\<close>, and what its value has in bit \<open>k\<close>.\<close>

lemma msgs_last: "ws \<noteq> [] \<Longrightarrow> last (msgs m ws) = msg_bytes (fold toggle ws m)"
proof (induction ws arbitrary: m)
  case (Cons w ws)
  then show ?case by (cases ws) auto
qed simp

lemma msgs_length: "u \<in> set (msgs m ws) \<Longrightarrow> length u = 4"
  by (induction ws arbitrary: m) (auto simp: msg_bytes_def)

lemma msg_of_bytes [simp]: "msg_of (msg_bytes m) = m"
  by (simp add: msg_of_def msg_bytes_def Let_def)

definition parity :: "int list \<Rightarrow> int \<Rightarrow> u8" where
  "parity ws k = of_bool (odd (count_list ws k))"

lemma fold_toggle:
  assumes "set ws \<subseteq> {1, 2, 3, 4}"
  shows "fold toggle ws \<lparr>b1 = 0, b2 = 0, b3 = 0, b4 = 0\<rparr> =
    \<lparr>b1 = parity ws 1, b2 = parity ws 2, b3 = parity ws 3, b4 = parity ws 4\<rparr>"
  using assms
proof (induction ws rule: rev_induct)
  case (snoc w ws)
  then have "w = 1 \<or> w = 2 \<or> w = 3 \<or> w = 4" by auto
  then show ?case using snoc by (auto simp: toggle_def parity_def lnot_def)
qed (simp add: parity_def)

lemma led_value_bits:
  assumes "b1 m = of_bool p1" "b2 m = of_bool p2" "b3 m = of_bool p3" "b4 m = of_bool p4" "k < 4"
  shows "bit (int (of_char (led_value m))) k \<longleftrightarrow> [p1, p2, p3, p4] ! k"
proof -
  let ?v = "push_bit 3 (b4 m) OR push_bit 2 (b3 m) OR push_bit 1 (b2 m) OR push_bit 0 (b1 m) :: u8"
  have "unat ?v < 256" using unsigned_less [of ?v] by simp
  then have "of_char (led_value m) = unat ?v"
    by (simp only: led_value_def char_of_byte_def of_char_of mod_less)
  then have "bit (int (of_char (led_value m))) k \<longleftrightarrow> bit (uint ?v) k" by simp
  also have "\<dots> \<longleftrightarrow> bit ?v k" using assms(5) by (simp only: bit_uint_iff) simp
  also have "\<dots> \<longleftrightarrow> [p1, p2, p3, p4] ! k"
  proof -
    consider "k = 0" | "k = 1" | "k = 2" | "k = 3" using assms(5) by linarith
    then show ?thesis
      by cases (cases p1; cases p2; cases p3; cases p4; simp add: assms(1-4))+
  qed
  finally show ?thesis .
qed

text \<open>
  C9. From the keyboard to the LEDs. Whatever LEDs are chosen one after the other at the client of
  fri/ledok, and however often: the client sends one message for each choice and ends when told
  to; the server, given those messages, writes to the device once for each; and after the driver
  has handled these writes on a board whose LEDs were off, LED \<open>k\<close> is lit just when it has been
  chosen an odd number of times, every other bit of the port is as before, and no memory is lost.
\<close>

theorem ledok_end_to_end:
  assumes "set ws \<subseteq> {1, 2, 3, 4}" and "kmallocs s = []" and "length junk = 4"
    and "\<forall>k < 4. bit (gpfdat s) (4 + k)"
  shows "\<exists>trc trs sv.
    loop (ledclient_iter c) \<lparr>b1 = 0, b2 = 0, b3 = 0, b4 = 0\<rparr> (st (typed_numbers ws) [] fs) =
      (Abort (Exit 0), st [] trc fs) \<and>
    loop (ledserver_recv_iter dev cl) \<lparr>cur_msg = junk, cur_buf = [NUL, NUL]\<rparr> (st (led_messages (sent c trc)) [] fs') =
      (Val sv, st [] trs fs') \<and>
    (let s' = led_writes (device_writes dev trs) s in
      (\<forall>k < 4. \<not> bit (gpfdat s') (4 + k) \<longleftrightarrow> odd (count_list ws (int k + 1))) \<and>
      (\<forall>n. n < 4 \<or> 8 \<le> n \<longrightarrow> bit (gpfdat s') n = bit (gpfdat s) n) \<and> live s' = live s)"
proof -
  let ?m0 = "\<lparr>b1 = 0, b2 = 0, b3 = 0, b4 = 0\<rparr>"
  obtain trc where c: "loop (ledclient_iter c) ?m0 (st (typed_numbers ws) [] fs) = (Abort (Exit 0), st [] trc fs)"
    "sent c trc = msgs ?m0 ws"
    using ledclient_sends [OF assms(1), of c ?m0 "[]" fs] by auto
  have "\<forall>m \<in> set (msgs ?m0 ws). length m = 4" using msgs_length by blast
  then obtain trs sv where s: "loop (ledserver_recv_iter dev cl) \<lparr>cur_msg = junk, cur_buf = [NUL, NUL]\<rparr>
      (st (led_messages (msgs ?m0 ws)) [] fs') = (Val sv, st [] trs fs')"
    "device_writes dev trs = map (\<lambda>m. [led_value (msg_of m), NUL]) (msgs ?m0 ws)"
    using ledserver_writes [of "msgs ?m0 ws" junk dev cl NUL NUL "[]" fs'] assms(3) by auto
  let ?s = "led_writes (device_writes dev trs) s" and ?e = "fold toggle ws ?m0"
  have ne: "msgs ?m0 ws = [] \<longleftrightarrow> ws = []" by (cases ws) simp_all
  have g: "gpfdat ?s = (if ws = [] then gpfdat s else gpfdat (led_display (int (of_char (led_value ?e))) s))"
    and l: "live ?s = live s"
    using led_writes_last [OF assms(2), of "device_writes dev trs"] msgs_last [of ws ?m0]
    by (auto simp: s(2) ne last_map)
  have "\<not> bit (gpfdat ?s) (4 + k) \<longleftrightarrow> odd (count_list ws (int k + 1))" if k: "k < 4" for k
  proof (cases "ws = []")
    case True
    then show ?thesis using g assms(4) k by simp
  next
    case False
    have "bit (int (of_char (led_value ?e))) k \<longleftrightarrow> [odd (count_list ws 1), odd (count_list ws 2),
        odd (count_list ws 3), odd (count_list ws 4)] ! k"
      by (rule led_value_bits [OF _ _ _ _ k]) (simp_all add: fold_toggle [OF assms(1)] parity_def)
    also have "\<dots> \<longleftrightarrow> odd (count_list ws (int k + 1))"
    proof -
      consider "k = 0" | "k = 1" | "k = 2" | "k = 3" using k by linarith
      then show ?thesis by cases simp_all
    qed
    finally show ?thesis using g False k by (simp add: gpfdat_bits)
  qed
  moreover have "\<forall>n. n < 4 \<or> 8 \<le> n \<longrightarrow> bit (gpfdat ?s) n = bit (gpfdat s) n"
    using g by (auto simp: gpfdat_bits)
  ultimately show ?thesis using c s l unfolding Let_def by auto
qed

lemma ledok_end_to_end_witness:
  "\<exists>trc trs sv.
    loop (ledclient_iter 3) \<lparr>b1 = 0, b2 = 0, b3 = 0, b4 = 0\<rparr> (st (typed_numbers [2, 4, 2]) [] Map.empty) =
      (Abort (Exit 0), st [] trc Map.empty) \<and>
    loop (ledserver_recv_iter 4 5) \<lparr>cur_msg = ''abcd'', cur_buf = [NUL, NUL]\<rparr>
      (st (led_messages (sent 3 trc)) [] Map.empty) = (Val sv, st [] trs Map.empty) \<and>
    \<not> bit (gpfdat (led_writes (device_writes 4 trs) led_board)) 7 \<and>
    bit (gpfdat (led_writes (device_writes 4 trs) led_board)) 5"
proof -
  have b: "\<forall>k < 4. bit (gpfdat led_board) (4 + k)"
  proof (intro allI impI)
    fix k :: nat assume "k < 4"
    then consider "k = 0" | "k = 1" | "k = 2" | "k = 3" by linarith
    then show "bit (gpfdat led_board) (4 + k)" by cases (simp_all add: led_board_def)
  qed
  obtain trc trs sv where *: "loop (ledclient_iter 3) \<lparr>b1 = 0, b2 = 0, b3 = 0, b4 = 0\<rparr>
      (st (typed_numbers [2, 4, 2]) [] Map.empty) = (Abort (Exit 0), st [] trc Map.empty)"
    "loop (ledserver_recv_iter 4 5) \<lparr>cur_msg = ''abcd'', cur_buf = [NUL, NUL]\<rparr>
      (st (led_messages (sent 3 trc)) [] Map.empty) = (Val sv, st [] trs Map.empty)"
    and k: "\<forall>k < 4. \<not> bit (gpfdat (led_writes (device_writes 4 trs) led_board)) (4 + k) \<longleftrightarrow>
      odd (count_list [2, 4, 2] (int k + 1))"
    using ledok_end_to_end [OF _ _ _ b, of "[2, 4, 2]" "''abcd''" 3 Map.empty 4 5 Map.empty]
    by (auto simp: Let_def led_board_def)
  have "\<not> bit (gpfdat (led_writes (device_writes 4 trs) led_board)) (4 + 3)"
    "bit (gpfdat (led_writes (device_writes 4 trs) led_board)) (4 + 1)"
    using k [rule_format, of 3] k [rule_format, of 1] by simp_all
  then show ?thesis using * by auto
qed

section \<open>A buffer printed past its end\<close>

text \<open>
  The test program of the skeleton driver prints past its buffer. The driver fills all 100
  bytes that the program asks for with characters other than NUL, so the string the program then
  prints does not end in the buffer.
\<close>

theorem test_mydrv_reads_on:
  assumes "fst (kmalloc s)" "mydrv_read 100 100 s = (q, out, s')"
  shows "\<exists>tr'. test_mydrv_main junk (st [rc fd, (rc 0)\<lparr>r_data := out\<rparr>] tr fs) =
    (Abort (Fault Unterminated), st [] tr' fs)"
proof -
  have out: "out = map (\<lambda>i. char_of (of_char CHR ''A'' + i :: nat)) [0..<100]"
    using assms by (simp add: mydrv_read_def kmalloc_buf_def case_prod_beta copy_to_user_def Let_def)
  have no: "NUL \<noteq> char_of (65 + i :: nat)" if "i < 100" for i
  proof
    assume "NUL = char_of (65 + i :: nat)"
    from arg_cong [OF this, of "of_char :: char \<Rightarrow> nat"] show False using that by (simp add: of_char_of)
  qed
  have "NUL \<notin> set out"
  proof
    assume "NUL \<in> set out"
    then obtain i where "i < 100" "NUL = char_of (65 + i :: nat)" by (auto simp: out)
    then show False using no by blast
  qed
  then have "\<not> terminated out" by (simp add: terminated_def)
  moreover have "length out = 100" by (simp add: out)
  ultimately show ?thesis
    by (simp add: test_mydrv_main_def Let_def overlay_0 cstring_def pseq_assoc)
qed

lemma test_mydrv_reads_on_witness:
  "\<exists>tr'. test_mydrv_main junk (st [rc 3, (rc 0)\<lparr>r_data := fst (snd (mydrv_read 100 100 mydrv_board))\<rparr>] [] Map.empty) =
    (Abort (Fault Unterminated), st [] tr' Map.empty)"
  by (rule test_mydrv_reads_on [where s = mydrv_board and q = "fst (mydrv_read 100 100 mydrv_board)"
        and s' = "snd (snd (mydrv_read 100 100 mydrv_board))"]) (simp_all add: mydrv_board_def kmalloc_def)

section \<open>The homework's chain\<close>

lemma hw_client_sends:
  assumes "NUL \<notin> set l" "l \<noteq> []" "length l < BUFSIZ" "l \<noteq> ''5\<newline>''" "length buf = BUFSIZ" "0 \<le> n"
  shows "\<exists>buf'. hw_client_iter c buf (st (data l # rc n # rs) tr fs) =
    (Val (Next buf'), st rs (tr @ [Read 0 BUFSIZ, Write c l]) fs) \<and> length buf' = BUFSIZ"
proof -
  have "(overlay buf 0 l)[length l := NUL] = l @ NUL # drop (Suc (length l)) buf"
    using assms(3,5) by (simp add: overlay_0 list_update_append Cons_nth_drop_Suc [symmetric])
  then show ?thesis
    using assms by (simp add: hw_client_iter_def)
qed



end
