(* ===== verification/Irq.thy ===== *)
theory Irq
  imports Board
begin

unbundle bit_operations_syntax

text \<open>
  The kernel's management of interrupt lines (kernel/irq/manage.c of the vendored kernel): a
  descriptor for every line with the chain of installed actions, the nesting of disables and the
  status bits; requesting and freeing a line; running the actions of a line (kernel/irq/handle.c).
  The interrupt controller is seen through the calls of its operations. Descriptors are updated
  under their spin lock; \<open>synchronize_irq\<close> has nothing to wait for on the single processor of the
  board. The random driver, procfs and the debugging options, which are off, are left out.
\<close>

section \<open>State\<close>

text \<open>An action: the handler by its name, and the cookie of its owner (NULL is \<open>None\<close>).\<close>

record irqaction =
  handler :: string
  aflags :: u32
  aname :: string
  dev_id :: "nat option"

record irq_desc =
  actions :: "irqaction list"
  status :: u32
  depth :: u32
  irq_count :: u32
  irqs_unhandled :: u32
  last_unhandled :: u32
  handle_irq :: "string option"
  has_chip :: bool
  has_set_type :: bool
  has_retrigger :: bool

datatype chip_op = ChipEnable nat | ChipDisable nat | ChipStartup nat | ChipShutdown nat
  | ChipSetType nat u32 | ChipRetrigger nat | ChipMask nat | ChipUnmask nat | ChipAck nat

record irqboard = board +
  descs :: "nat \<Rightarrow> irq_desc"
  chip_ops :: "chip_op list"
  jiffies :: u32
  irqs_resend :: "nat list"

definition NR_IRQS :: nat where "NR_IRQS = 85"

definition IRQ_DISABLED :: u32 where "IRQ_DISABLED = 0x200"
definition IRQ_NOPROBE :: u32 where "IRQ_NOPROBE = 0x20000"
definition IRQ_NOREQUEST :: u32 where "IRQ_NOREQUEST = 0x40000"
definition IRQ_NOAUTOEN :: u32 where "IRQ_NOAUTOEN = 0x80000"
definition IRQ_NO_BALANCING :: u32 where "IRQ_NO_BALANCING = 0x400000"
definition IRQ_PROBING :: u32 where "IRQ_PROBING = 0x1000 OR 0x2000 OR 0x100"
definition IRQ_PENDING :: u32 where "IRQ_PENDING = 0x400"
definition IRQ_REPLAY :: u32 where "IRQ_REPLAY = 0x800"
definition IRQ_INPROGRESS :: u32 where "IRQ_INPROGRESS = 0x100"
definition IRQ_WAITING :: u32 where "IRQ_WAITING = 0x2000"
definition IRQ_MASKED :: u32 where "IRQ_MASKED = 0x8000"
definition IRQ_LEVEL :: u32 where "IRQ_LEVEL = 0x4000"

definition IRQF_TRIGGER_FALLING :: u32 where "IRQF_TRIGGER_FALLING = 2"
definition IRQF_TRIGGER_MASK :: u32 where "IRQF_TRIGGER_MASK = 0xf"
definition IRQF_DISABLED :: u32 where "IRQF_DISABLED = 0x20"
definition IRQF_SHARED :: u32 where "IRQF_SHARED = 0x80"
definition IRQF_NOBALANCING :: u32 where "IRQF_NOBALANCING = 0x800"

definition EINVAL :: kerror where "EINVAL = Errno (-22)"
definition ENOSYS :: kerror where "ENOSYS = Errno (-38)"

definition set_desc :: "nat \<Rightarrow> irq_desc \<Rightarrow> 'a irqboard_scheme \<Rightarrow> 'a irqboard_scheme" where
  "set_desc irq d s = s\<lparr>descs := (descs s)(irq := d)\<rparr>"

definition chip_do :: "chip_op \<Rightarrow> 'a irqboard_scheme \<Rightarrow> 'a irqboard_scheme" where
  "chip_do c s = s\<lparr>chip_ops := chip_ops s @ [c]\<rparr>"

definition upd_status :: "nat \<Rightarrow> (u32 \<Rightarrow> u32) \<Rightarrow> 'a irqboard_scheme \<Rightarrow> 'a irqboard_scheme" where
  "upd_status irq f s = set_desc irq ((descs s irq)\<lparr>status := f (status (descs s irq))\<rparr>) s"

text \<open>
  The chips of the board have no \<open>enable\<close> and \<open>startup\<close> of their own: they get \<open>default_enable\<close>, which
  unmasks the line at the controller and clears \<open>IRQ_MASKED\<close>, and \<open>default_startup\<close>, which calls it.
\<close>

definition chip_enable :: "nat \<Rightarrow> 'a irqboard_scheme \<Rightarrow> 'a irqboard_scheme" where
  "chip_enable irq s = upd_status irq (\<lambda>st. st AND NOT IRQ_MASKED) (chip_do (ChipEnable irq) s)"

definition chip_startup :: "nat \<Rightarrow> 'a irqboard_scheme \<Rightarrow> 'a irqboard_scheme" where
  "chip_startup irq s = upd_status irq (\<lambda>st. st AND NOT IRQ_MASKED) (chip_do (ChipStartup irq) s)"

section \<open>Disabling and enabling\<close>

text \<open>The counter of disables is incremented as an unsigned int.\<close>

definition disable_irq_nosync :: "nat \<Rightarrow> 'a irqboard_scheme \<Rightarrow> 'a irqboard_scheme" where
  "disable_irq_nosync irq s =
     (if irq \<ge> NR_IRQS then s else
      let d = descs s irq; d1 = d\<lparr>depth := depth d + 1\<rparr> in
      if depth d = 0
      then chip_do (ChipDisable irq) (set_desc irq (d1\<lparr>status := status d1 OR IRQ_DISABLED\<rparr>) s)
      else set_desc irq d1 s)"

definition disable_irq :: "nat \<Rightarrow> 'a irqboard_scheme \<Rightarrow> 'a irqboard_scheme" where
  "disable_irq irq s = (if irq \<ge> NR_IRQS then s else disable_irq_nosync irq s)"

text \<open>
  \<open>check_irq_resend\<close>: the line is enabled, and an interrupt that came in while it was disabled is
  sent again unless the line is level triggered, by the chip or (as on this board) by a tasklet.
  The bitmap of interrupts to resend is the ascending list of its members.
\<close>

definition check_irq_resend :: "nat \<Rightarrow> 'a irqboard_scheme \<Rightarrow> 'a irqboard_scheme" where
  "check_irq_resend irq s0 =
     (let st = status (descs s0 irq); s = chip_enable irq s0 in
      if st AND (IRQ_LEVEL OR IRQ_PENDING OR IRQ_REPLAY) = IRQ_PENDING
      then (let s = set_desc irq ((descs s irq)\<lparr>status := (st AND NOT IRQ_PENDING) OR IRQ_REPLAY\<rparr>) s in
            if has_retrigger (descs s irq) then chip_do (ChipRetrigger irq) s
            else s\<lparr>irqs_resend := (if irq \<in> set (irqs_resend s) then irqs_resend s else insort irq (irqs_resend s))\<rparr>)
      else s)"

definition enable_irq :: "nat \<Rightarrow> 'a irqboard_scheme \<Rightarrow> 'a irqboard_scheme" where
  "enable_irq irq s =
     (if irq \<ge> NR_IRQS then s else
      let d = descs s irq in
      if depth d = 0 then printk ''Unbalanced enable for IRQ %d'' [int irq] s
      else
        let s = (if depth d = 1
                 then check_irq_resend irq
                        (set_desc irq (d\<lparr>status := (status d AND NOT IRQ_DISABLED) OR IRQ_NOPROBE\<rparr>) s)
                 else s)
        in set_desc irq ((descs s irq)\<lparr>depth := depth (descs s irq) - 1\<rparr>) s)"

section \<open>Requesting and freeing a line\<close>

definition can_request_irq :: "nat \<Rightarrow> u32 \<Rightarrow> 'a irqboard_scheme \<Rightarrow> bool" where
  "can_request_irq irq irqflags s =
     (if irq \<ge> NR_IRQS \<or> status (descs s irq) AND IRQ_NOREQUEST \<noteq> 0 then False
      else case actions (descs s irq) of
             [] \<Rightarrow> True
           | a # _ \<Rightarrow> irqflags AND aflags a AND IRQF_SHARED \<noteq> 0)"

definition compat_irq_chip_set_default_handler :: "irq_desc \<Rightarrow> irq_desc" where
  "compat_irq_chip_set_default_handler d =
     (if handle_irq d = Some ''handle_bad_irq'' then d\<lparr>handle_irq := None\<rparr> else d)"

text \<open>Two actions may share a line: both say so, and agree on the trigger.\<close>

definition may_share :: "irqaction \<Rightarrow> irqaction \<Rightarrow> bool" where
  "may_share old new \<longleftrightarrow> aflags old AND aflags new AND IRQF_SHARED \<noteq> 0 \<and>
     (aflags old XOR aflags new) AND IRQF_TRIGGER_MASK = 0"

text \<open>
  The first action of a line starts it up. \<open>irq_chip_set_defaults\<close> sees to it that every chip has
  the operations \<open>startup\<close> and \<open>shutdown\<close>.
\<close>

definition start_line :: "nat \<Rightarrow> irqaction \<Rightarrow> 'a irqboard_scheme \<Rightarrow> 'a irqboard_scheme" where
  "start_line irq new s =
     (let tr = aflags new AND IRQF_TRIGGER_MASK;
          s = (if tr \<noteq> 0
               then (if has_set_type (descs s irq) then chip_do (ChipSetType irq tr) s
                     else printk ''No IRQF_TRIGGER set_type function for IRQ %d'' [int irq] s)
               else set_desc irq (compat_irq_chip_set_default_handler (descs s irq)) s);
          d = (descs s irq)\<lparr>status := status (descs s irq) AND NOT IRQ_PROBING\<rparr>
      in if status d AND IRQ_NOAUTOEN = 0
         then chip_startup irq (set_desc irq (d\<lparr>depth := 0, status := status d AND NOT IRQ_DISABLED\<rparr>) s)
         else set_desc irq (d\<lparr>depth := 1\<rparr>) s)"

definition setup_irq :: "nat \<Rightarrow> irqaction \<Rightarrow> 'a irqboard_scheme \<Rightarrow> (kerror + unit) \<times> 'a irqboard_scheme" where
  "setup_irq irq new s =
     (if irq \<ge> NR_IRQS then (Inl EINVAL, s) else
      if \<not> has_chip (descs s irq) then (Inl ENOSYS, s) else
      let olds = actions (descs s irq) in
      if olds \<noteq> [] \<and> \<not> may_share (hd olds) new then (Inl EBUSY, s) else
      let s = set_desc irq ((descs s irq)\<lparr>actions := olds @ [new]\<rparr>) s;
          s = (if aflags new AND IRQF_NOBALANCING \<noteq> 0
               then set_desc irq ((descs s irq)\<lparr>status := status (descs s irq) OR IRQ_NO_BALANCING\<rparr>) s else s);
          s = (if olds = [] then start_line irq new s else s)
      in (Inr (), set_desc irq ((descs s irq)\<lparr>irq_count := 0, irqs_unhandled := 0\<rparr>) s))"

definition request_irq :: "nat \<Rightarrow> string \<Rightarrow> u32 \<Rightarrow> string \<Rightarrow> nat option \<Rightarrow> 'a irqboard_scheme \<Rightarrow> (kerror + unit) \<times> 'a irqboard_scheme" where
  "request_irq irq hnd irqflags devname cookie s =
     (if irqflags AND IRQF_SHARED \<noteq> 0 \<and> cookie = None then (Inl EINVAL, s) else
      if irq \<ge> NR_IRQS then (Inl EINVAL, s) else
      if status (descs s irq) AND IRQ_NOREQUEST \<noteq> 0 then (Inl EINVAL, s) else
      case kmalloc s of
        (False, s) \<Rightarrow> (Inl ENOMEM, s)
      | (True, s) \<Rightarrow>
          (case setup_irq irq \<lparr>handler = hnd, aflags = irqflags, aname = devname, dev_id = cookie\<rparr> s of
             (Inl e, s) \<Rightarrow> (Inl e, kfree s)
           | (Inr _, s) \<Rightarrow> (Inr (), s)))"

text \<open>The action freed is the first one of the line with the given cookie.\<close>

definition free_irq :: "nat \<Rightarrow> nat option \<Rightarrow> 'a irqboard_scheme \<Rightarrow> 'a irqboard_scheme" where
  "free_irq irq cookie s =
     (if irq \<ge> NR_IRQS then s else
      let d = descs s irq in
      case find (\<lambda>a. dev_id a = cookie) (actions d) of
        None \<Rightarrow> printk ''Trying to free already-free IRQ %d'' [int irq] s
      | Some _ \<Rightarrow>
          let d = d\<lparr>actions := remove_first (\<lambda>a. dev_id a = cookie) (actions d)\<rparr>;
              s = (if actions d = []
                   then chip_do (ChipShutdown irq) (set_desc irq (d\<lparr>status := status d OR IRQ_DISABLED\<rparr>) s)
                   else set_desc irq d s)
          in kfree s)"

section \<open>Running the actions of a line\<close>

text \<open>
  \<open>run f irq cookie\<close> is the effect of the handler named \<open>f\<close> and its result (0 is \<open>IRQ_NONE\<close>, 1 is
  \<open>IRQ_HANDLED\<close>); the results are or-ed.
\<close>

fun handle_IRQ_event :: "(string \<Rightarrow> nat \<Rightarrow> nat option \<Rightarrow> 's \<Rightarrow> u32 \<times> 's) \<Rightarrow> nat \<Rightarrow> irqaction list \<Rightarrow> 's \<Rightarrow> u32 \<times> 's" where
  "handle_IRQ_event run irq [] s = (0, s)"
| "handle_IRQ_event run irq (a # as) s =
     (case run (handler a) irq (dev_id a) s of
        (ret, s) \<Rightarrow> (case handle_IRQ_event run irq as s of (rest, s) \<Rightarrow> (ret OR rest, s)))"

text \<open>
  \<open>note_interrupt\<close>, with \<open>irqfixup\<close> off: interrupts nobody handles are counted, and a line that has
  almost nothing else among 100000 interrupts is shut off. The report's list of handlers and stack
  are left out.
\<close>

definition report_bad_irq :: "nat \<Rightarrow> u32 \<Rightarrow> 'a board_scheme \<Rightarrow> 'a board_scheme" where
  "report_bad_irq irq action_ret s =
     (if action_ret \<noteq> 1 \<and> action_ret \<noteq> 0
      then printk ''irq event %d: bogus return value %x'' [int irq, uint action_ret] s
      else printk ''irq %d: nobody cared'' [int irq] s)"

definition HZ :: u32 where "HZ = 200"

definition note_interrupt :: "nat \<Rightarrow> u32 \<Rightarrow> 'a irqboard_scheme \<Rightarrow> 'a irqboard_scheme" where
  "note_interrupt irq action_ret s0 =
     (let s = (if action_ret \<noteq> 1
               then (let d = descs s0 irq;
                         n = (if jiffies s0 - last_unhandled d > HZ div 10 then 1 else irqs_unhandled d + 1);
                         s = set_desc irq (d\<lparr>irqs_unhandled := n, last_unhandled := jiffies s0\<rparr>) s0
                     in if action_ret \<noteq> 0 then report_bad_irq irq action_ret s else s)
               else s0);
          d = (descs s irq)\<lparr>irq_count := irq_count (descs s irq) + 1\<rparr>
      in if irq_count d < 100000 then set_desc irq d s
         else if irqs_unhandled d > 99900
         then chip_do (ChipDisable irq) (printk ''Disabling IRQ #%d'' [int irq]
                (report_bad_irq irq action_ret
                (set_desc irq (d\<lparr>irq_count := 0, status := status d OR IRQ_DISABLED, depth := 1, irqs_unhandled := 0\<rparr>) s)))
         else set_desc irq (d\<lparr>irq_count := 0, irqs_unhandled := 0\<rparr>) s)"

text \<open>
  The flow of an edge-triggered line. The handlers run with the lock released, so an interrupt that
  comes in meanwhile can set the line pending again; the first argument bounds the number of rounds,
  and \<open>None\<close> is a line that did not get quiet within it.
\<close>

fun edge_loop :: "nat \<Rightarrow> (string \<Rightarrow> nat \<Rightarrow> nat option \<Rightarrow> 'a irqboard_scheme \<Rightarrow> u32 \<times> 'a irqboard_scheme) \<Rightarrow> nat \<Rightarrow>
    'a irqboard_scheme \<Rightarrow> 'a irqboard_scheme option" where
  "edge_loop 0 run irq s = None"
| "edge_loop (Suc k) run irq s =
     (if actions (descs s irq) = [] then Some (chip_do (ChipMask irq) s) else
      let s = (if status (descs s irq) AND (IRQ_PENDING OR IRQ_MASKED OR IRQ_DISABLED) = IRQ_PENDING OR IRQ_MASKED
               then upd_status irq (\<lambda>st. st AND NOT IRQ_MASKED) (chip_do (ChipUnmask irq) s) else s);
          s = upd_status irq (\<lambda>st. st AND NOT IRQ_PENDING) s
      in case handle_IRQ_event run irq (actions (descs s irq)) s of
           (ret, s) \<Rightarrow>
             let s = note_interrupt irq ret s in
             if status (descs s irq) AND (IRQ_PENDING OR IRQ_DISABLED) = IRQ_PENDING
             then edge_loop k run irq s
             else Some (upd_status irq (\<lambda>st. st AND NOT IRQ_INPROGRESS) s))"

definition handle_edge_irq :: "nat \<Rightarrow> (string \<Rightarrow> nat \<Rightarrow> nat option \<Rightarrow> 'a irqboard_scheme \<Rightarrow> u32 \<times> 'a irqboard_scheme) \<Rightarrow> nat \<Rightarrow>
    'a irqboard_scheme \<Rightarrow> 'a irqboard_scheme option" where
  "handle_edge_irq fuel run irq s0 =
     (let s = upd_status irq (\<lambda>st. st AND NOT (IRQ_REPLAY OR IRQ_WAITING)) s0 in
      if status (descs s irq) AND (IRQ_INPROGRESS OR IRQ_DISABLED) \<noteq> 0 \<or> actions (descs s irq) = []
      then Some (chip_do (ChipAck irq) (chip_do (ChipMask irq) (upd_status irq (\<lambda>st. st OR (IRQ_PENDING OR IRQ_MASKED)) s)))
      else edge_loop fuel run irq (upd_status irq (\<lambda>st. st OR IRQ_INPROGRESS) (chip_do (ChipAck irq) s)))"

text \<open>The resending tasklet, with the flow handler of the lines; the first argument bounds the rounds.\<close>

fun resend_irqs :: "nat \<Rightarrow> (nat \<Rightarrow> 'a irqboard_scheme \<Rightarrow> 'a irqboard_scheme option) \<Rightarrow> 'a irqboard_scheme \<Rightarrow> 'a irqboard_scheme option" where
  "resend_irqs 0 flow s = None"
| "resend_irqs (Suc k) flow s =
     (case irqs_resend s of
        [] \<Rightarrow> Some s
      | irq # is \<Rightarrow> (case flow irq (s\<lparr>irqs_resend := is\<rparr>) of None \<Rightarrow> None | Some s \<Rightarrow> resend_irqs k flow s))"

section \<open>Equations\<close>

lemma set_desc_simps [simp]:
  "descs (set_desc irq d s) = (descs s)(irq := d)" "chip_ops (set_desc irq d s) = chip_ops s"
  "irqs_resend (set_desc irq d s) = irqs_resend s" "live (set_desc irq d s) = live s" "kmallocs (set_desc irq d s) = kmallocs s" "jiffies (set_desc irq d s) = jiffies s"
  "chrdevs (set_desc irq d s) = chrdevs s" "probes (set_desc irq d s) = probes s"
  by (simp_all add: set_desc_def)

lemma chip_do_simps [simp]:
  "descs (chip_do c s) = descs s" "chip_ops (chip_do c s) = chip_ops s @ [c]"
  "irqs_resend (chip_do c s) = irqs_resend s" "live (chip_do c s) = live s"
  "kmallocs (chip_do c s) = kmallocs s" "jiffies (chip_do c s) = jiffies s"
  "chrdevs (chip_do c s) = chrdevs s" "probes (chip_do c s) = probes s"
  by (simp_all add: chip_do_def)

lemma chip_enable_simps [simp]:
  "descs (chip_enable irq s) = (descs s)(irq := (descs s irq)\<lparr>status := status (descs s irq) AND NOT IRQ_MASKED\<rparr>)"
  "descs (chip_startup irq s) = (descs s)(irq := (descs s irq)\<lparr>status := status (descs s irq) AND NOT IRQ_MASKED\<rparr>)"
  "chip_ops (chip_enable irq s) = chip_ops s @ [ChipEnable irq]" "chip_ops (chip_startup irq s) = chip_ops s @ [ChipStartup irq]"
  "irqs_resend (chip_enable irq s) = irqs_resend s" "irqs_resend (chip_startup irq s) = irqs_resend s"
  "live (chip_enable irq s) = live s" "live (chip_startup irq s) = live s"
  "kmallocs (chip_enable irq s) = kmallocs s" "kmallocs (chip_startup irq s) = kmallocs s"
  by (simp_all add: chip_enable_def chip_startup_def upd_status_def)

lemma irq_printk [simp]:
  "descs (printk f a s) = descs s" "chip_ops (printk f a s) = chip_ops s" "jiffies (printk f a s) = jiffies s"
  "irqs_resend (printk f a s) = irqs_resend s"
  by (simp_all add: printk_def)

lemma irq_kmalloc [simp]:
  "descs (snd (kmalloc s)) = descs s" "chip_ops (snd (kmalloc s)) = chip_ops s" "descs (kfree s) = descs s"
  "chip_ops (kfree s) = chip_ops s"
  by (auto simp: kmalloc_def kfree_def split: list.splits)

lemma start_line_actions [simp]:
  "actions (descs (start_line irq new s) i) = actions (descs s i)" "live (start_line irq new s) = live s"
  "kmallocs (start_line irq new s) = kmallocs s"
  by (auto simp: start_line_def Let_def compat_irq_chip_set_default_handler_def)

lemma start_line_other: "i \<noteq> irq \<Longrightarrow> descs (start_line irq new s) i = descs s i"
  by (auto simp: start_line_def Let_def)

text \<open>Installing an action: refused without a trace, or appended to the chain of its line.\<close>

lemma setup_irq_cases:
  obtains (fails) e where "setup_irq irq new s = (Inl e, s)"
      "irq \<ge> NR_IRQS \<or> \<not> has_chip (descs s irq) \<or>
       actions (descs s irq) \<noteq> [] \<and> \<not> may_share (hd (actions (descs s irq))) new"
  | (installs) s' where "setup_irq irq new s = (Inr (), s')" "irq < NR_IRQS"
      "actions (descs s irq) = [] \<or> may_share (hd (actions (descs s irq))) new"
      "\<And>i. actions (descs s' i) = (if i = irq then actions (descs s irq) @ [new] else actions (descs s i))"
      "\<And>i. i \<noteq> irq \<Longrightarrow> descs s' i = descs s i" "live s' = live s" "kmallocs s' = kmallocs s"
proof (cases "irq \<ge> NR_IRQS \<or> \<not> has_chip (descs s irq) \<or>
       actions (descs s irq) \<noteq> [] \<and> \<not> may_share (hd (actions (descs s irq))) new")
  case True
  then have "\<exists>e. setup_irq irq new s = (Inl e, s)" by (auto simp: setup_irq_def Let_def)
  then show ?thesis using fails True by blast
next
  case False
  then show ?thesis
    by (intro installs [of "snd (setup_irq irq new s)"]) (auto simp: setup_irq_def Let_def start_line_other)
qed

lemma request_irq_cases:
  obtains (fails) e s' where "request_irq irq h fl nm c s = (Inl e, s')" "descs s' = descs s" "live s' = live s"
  | (installs) s' where "request_irq irq h fl nm c s = (Inr (), s')" "irq < NR_IRQS" "live s' = live s + 1"
      "\<And>i. actions (descs s' i) = (if i = irq then actions (descs s irq) @
         [\<lparr>handler = h, aflags = fl, aname = nm, dev_id = c\<rparr>] else actions (descs s i))"
      "\<And>i. i \<noteq> irq \<Longrightarrow> descs s' i = descs s i"
      "actions (descs s irq) = [] \<or> may_share (hd (actions (descs s irq))) \<lparr>handler = h, aflags = fl, aname = nm, dev_id = c\<rparr>"
proof -
  let ?new = "\<lparr>handler = h, aflags = fl, aname = nm, dev_id = c\<rparr>"
  note kl = kmalloc_live [of s]
  show ?thesis
  proof (cases "fl AND IRQF_SHARED \<noteq> 0 \<and> c = None \<or> irq \<ge> NR_IRQS \<or> status (descs s irq) AND IRQ_NOREQUEST \<noteq> 0 \<or> \<not> fst (kmalloc s)")
    case True
    then show ?thesis
      using kl by (intro fails [of "if fst (kmalloc s) \<or> fl AND IRQF_SHARED \<noteq> 0 \<and> c = None \<or> irq \<ge> NR_IRQS \<or>
            status (descs s irq) AND IRQ_NOREQUEST \<noteq> 0 then EINVAL else ENOMEM" "snd (request_irq irq h fl nm c s)"])
        (auto simp: request_irq_def case_prod_beta split: bool.splits)
  next
    case False
    have eq: "request_irq irq h fl nm c s = (case setup_irq irq ?new (snd (kmalloc s)) of
        (Inl e, s) \<Rightarrow> (Inl e, kfree s) | (Inr _, s) \<Rightarrow> (Inr (), s))"
      using False by (auto simp: request_irq_def case_prod_beta)
    show ?thesis
    proof (cases rule: setup_irq_cases [of irq ?new "snd (kmalloc s)"])
      case (fails e)
      then show ?thesis using that(1) eq False kl by simp
    next
      case (installs s')
      then show ?thesis using that(2) [of s'] eq False kl by simp
    qed
  qed
qed

lemma free_irq_actions:
  "actions (descs (free_irq irq c s) i) = (if i = irq \<and> irq < NR_IRQS
     then remove_first (\<lambda>a. dev_id a = c) (actions (descs s irq)) else actions (descs s i))"
proof -
  have "find (\<lambda>a. dev_id a = c) (actions (descs s irq)) = None \<Longrightarrow>
      remove_first (\<lambda>a. dev_id a = c) (actions (descs s irq)) = actions (descs s irq)"
    by (intro remove_first_none) (auto simp: find_None_iff)
  then show ?thesis
    by (auto simp: free_irq_def Let_def split: option.split)
qed

lemma free_irq_live:
  "irq < NR_IRQS \<Longrightarrow> \<exists>a \<in> set (actions (descs s irq)). dev_id a = c \<Longrightarrow> live (free_irq irq c s) = live s - 1"
  by (auto simp: free_irq_def Let_def find_None_iff split: option.split)

section \<open>Sharing a line\<close>

text \<open>Any two actions of a chain may share the line.\<close>

definition chain_ok :: "irqaction list \<Rightarrow> bool" where
  "chain_ok as \<longleftrightarrow> sorted_wrt may_share as"

definition lines_ok :: "'a irqboard_scheme \<Rightarrow> bool" where
  "lines_ok s \<longleftrightarrow> (\<forall>i. chain_ok (actions (descs s i)))"

lemma may_share_bits:
  "may_share a b \<longleftrightarrow> bit (aflags a) 7 \<and> bit (aflags b) 7 \<and> (\<forall>n < 4. bit (aflags a) n = bit (aflags b) n)"
proof -
  have s: "IRQF_SHARED = 2 ^ 7" and m: "IRQF_TRIGGER_MASK = mask 4"
    by (simp_all add: IRQF_SHARED_def IRQF_TRIGGER_MASK_def mask_eq_exp_minus_1)
  have sh: "aflags a AND aflags b AND IRQF_SHARED \<noteq> 0 \<longleftrightarrow> bit (aflags a) 7 \<and> bit (aflags b) 7"
    by (simp only: s and.assoc [symmetric] and_exp_eq_0_iff_not_bit bit_and_iff) simp
  have "x AND mask 4 = 0 \<longleftrightarrow> (\<forall>n < 4. \<not> bit x n)" for x :: u32
  proof -
    have "x AND mask 4 = 0 \<longleftrightarrow> (\<forall>n < 32. bit x n \<longrightarrow> \<not> n < 4)"
      by (auto simp: bit_eq_iff bit_and_iff bit_mask_iff)
    also have "\<dots> \<longleftrightarrow> (\<forall>n < 4. \<not> bit x n)"
    proof -
      have "n < 32" if "n < 4" for n :: nat using that by simp
      then show ?thesis by blast
    qed
    finally show ?thesis .
  qed
  then have tr: "(aflags a XOR aflags b) AND IRQF_TRIGGER_MASK = 0 \<longleftrightarrow> (\<forall>n < 4. bit (aflags a) n = bit (aflags b) n)"
    by (auto simp: m bit_xor_iff)
  show ?thesis by (simp only: may_share_def sh tr) blast
qed

lemma chain_ok_snoc: "chain_ok as \<Longrightarrow> as = [] \<or> may_share (hd as) new \<Longrightarrow> chain_ok (as @ [new])"
  by (cases as) (auto simp: chain_ok_def sorted_wrt_append may_share_bits)

lemma chain_ok_remove: "chain_ok as \<Longrightarrow> chain_ok (remove_first P as)"
proof -
  have sub: "set (remove_first P as) \<subseteq> set as" for as :: "irqaction list"
    by (induction as) auto
  have "sorted_wrt may_share as \<Longrightarrow> sorted_wrt may_share (remove_first P as)"
    by (induction as) (use sub in \<open>auto dest: subsetD\<close>)
  then show "chain_ok as \<Longrightarrow> chain_ok (remove_first P as)" by (simp add: chain_ok_def)
qed


definition irq_board :: irqboard where
  "irq_board = \<lparr>kmallocs = [], live = 0, chrdevs = (\<lambda>_. []), probes = (\<lambda>_. [base_probe]),
     gpfcon = 0, gpfdat = 0xff, gpfup = 0, klog = [], signals = [],
     descs = (\<lambda>_. \<lparr>actions = [], status = IRQ_DISABLED, depth = 1, irq_count = 0, irqs_unhandled = 0,
       last_unhandled = 0, handle_irq = Some ''handle_edge_irq'', has_chip = True, has_set_type = True,
       has_retrigger = False\<rparr>), chip_ops = [], jiffies = 0, irqs_resend = []\<rparr>"

lemma irq_board_ok: "lines_ok irq_board"
  by (simp add: lines_ok_def irq_board_def chain_ok_def)


text \<open>
  C24. A line is given back as it was taken. A request that succeeds with a cookie that is not in
  use on the line, followed by freeing it, leaves the actions of every line and the memory in use
  as they were, and other lines untouched; a request that fails changes no line and keeps no
  memory.
\<close>

theorem request_free_roundtrip:
  assumes "\<forall>a \<in> set (actions (descs s irq)). dev_id a \<noteq> c"
  shows "case request_irq irq h fl nm c s of
     (Inl e, s') \<Rightarrow> descs s' = descs s \<and> live s' = live s
   | (Inr _, s') \<Rightarrow> (\<forall>i. actions (descs (free_irq irq c s') i) = actions (descs s i)) \<and>
       live (free_irq irq c s') = live s \<and> (\<forall>i. i \<noteq> irq \<longrightarrow> descs s' i = descs s i)"
proof (cases rule: request_irq_cases [of irq h fl nm c s])
  case (fails e s')
  then show ?thesis by simp
next
  case (installs s')
  let ?new = "\<lparr>handler = h, aflags = fl, aname = nm, dev_id = c\<rparr>"
  have "remove_first (\<lambda>a. dev_id a = c) (actions (descs s irq) @ [?new]) = actions (descs s irq)"
    using remove_first_append(1) [of "\<lambda>a. dev_id a = c" ?new "actions (descs s irq)" "[]"] assms by simp
  then have "\<forall>i. actions (descs (free_irq irq c s') i) = actions (descs s i)"
    using installs(2,4) by (simp add: free_irq_actions)
  moreover have "live (free_irq irq c s') = live s"
    using installs(3,4) free_irq_live [OF installs(2), of s' c] by simp
  ultimately show ?thesis using installs(1,5) by simp
qed

lemma request_free_roundtrip_witness:
  "live (free_irq 16 None (snd (request_irq 16 ''key1_isr'' 0x22 ''KEY1'' None irq_board))) = 0"
proof -
  have "fst (request_irq 16 ''key1_isr'' 0x22 ''KEY1'' None irq_board) = Inr ()"
    by (simp add: request_irq_def irq_board_def kmalloc_def setup_irq_def NR_IRQS_def IRQF_SHARED_def
        IRQ_DISABLED_def IRQ_NOREQUEST_def case_prod_beta Let_def)
  then show ?thesis
    using request_free_roundtrip [where s = irq_board and irq = 16 and c = None and h = "''key1_isr''" and fl = "0x22" and nm = "''KEY1''"]
    by (auto simp: irq_board_def split: prod.splits)
qed

section \<open>Disabling nests\<close>

lemmas irq_bits = IRQ_DISABLED_def IRQ_NOPROBE_def IRQ_PENDING_def IRQ_REPLAY_def IRQ_LEVEL_def
  IRQ_INPROGRESS_def IRQ_WAITING_def IRQ_MASKED_def

lemma disabled_exp: "IRQ_DISABLED = 2 ^ 9" "IRQ_PENDING = 2 ^ 10" "IRQ_REPLAY = 2 ^ 11" "IRQ_LEVEL = 2 ^ 14"
  "IRQ_NOPROBE = 2 ^ 17" "IRQ_INPROGRESS = 2 ^ 8" "IRQ_WAITING = 2 ^ 13" "IRQ_MASKED = 2 ^ 15"
  by (simp_all add: irq_bits)

lemma bit_exp: "bit (2 ^ m :: u32) n \<longleftrightarrow> n = m \<and> m < 32"
  by (auto simp: bit_exp_iff possible_bit_word)

lemma disabled_iff: "st AND IRQ_DISABLED = 0 \<longleftrightarrow> \<not> bit st 9"
  by (simp only: disabled_exp and_exp_eq_0_iff_not_bit)

lemma unat_small: "n < 2 ^ 32 \<Longrightarrow> unat (of_nat n :: u32) = n"
  by (simp add: unat_of_nat)

lemma disable_irq_desc:
  assumes "irq < NR_IRQS"
  shows "depth (descs (disable_irq_nosync irq s) irq) = depth (descs s irq) + 1"
    "bit (status (descs (disable_irq_nosync irq s) irq)) 9 \<longleftrightarrow> depth (descs s irq) = 0 \<or> bit (status (descs s irq)) 9"
  using assms by (simp_all add: disable_irq_nosync_def Let_def disabled_exp bit_or_iff bit_exp)

lemma check_irq_resend_desc:
  "depth (descs (check_irq_resend irq s) irq) = depth (descs s irq)"
  "bit (status (descs (check_irq_resend irq s) irq)) 9 \<longleftrightarrow> bit (status (descs s irq)) 9"
  by (auto simp: check_irq_resend_def Let_def disabled_exp bit_or_iff bit_and_iff bit_not_iff bit_exp)

lemma enable_irq_desc:
  assumes "irq < NR_IRQS" "depth (descs s irq) \<noteq> 0"
  shows "depth (descs (enable_irq irq s) irq) = depth (descs s irq) - 1"
    "bit (status (descs (enable_irq irq s) irq)) 9 \<longleftrightarrow> depth (descs s irq) \<noteq> 1 \<and> bit (status (descs s irq)) 9"
  using assms
  by (auto simp: enable_irq_def Let_def check_irq_resend_desc)
     (simp_all add: disabled_exp bit_or_iff bit_and_iff bit_not_iff bit_exp)

lemma disables:
  assumes "irq < NR_IRQS" "depth (descs s irq) = 0" "0 < n" "n < 2 ^ 32"
  shows "depth (descs ((disable_irq_nosync irq ^^ n) s) irq) = of_nat n"
    "bit (status (descs ((disable_irq_nosync irq ^^ n) s) irq)) 9"
proof -
  have "n < 2 ^ 32 \<Longrightarrow> depth (descs ((disable_irq_nosync irq ^^ n) s) irq) = of_nat n \<and>
      (0 < n \<longrightarrow> bit (status (descs ((disable_irq_nosync irq ^^ n) s) irq)) 9)"
  proof (induction n)
    case (Suc n)
    then show ?case using assms(1,2) by (cases "n = 0") (auto simp: disable_irq_desc add.commute)
  qed (simp add: assms(2))
  then show "depth (descs ((disable_irq_nosync irq ^^ n) s) irq) = of_nat n"
    "bit (status (descs ((disable_irq_nosync irq ^^ n) s) irq)) 9" using assms(3,4) by simp_all
qed

lemma enables:
  assumes "irq < NR_IRQS" "depth (descs s irq) = of_nat n" "bit (status (descs s irq)) 9" "0 < n" "n < 2 ^ 32" "k \<le> n"
  shows "depth (descs ((enable_irq irq ^^ k) s) irq) = of_nat (n - k) \<and>
    (bit (status (descs ((enable_irq irq ^^ k) s) irq)) 9 \<longleftrightarrow> k < n)"
  using assms(6)
proof (induction k)
  case (Suc k)
  let ?s = "(enable_irq irq ^^ k) s"
  have d: "depth (descs ?s irq) = of_nat (n - k)" "bit (status (descs ?s irq)) 9" using Suc by simp_all
  have nk: "n - k < 2 ^ 32" "0 < n - k" using Suc.prems assms(5) by simp_all
  have nz: "depth (descs ?s irq) \<noteq> 0"
    using arg_cong [of "depth (descs ?s irq)" 0 unat] unat_small [OF nk(1)] nk(2) by (auto simp: d(1) simp del: of_nat_diff)
  have one: "depth (descs ?s irq) = 1 \<longleftrightarrow> n - k = 1"
  proof
    assume "depth (descs ?s irq) = 1"
    then have "unat (of_nat (n - k) :: u32) = 1" by (simp only: d(1)) simp
    then show "n - k = 1" using unat_small [OF nk(1)] by simp
  qed (simp add: d(1))
  have "of_nat (n - k) - 1 = (of_nat (n - Suc k) :: u32)" using Suc.prems by (simp add: of_nat_diff algebra_simps)
  then show ?case using enable_irq_desc [OF assms(1) nz] d one Suc.prems by (auto simp: d(1))
qed (use assms in simp)

text \<open>
  C25. Disables nest. After \<open>n\<close> disables of an enabled line it stays disabled through fewer than
  \<open>n\<close> enables, and the \<open>n\<close>th enable switches it on again, with the counter back at 0.
\<close>

theorem disables_nest:
  assumes "irq < NR_IRQS" "depth (descs s irq) = 0" "0 < n" "n < 2 ^ 32" "k < n"
  shows "status (descs ((enable_irq irq ^^ k) ((disable_irq_nosync irq ^^ n) s)) irq) AND IRQ_DISABLED \<noteq> 0 \<and>
    status (descs ((enable_irq irq ^^ n) ((disable_irq_nosync irq ^^ n) s)) irq) AND IRQ_DISABLED = 0 \<and>
    depth (descs ((enable_irq irq ^^ n) ((disable_irq_nosync irq ^^ n) s)) irq) = 0"
proof -
  note d = disables [OF assms(1-4)]
  show ?thesis
    using enables [OF assms(1) d assms(3,4), of k] enables [OF assms(1) d assms(3,4), of n] assms(5)
    by (simp add: disabled_iff)
qed

lemma disables_nest_witness:
  "depth (descs ((enable_irq 16 ^^ 3) ((disable_irq_nosync 16 ^^ 3)
     (snd (request_irq 16 ''key1_isr'' 0x22 ''KEY1'' None irq_board)))) 16) = 0"
proof -
  have "depth (descs (snd (request_irq 16 ''key1_isr'' 0x22 ''KEY1'' None irq_board)) 16) = 0"
    by (simp add: request_irq_def irq_board_def kmalloc_def setup_irq_def NR_IRQS_def IRQF_SHARED_def
        IRQ_DISABLED_def IRQ_NOREQUEST_def case_prod_beta Let_def start_line_def IRQF_TRIGGER_MASK_def
        IRQ_PROBING_def IRQ_NOAUTOEN_def IRQF_NOBALANCING_def)
  from disables_nest [OF _ this, of 3 2] show ?thesis by (simp add: NR_IRQS_def)
qed

section \<open>Edges are not lost\<close>

lemma handle_IRQ_event_append:
  "handle_IRQ_event run irq (as @ bs) s =
    (case handle_IRQ_event run irq as s of (r1, s1) \<Rightarrow> case handle_IRQ_event run irq bs s1 of (r2, s2) \<Rightarrow> (r1 OR r2, s2))"
  by (induction as arbitrary: s) (auto simp: case_prod_beta or.assoc)

text \<open>An edge on a disabled line runs no handler; it is remembered and the line masked.\<close>

lemma edge_while_disabled:
  assumes "bit (status (descs s irq)) 9"
  shows "\<exists>s'. handle_edge_irq k run irq s = Some s' \<and> actions (descs s' irq) = actions (descs s irq) \<and>
    depth (descs s' irq) = depth (descs s irq) \<and> irqs_resend s' = irqs_resend s \<and>
    has_retrigger (descs s' irq) = has_retrigger (descs s irq) \<and>
    status (descs s' irq) = (status (descs s irq) AND NOT (IRQ_REPLAY OR IRQ_WAITING)) OR (IRQ_PENDING OR IRQ_MASKED)"
proof -
  have "bit ((status (descs s irq) AND NOT (IRQ_REPLAY OR IRQ_WAITING)) AND (IRQ_INPROGRESS OR IRQ_DISABLED)) 9"
    using assms by (simp add: disabled_exp bit_or_iff bit_and_iff bit_not_iff bit_exp)
  then have "(status (descs s irq) AND NOT (IRQ_REPLAY OR IRQ_WAITING)) AND (IRQ_INPROGRESS OR IRQ_DISABLED) \<noteq> 0"
    by (metis bit_0_eq bot_apply bot_bool_def)
  then show ?thesis by (simp add: handle_edge_irq_def upd_status_def Let_def)
qed

text \<open>
  C21. An edge on a disabled line is not lost. It runs no handler, but when the line is enabled
  again it is queued to be resent (or the chip is told to retrigger it), with the line switched
  on and no longer pending.
\<close>

theorem pending_edge_resent:
  assumes "irq < NR_IRQS" "depth (descs s irq) = 1" "bit (status (descs s irq)) 9" "\<not> bit (status (descs s irq)) 14"
    and "handle_edge_irq k run irq s = Some s1"
  shows "chip_ops s1 = chip_ops s @ [ChipMask irq, ChipAck irq] \<and>
    (let s2 = enable_irq irq s1 in
      depth (descs s2 irq) = 0 \<and> status (descs s2 irq) AND IRQ_DISABLED = 0 \<and>
      status (descs s2 irq) AND IRQ_PENDING = 0 \<and>
      (if has_retrigger (descs s irq) then ChipRetrigger irq \<in> set (chip_ops s2) else irq \<in> set (irqs_resend s2)))"
proof -
  obtain s' where s': "handle_edge_irq k run irq s = Some s'" "depth (descs s' irq) = depth (descs s irq)"
    "has_retrigger (descs s' irq) = has_retrigger (descs s irq)"
    "status (descs s' irq) = (status (descs s irq) AND NOT (IRQ_REPLAY OR IRQ_WAITING)) OR (IRQ_PENDING OR IRQ_MASKED)"
    using edge_while_disabled [OF assms(3), of k run] by auto
  have s1: "s' = s1" using s'(1) assms(5) by simp
  let ?st = "(status (descs s1 irq) AND NOT IRQ_DISABLED) OR IRQ_NOPROBE"
  have b10: "bit (?st AND (IRQ_LEVEL OR IRQ_PENDING OR IRQ_REPLAY)) n \<longleftrightarrow> n = 10" for n
    using assms(4)
    by (simp only: s'(4) [unfolded s1] disabled_exp bit_or_iff bit_and_iff bit_not_iff bit_exp) auto
  have pend: "?st AND (IRQ_LEVEL OR IRQ_PENDING OR IRQ_REPLAY) = IRQ_PENDING"
    by (rule bit_eqI) (simp only: b10, simp only: disabled_exp bit_exp, simp)
  have ops: "chip_ops s1 = chip_ops s @ [ChipMask irq, ChipAck irq]"
  proof -
    have "bit ((status (descs s irq) AND NOT (IRQ_REPLAY OR IRQ_WAITING)) AND (IRQ_INPROGRESS OR IRQ_DISABLED)) 9"
      using assms(3) by (simp add: disabled_exp bit_or_iff bit_and_iff bit_not_iff bit_exp)
    then have "(status (descs s irq) AND NOT (IRQ_REPLAY OR IRQ_WAITING)) AND (IRQ_INPROGRESS OR IRQ_DISABLED) \<noteq> 0"
      by (metis bit_0_eq bot_apply bot_bool_def)
    then show ?thesis using assms(5) by (auto simp: handle_edge_irq_def upd_status_def Let_def)
  qed
  have dp: "depth (descs s1 irq) = 1" using s'(2) assms(2) unfolding s1 by simp
  have rt: "has_retrigger (descs s1 irq) = has_retrigger (descs s irq)" using s'(3) unfolding s1 .
  have "depth (descs (enable_irq irq s1) irq) = 0"
    "status (descs (enable_irq irq s1) irq) AND IRQ_DISABLED = 0"
    using enable_irq_desc [OF assms(1), of s1] dp by (simp_all add: disabled_iff)
  moreover have "status (descs (enable_irq irq s1) irq) = (?st AND NOT IRQ_PENDING) OR IRQ_REPLAY \<and>
      (if has_retrigger (descs s irq) then ChipRetrigger irq \<in> set (chip_ops (enable_irq irq s1))
       else irq \<in> set (irqs_resend (enable_irq irq s1)))"
    using assms(1) dp pend rt by (simp add: enable_irq_def check_irq_resend_def Let_def set_insort_key)
  moreover have "((?st AND NOT IRQ_PENDING) OR IRQ_REPLAY) AND IRQ_PENDING = 0"
    by (simp only: disabled_exp and_exp_eq_0_iff_not_bit bit_or_iff bit_and_iff bit_not_iff bit_exp) simp
  ultimately show ?thesis using ops by (simp add: Let_def)
qed

lemma pending_edge_resent_witness:
  "16 \<in> set (irqs_resend (enable_irq 16 (the (handle_edge_irq 1 (\<lambda>f i c s. (1, s)) 16 irq_board))))"
proof -
  let ?s1 = "the (handle_edge_irq 1 (\<lambda>f i c s. (1, s)) 16 irq_board)"
  have "handle_edge_irq 1 (\<lambda>f i c s. (1, s)) 16 irq_board = Some ?s1"
    using edge_while_disabled [of irq_board 16 1 "\<lambda>f i c s. (1, s)"]
    by (auto simp: irq_board_def disabled_exp bit_exp)
  from pending_edge_resent [OF _ _ _ _ this] show ?thesis
    by (simp add: irq_board_def NR_IRQS_def Let_def irq_bits)
qed

section \<open>What drivers rely on\<close>

text \<open>
  The contract of the lines: \<open>owners l s\<close> lists the cookies of the actions of line \<open>l\<close>, oldest first.
\<close>

locale interrupt_lines =
  fixes req :: "nat \<Rightarrow> string \<Rightarrow> u32 \<Rightarrow> string \<Rightarrow> nat option \<Rightarrow> 's \<Rightarrow> (kerror + unit) \<times> 's"
    and rel :: "nat \<Rightarrow> nat option \<Rightarrow> 's \<Rightarrow> 's"
    and owners :: "nat \<Rightarrow> 's \<Rightarrow> nat option list"
    and valid :: "nat \<Rightarrow> bool"
  assumes req_fails: "req l h f n c s = (Inl e, s') \<Longrightarrow> owners i s' = owners i s"
    and req_works: "req l h f n c s = (Inr u, s') \<Longrightarrow>
      valid l \<and> owners i s' = (if i = l then owners l s @ [c] else owners i s)"
    and rel_first: "valid l \<Longrightarrow> owners i (rel l c s) = (if i = l then remove1 c (owners l s) else owners i s)"
begin

lemma rel_undoes:
  assumes "req l h f n c s = (Inr u, s')" "c \<notin> set (owners l s)"
  shows "owners i (rel l c s') = owners i s"
  using req_works [OF assms(1)] rel_first [of l i c s'] assms(2) by (auto simp: remove1_append)

text \<open>Releasing a line one did not get takes away another owner with the same cookie.\<close>

lemma rel_of_another:
  assumes "req l h f n c s = (Inl e, s')" "valid l" "owners l s = [c]"
  shows "owners l (rel l c s') = []"
  using req_fails [OF assms(1), of l] rel_first [OF assms(2), of l c s'] assms(3) by simp

end

definition line_owners :: "nat \<Rightarrow> 'a irqboard_scheme \<Rightarrow> nat option list" where
  "line_owners l s = map dev_id (actions (descs s l))"

lemma map_remove_first: "map f (remove_first (\<lambda>a. f a = c) xs) = remove1 c (map f xs)"
  by (induction xs) auto

interpretation lines: interrupt_lines request_irq free_irq line_owners "\<lambda>l. l < NR_IRQS"
proof
  fix l i h f n c e u and s s' :: "'a irqboard_scheme"
  show "request_irq l h f n c s = (Inl e, s') \<Longrightarrow> line_owners i s' = line_owners i s"
    by (cases rule: request_irq_cases [of l h f n c s]) (auto simp: line_owners_def)
  show "request_irq l h f n c s = (Inr u, s') \<Longrightarrow>
      l < NR_IRQS \<and> line_owners i s' = (if i = l then line_owners l s @ [c] else line_owners i s)"
    by (cases rule: request_irq_cases [of l h f n c s]) (auto simp: line_owners_def)
  show "l < NR_IRQS \<Longrightarrow> line_owners i (free_irq l c s) = (if i = l then remove1 c (line_owners l s) else line_owners i s)"
    by (simp add: line_owners_def free_irq_actions map_remove_first)
qed

end
