(* ===== verification/IrqFlow.thy ===== *)
theory IrqFlow
  imports Irq
begin

unbundle bit_operations_syntax

text \<open>
  The flow handlers of kernel/irq/chip.c beside the edge flow of theory Irq: the level flow, which
  masks a line while its handlers run, and the simple flow, which leaves the controller alone; and
  \<open>__ffs\<close> (include/asm-generic/bitops/__ffs.h), with which the demultiplexers of the board find the
  next pending source.
\<close>

section \<open>Flow handlers\<close>

text \<open>No chip of the board has a \<open>mask_ack\<close> of its own.\<close>

definition mask_ack_irq :: "nat \<Rightarrow> 'a irqboard_scheme \<Rightarrow> 'a irqboard_scheme" where
  "mask_ack_irq irq s = chip_do (ChipAck irq) (chip_do (ChipMask irq) s)"

definition handle_simple_irq :: "(string \<Rightarrow> nat \<Rightarrow> nat option \<Rightarrow> 'a irqboard_scheme \<Rightarrow> u32 \<times> 'a irqboard_scheme) \<Rightarrow>
    nat \<Rightarrow> 'a irqboard_scheme \<Rightarrow> 'a irqboard_scheme" where
  "handle_simple_irq run irq s =
     (if status (descs s irq) AND IRQ_INPROGRESS \<noteq> 0 then s else
      let s = upd_status irq (\<lambda>st. st AND NOT (IRQ_REPLAY OR IRQ_WAITING)) s in
      if actions (descs s irq) = [] \<or> status (descs s irq) AND IRQ_DISABLED \<noteq> 0 then s else
      let s = upd_status irq (\<lambda>st. st OR IRQ_INPROGRESS) s in
      case handle_IRQ_event run irq (actions (descs s irq)) s of
        (ret, s) \<Rightarrow> upd_status irq (\<lambda>st. st AND NOT IRQ_INPROGRESS) (note_interrupt irq ret s))"

text \<open>Every chip of the board has \<open>unmask\<close>.\<close>

definition handle_level_irq :: "(string \<Rightarrow> nat \<Rightarrow> nat option \<Rightarrow> 'a irqboard_scheme \<Rightarrow> u32 \<times> 'a irqboard_scheme) \<Rightarrow>
    nat \<Rightarrow> 'a irqboard_scheme \<Rightarrow> 'a irqboard_scheme" where
  "handle_level_irq run irq s =
     (let s = mask_ack_irq irq s in
      if status (descs s irq) AND IRQ_INPROGRESS \<noteq> 0 then s else
      let s = upd_status irq (\<lambda>st. st AND NOT (IRQ_REPLAY OR IRQ_WAITING)) s in
      if actions (descs s irq) = [] \<or> status (descs s irq) AND IRQ_DISABLED \<noteq> 0 then s else
      let s = upd_status irq (\<lambda>st. st OR IRQ_INPROGRESS) s in
      case handle_IRQ_event run irq (actions (descs s irq)) s of
        (ret, s) \<Rightarrow>
          let s = upd_status irq (\<lambda>st. st AND NOT IRQ_INPROGRESS) (note_interrupt irq ret s) in
          if status (descs s irq) AND IRQ_DISABLED = 0 then chip_do (ChipUnmask irq) s else s)"

section \<open>Finding the first set bit\<close>

definition ffs_step :: "nat \<Rightarrow> nat \<times> u32 \<Rightarrow> nat \<times> u32" where
  "ffs_step k = (\<lambda>(num, w). if w AND mask k = 0 then (num + k, drop_bit k w) else (num, w))"

definition ffs :: "u32 \<Rightarrow> nat" where
  "ffs w = (case ffs_step 2 (ffs_step 4 (ffs_step 8 (ffs_step 16 (0, w)))) of
     (num, w) \<Rightarrow> if w AND 1 = 0 then num + 1 else num)"

lemma and_mask_0: "(w :: u32) AND mask k = 0 \<longleftrightarrow> (\<forall>n < k. \<not> bit w n)"
proof
  assume a: "w AND mask k = 0"
  show "\<forall>n < k. \<not> bit w n"
  proof (intro allI impI notI)
    fix n assume n: "n < k" "bit w n"
    then have "n < 32" using bit_imp_le_length by fastforce
    then have "bit (w AND mask k) n" using n by (simp add: bit_and_iff bit_mask_iff)
    then show False using a by simp
  qed
next
  assume "\<forall>n < k. \<not> bit w n"
  then show "w AND mask k = 0" by (intro bit_word_eqI) (auto simp: bit_and_iff bit_mask_iff)
qed

text \<open>What is left of the word after some steps: its first bit is among the lowest \<open>k\<close>.\<close>

definition ffs_at :: "u32 \<Rightarrow> nat \<Rightarrow> nat \<times> u32 \<Rightarrow> bool" where
  "ffs_at w k = (\<lambda>(num, v). v = drop_bit num w \<and> (\<forall>n < num. \<not> bit w n) \<and> (\<exists>n < k. bit v n))"

lemma ffs_step_at:
  assumes "ffs_at w (k + k) p"
  shows "ffs_at w k (ffs_step k p)"
proof -
  obtain num v where p: "p = (num, v)" by fastforce
  have v: "v = drop_bit num w" and lo: "\<forall>n < num. \<not> bit w n" and ex: "\<exists>n < k + k. bit v n"
    using assms by (auto simp: ffs_at_def p)
  show ?thesis
  proof (cases "v AND mask k = 0")
    case True
    then have z: "\<forall>n < k. \<not> bit v n" by (simp add: and_mask_0)
    have "\<not> bit w n" if "n < num + k" for n
      using that lo z [rule_format, of "n - num"] by (cases "n < num") (auto simp: v bit_drop_bit_eq)
    moreover obtain n where "n < k + k" "bit v n" using ex by blast
    then have "n - k < k \<and> bit (drop_bit k v) (n - k)"
      using z by (cases "n < k") (auto simp: bit_drop_bit_eq)
    then have "\<exists>n < k. bit (drop_bit k v) n" by blast
    ultimately show ?thesis using True by (auto simp: p ffs_step_def ffs_at_def v drop_bit_drop_bit add.commute)
  next
    case False
    then have "\<exists>n < k. bit v n" using and_mask_0 [of v k] by blast
    then show ?thesis using False v lo by (simp add: p ffs_step_def ffs_at_def)
  qed
qed

lemma ffs_first:
  assumes "w \<noteq> 0"
  shows "bit w (ffs w) \<and> (\<forall>n < ffs w. \<not> bit w n)"
proof -
  have "\<exists>n < 16 + 16. bit w n" using assms bit_word_eqI [of w 0] by auto
  then have "ffs_at w (16 + 16) (0, w)" by (simp add: ffs_at_def)
  from ffs_step_at [OF this] have "ffs_at w (8 + 8) (ffs_step 16 (0, w))" by simp
  from ffs_step_at [OF this] have "ffs_at w (4 + 4) (ffs_step 8 (ffs_step 16 (0, w)))" by simp
  from ffs_step_at [OF this] have "ffs_at w (2 + 2) (ffs_step 4 (ffs_step 8 (ffs_step 16 (0, w))))" by simp
  from ffs_step_at [OF this] have "ffs_at w 2 (ffs_step 2 (ffs_step 4 (ffs_step 8 (ffs_step 16 (0, w)))))" .
  moreover obtain num v where e: "ffs_step 2 (ffs_step 4 (ffs_step 8 (ffs_step 16 (0, w)))) = (num, v)" by fastforce
  ultimately have v: "v = drop_bit num w" "\<forall>n < num. \<not> bit w n" "bit v 0 \<or> bit v 1"
    by (auto simp: ffs_at_def less_2_cases_iff)
  have one: "v AND 1 = 0 \<longleftrightarrow> \<not> bit v 0" using and_mask_0 [of v 1] by simp
  have f: "ffs w = (if v AND 1 = 0 then num + 1 else num)" by (simp add: ffs_def e)
  have "bit v i \<longleftrightarrow> bit w (num + i)" for i by (simp add: v(1) bit_drop_bit_eq)
  then show ?thesis using v(2,3) by (auto simp: f one less_Suc_eq)
qed

text \<open>The set bits of a word, in ascending order; \<open>ffs\<close> is the first of them.\<close>

definition set_bits :: "u32 \<Rightarrow> nat list" where
  "set_bits w = filter (bit w) [0..<32]"

lemma set_bits_0 [simp]: "set_bits 0 = []"
  by (simp add: set_bits_def)

lemma set_set_bits [simp]: "i \<in> set (set_bits w) \<longleftrightarrow> bit w i"
  using bit_imp_le_length [of w i] by (auto simp: set_bits_def)

lemma bit_clear: "bit (w AND NOT (2 ^ b)) n \<longleftrightarrow> bit (w :: u32) n \<and> n \<noteq> b"
  using bit_imp_le_length [of w n] by (auto simp: bit_and_iff bit_not_iff bit_exp)

lemma set_bits_ffs:
  assumes "w \<noteq> 0"
  shows "set_bits w = ffs w # set_bits (w AND NOT (2 ^ ffs w))"
proof -
  have f: "bit w (ffs w)" "\<And>n. n < ffs w \<Longrightarrow> \<not> bit w n" using ffs_first [OF assms] by auto
  have l: "ffs w < 32" using bit_imp_le_length [OF f(1)] by simp
  have "[0..<32] = [0..<ffs w] @ ffs w # [Suc (ffs w)..<32]"
    using l upt_conv_Cons [OF l] upt_add_eq_append [of 0 "ffs w" "32 - ffs w"] by simp
  moreover have "filter (bit w) [0..<ffs w] = []" using f(2) by (simp add: filter_empty_conv)
  moreover have "filter (bit (w AND NOT (2 ^ ffs w))) [0..<ffs w] = []" using f(2) by (simp add: filter_empty_conv bit_clear)
  moreover have "filter (bit (w AND NOT (2 ^ ffs w))) [Suc (ffs w)..<32] = filter (bit w) [Suc (ffs w)..<32]"
    by (rule filter_cong) (auto simp: bit_clear)
  ultimately show ?thesis using f(1) by (simp add: set_bits_def bit_clear)
qed

lemma clear_less:
  assumes "w \<noteq> 0"
  shows "length (set_bits (w AND NOT (2 ^ ffs w))) < length (set_bits w)"
  using set_bits_ffs [OF assms] by simp

end
