(* ===== verification/S3cIrq.thy ===== *)
theory S3cIrq
  imports IrqFlow
begin

unbundle bit_operations_syntax

text \<open>
  The interrupt controller of the board (arch/arm/plat-s3c24xx/irq.c and s3c244x-irq.c,
  arch/arm/mach-s3c2440/irq.c, include/asm-arm/plat-s3c24xx/irq.h), and what connects it to the
  lines (kernel/irq/chip.c, arch/arm/kernel/irq.c): masking and acknowledging in the controller's
  registers, the trigger of an external line, the demultiplexers of the lines that stand for
  several sources, and the setup of all lines at boot. The registers of pending sources are those
  of the data sheet: a bit that is written as one is cleared.

  The functions of theory Irq log the calls of the chip's operations; here \<open>chip_sync\<close> carries them
  out on the registers, which it does before a register is read.
\<close>

section \<open>Lines and registers\<close>

datatype irq_chip = NoIrqChip | DummyIrqChip | S3cLevel | S3c | S3cExt | S3cEint0t4
  | S3cUart0 | S3cUart1 | S3cUart2 | S3cAdc | S3cWdtac97 | S3cCam

record s3cboard = irqboard +
  line_chip :: "nat \<Rightarrow> irq_chip"
  irq_err_count :: u32
  srcpnd :: u32
  intpnd :: u32
  intmsk :: u32
  eintpend :: u32
  eintmask :: u32
  subsrcpnd :: u32
  intsubmsk :: u32
  extint :: "nat \<Rightarrow> u32"
  gpgcon :: u32

definition IRQ_EINT0 :: nat where "IRQ_EINT0 = 16"
definition IRQ_EINT2 :: nat where "IRQ_EINT2 = 18"
definition IRQ_EINT4t7 :: nat where "IRQ_EINT4t7 = 20"
definition IRQ_EINT8t23 :: nat where "IRQ_EINT8t23 = 21"
definition IRQ_CAM :: nat where "IRQ_CAM = 22"
definition IRQ_WDT :: nat where "IRQ_WDT = 25"
definition IRQ_UART2 :: nat where "IRQ_UART2 = 31"
definition IRQ_UART1 :: nat where "IRQ_UART1 = 39"
definition IRQ_NFCON :: nat where "IRQ_NFCON = 40"
definition IRQ_UART0 :: nat where "IRQ_UART0 = 44"
definition IRQ_ADCPARENT :: nat where "IRQ_ADCPARENT = 47"
definition IRQ_EINT4 :: nat where "IRQ_EINT4 = 48"
definition IRQ_EINT8 :: nat where "IRQ_EINT8 = 52"
definition IRQ_EINT16 :: nat where "IRQ_EINT16 = 60"
definition IRQ_EINT19 :: nat where "IRQ_EINT19 = 63"
definition IRQ_S3CUART_RX0 :: nat where "IRQ_S3CUART_RX0 = 70"
definition IRQ_S3CUART_RX1 :: nat where "IRQ_S3CUART_RX1 = 73"
definition IRQ_S3CUART_RX2 :: nat where "IRQ_S3CUART_RX2 = 76"
definition IRQ_TC :: nat where "IRQ_TC = 79"
definition IRQ_S3C2440_CAM_C :: nat where "IRQ_S3C2440_CAM_C = 81"
definition IRQ_S3C2440_WDT :: nat where "IRQ_S3C2440_WDT = 83"
definition EXTINT_OFF :: nat where "EXTINT_OFF = IRQ_EINT4 - 4"

lemmas irq_numbers = IRQ_EINT0_def IRQ_EINT2_def IRQ_EINT4t7_def IRQ_EINT8t23_def IRQ_CAM_def IRQ_WDT_def
  IRQ_UART2_def IRQ_UART1_def IRQ_NFCON_def IRQ_UART0_def IRQ_ADCPARENT_def IRQ_EINT4_def IRQ_EINT8_def
  IRQ_EINT16_def IRQ_EINT19_def IRQ_S3CUART_RX0_def IRQ_S3CUART_RX1_def IRQ_S3CUART_RX2_def IRQ_TC_def
  IRQ_S3C2440_CAM_C_def IRQ_S3C2440_WDT_def EXTINT_OFF_def NR_IRQS_def

text \<open>Writing the registers of pending sources; \<open>__raw_writel\<close> to SRCPND and INTPND always comes as a pair.\<close>

definition write_pnd :: "u32 \<Rightarrow> 'a s3cboard_scheme \<Rightarrow> 'a s3cboard_scheme" where
  "write_pnd v s = s\<lparr>srcpnd := srcpnd s AND NOT v, intpnd := intpnd s AND NOT v\<rparr>"

definition write_eintpend :: "u32 \<Rightarrow> 'a s3cboard_scheme \<Rightarrow> 'a s3cboard_scheme" where
  "write_eintpend v s = s\<lparr>eintpend := eintpend s AND NOT v\<rparr>"

definition write_subsrcpnd :: "u32 \<Rightarrow> 'a s3cboard_scheme \<Rightarrow> 'a s3cboard_scheme" where
  "write_subsrcpnd v s = s\<lparr>subsrcpnd := subsrcpnd s AND NOT v\<rparr>"

section \<open>The chips\<close>

definition s3c_irq_mask :: "nat \<Rightarrow> 'a s3cboard_scheme \<Rightarrow> 'a s3cboard_scheme" where
  "s3c_irq_mask irqno s = s\<lparr>intmsk := intmsk s OR push_bit (irqno - IRQ_EINT0) 1\<rparr>"

definition s3c_irq_unmask :: "nat \<Rightarrow> 'a s3cboard_scheme \<Rightarrow> 'a s3cboard_scheme" where
  "s3c_irq_unmask irqno s = s\<lparr>intmsk := intmsk s AND NOT (push_bit (irqno - IRQ_EINT0) 1)\<rparr>"

definition s3c_irq_ack :: "nat \<Rightarrow> 'a s3cboard_scheme \<Rightarrow> 'a s3cboard_scheme" where
  "s3c_irq_ack irqno s = write_pnd (push_bit (irqno - IRQ_EINT0) 1) s"

definition s3c_irq_maskack :: "nat \<Rightarrow> 'a s3cboard_scheme \<Rightarrow> 'a s3cboard_scheme" where
  "s3c_irq_maskack irqno s =
     (let bitval = push_bit (irqno - IRQ_EINT0) 1 in write_pnd bitval (s\<lparr>intmsk := intmsk s OR bitval\<rparr>))"

definition s3c_irqext_mask :: "nat \<Rightarrow> 'a s3cboard_scheme \<Rightarrow> 'a s3cboard_scheme" where
  "s3c_irqext_mask irqno s = s\<lparr>eintmask := eintmask s OR push_bit (irqno - EXTINT_OFF) 1\<rparr>"

definition s3c_irqext_unmask :: "nat \<Rightarrow> 'a s3cboard_scheme \<Rightarrow> 'a s3cboard_scheme" where
  "s3c_irqext_unmask irqno s = s\<lparr>eintmask := eintmask s AND NOT (push_bit (irqno - EXTINT_OFF) 1)\<rparr>"

text \<open>The line the external lines share is acknowledged when none of them is pending and unmasked.\<close>

definition s3c_irqext_ack :: "nat \<Rightarrow> 'a s3cboard_scheme \<Rightarrow> 'a s3cboard_scheme" where
  "s3c_irqext_ack irqno s =
     (let mask = eintmask s; s = write_eintpend (push_bit (irqno - EXTINT_OFF) 1) s;
          req = eintpend s AND NOT mask in
      if irqno < IRQ_EINT8
      then (if req AND 0xf0 = 0 then s3c_irq_ack IRQ_EINT4t7 s else s)
      else (if drop_bit 8 req = 0 then s3c_irq_ack IRQ_EINT8t23 s else s))"

text \<open>
  The trigger of an external line: its pin becomes an interrupt input, two bits of the port's
  register, and three bits select the trigger. \<open>IRQT_NOEDGE\<close> selects what 0 stands for, the low level.
\<close>

definition S3C2410_EXTINT_LOWLEV :: u32 where "S3C2410_EXTINT_LOWLEV = 0"
definition S3C2410_EXTINT_HILEV :: u32 where "S3C2410_EXTINT_HILEV = 1"
definition S3C2410_EXTINT_FALLEDGE :: u32 where "S3C2410_EXTINT_FALLEDGE = 2"
definition S3C2410_EXTINT_RISEEDGE :: u32 where "S3C2410_EXTINT_RISEEDGE = 4"
definition S3C2410_EXTINT_BOTHEDGE :: u32 where "S3C2410_EXTINT_BOTHEDGE = 6"

datatype gpcon = GPFCON | GPGCON

definition ext_regs :: "nat \<Rightarrow> (gpcon \<times> nat \<times> nat \<times> nat) option" where
  "ext_regs irq =
     (if IRQ_EINT0 \<le> irq \<and> irq \<le> IRQ_EINT0 + 3 then Some (GPFCON, (irq - IRQ_EINT0) * 2, 0, (irq - IRQ_EINT0) * 4)
      else if IRQ_EINT4 \<le> irq \<and> irq \<le> IRQ_EINT4 + 3 then Some (GPFCON, (irq - EXTINT_OFF) * 2, 0, (irq - EXTINT_OFF) * 4)
      else if IRQ_EINT8 \<le> irq \<and> irq \<le> IRQ_EINT8 + 7 then Some (GPGCON, (irq - IRQ_EINT8) * 2, 1, (irq - IRQ_EINT8) * 4)
      else if IRQ_EINT16 \<le> irq \<and> irq \<le> IRQ_EINT16 + 7 then Some (GPGCON, (irq - IRQ_EINT8) * 2, 2, (irq - IRQ_EINT16) * 4)
      else None)"

definition set_gpcon :: "gpcon \<Rightarrow> (u32 \<Rightarrow> u32) \<Rightarrow> 'a s3cboard_scheme \<Rightarrow> 'a s3cboard_scheme" where
  "set_gpcon r f s = (case r of GPFCON \<Rightarrow> s\<lparr>gpfcon := f (gpfcon s)\<rparr> | GPGCON \<Rightarrow> s\<lparr>gpgcon := f (gpgcon s)\<rparr>)"

definition extint_value :: "u32 \<Rightarrow> u32 option" where
  "extint_value ty =
     (if ty = 0 then Some 0 else if ty = 1 then Some S3C2410_EXTINT_RISEEDGE else if ty = 2 then Some S3C2410_EXTINT_FALLEDGE
      else if ty = 3 then Some S3C2410_EXTINT_BOTHEDGE else if ty = 8 then Some S3C2410_EXTINT_LOWLEV
      else if ty = 4 then Some S3C2410_EXTINT_HILEV else None)"

definition s3c_irqext_type :: "nat \<Rightarrow> u32 \<Rightarrow> 'a s3cboard_scheme \<Rightarrow> int \<times> 'a s3cboard_scheme" where
  "s3c_irqext_type irq ty s =
     (case ext_regs irq of None \<Rightarrow> (-1, s)
      | Some (gpcon_reg, gpcon_offset, extint_reg, extint_offset) \<Rightarrow>
          let s = set_gpcon gpcon_reg (\<lambda>v. (v AND NOT (push_bit gpcon_offset 3)) OR push_bit gpcon_offset 2) s;
              s = (if ty = 0 then printk ''No edge setting!'' [] s else s) in
          (case extint_value ty of
             None \<Rightarrow> (-1, printk ''No such irq type %d'' [uint ty] s)
           | Some newvalue \<Rightarrow> (0, s\<lparr>extint := (extint s)(extint_reg :=
               (extint s extint_reg AND NOT (push_bit extint_offset 7)) OR push_bit extint_offset newvalue)\<rparr>)))"

text \<open>The sources behind a line (UARTs, ADC, watchdog, camera) have registers of their own.\<close>

definition s3c_irqsub_mask :: "nat \<Rightarrow> u32 \<Rightarrow> u32 \<Rightarrow> 'a s3cboard_scheme \<Rightarrow> 'a s3cboard_scheme" where
  "s3c_irqsub_mask irqno parentbit subcheck s =
     (let submask = intsubmsk s OR push_bit (irqno - IRQ_S3CUART_RX0) 1;
          s = (if submask AND subcheck = subcheck then s\<lparr>intmsk := intmsk s OR parentbit\<rparr> else s)
      in s\<lparr>intsubmsk := submask\<rparr>)"

definition s3c_irqsub_unmask :: "nat \<Rightarrow> u32 \<Rightarrow> 'a s3cboard_scheme \<Rightarrow> 'a s3cboard_scheme" where
  "s3c_irqsub_unmask irqno parentbit s =
     s\<lparr>intsubmsk := intsubmsk s AND NOT (push_bit (irqno - IRQ_S3CUART_RX0) 1), intmsk := intmsk s AND NOT parentbit\<rparr>"

definition s3c_irqsub_ack :: "nat \<Rightarrow> u32 \<Rightarrow> u32 \<Rightarrow> 'a s3cboard_scheme \<Rightarrow> 'a s3cboard_scheme" where
  "s3c_irqsub_ack irqno parentmask grp s =
     write_pnd parentmask (write_subsrcpnd (push_bit (irqno - IRQ_S3CUART_RX0) 1) s)"

definition s3c_irqsub_maskack :: "nat \<Rightarrow> u32 \<Rightarrow> u32 \<Rightarrow> 'a s3cboard_scheme \<Rightarrow> 'a s3cboard_scheme" where
  "s3c_irqsub_maskack irqno parentmask grp s = s3c_irqsub_ack irqno parentmask grp (s3c_irqsub_mask irqno parentmask grp s)"

text \<open>The line of a chip's sources, as a bit of the line's registers, and the sources, as bits of theirs.\<close>

definition sub_group :: "irq_chip \<Rightarrow> (u32 \<times> u32) option" where
  "sub_group c = (case c of
       S3cUart0 \<Rightarrow> Some (push_bit (IRQ_UART0 - IRQ_EINT0) 1, 7)
     | S3cUart1 \<Rightarrow> Some (push_bit (IRQ_UART1 - IRQ_EINT0) 1, push_bit 3 7)
     | S3cUart2 \<Rightarrow> Some (push_bit (IRQ_UART2 - IRQ_EINT0) 1, push_bit 6 7)
     | S3cAdc \<Rightarrow> Some (push_bit (IRQ_ADCPARENT - IRQ_EINT0) 1, push_bit 9 3)
     | S3cWdtac97 \<Rightarrow> Some (push_bit (IRQ_WDT - IRQ_EINT0) 1, push_bit 13 3)
     | S3cCam \<Rightarrow> Some (push_bit (IRQ_CAM - IRQ_EINT0) 1, push_bit 11 3)
     | _ \<Rightarrow> None)"

section \<open>Operations of the lines\<close>

text \<open>
  The operations of the chip of a line. \<open>no_irq_chip\<close> has no mask and no unmask (none is called); its
  acknowledge, \<open>ack_bad\<close>, reports the descriptor, whose report is one entry of the log here.
\<close>

definition ack_bad_irq :: "'a s3cboard_scheme \<Rightarrow> 'a s3cboard_scheme" where
  "ack_bad_irq s = s\<lparr>irq_err_count := irq_err_count s + 1\<rparr>"

definition print_irq_desc :: "nat \<Rightarrow> 'a irqboard_scheme \<Rightarrow> 'a irqboard_scheme" where
  "print_irq_desc irq s =
     (let d = descs s irq in
      printk ''irq %d, depth: %d, count: %d, unhandled: %d'' [int irq, uint (depth d), uint (irq_count d), uint (irqs_unhandled d)] s)"

definition chip_mask :: "nat \<Rightarrow> 'a s3cboard_scheme \<Rightarrow> 'a s3cboard_scheme" where
  "chip_mask irq s =
     (case line_chip s irq of
        NoIrqChip \<Rightarrow> s | DummyIrqChip \<Rightarrow> s
      | S3cExt \<Rightarrow> s3c_irqext_mask irq s
      | S3cLevel \<Rightarrow> s3c_irq_mask irq s | S3c \<Rightarrow> s3c_irq_mask irq s | S3cEint0t4 \<Rightarrow> s3c_irq_mask irq s
      | c \<Rightarrow> (case sub_group c of None \<Rightarrow> s | Some (parent, grp) \<Rightarrow> s3c_irqsub_mask irq parent grp s))"

definition chip_unmask :: "nat \<Rightarrow> 'a s3cboard_scheme \<Rightarrow> 'a s3cboard_scheme" where
  "chip_unmask irq s =
     (case line_chip s irq of
        NoIrqChip \<Rightarrow> s | DummyIrqChip \<Rightarrow> s
      | S3cExt \<Rightarrow> s3c_irqext_unmask irq s
      | S3cLevel \<Rightarrow> s3c_irq_unmask irq s | S3c \<Rightarrow> s3c_irq_unmask irq s | S3cEint0t4 \<Rightarrow> s3c_irq_unmask irq s
      | c \<Rightarrow> (case sub_group c of None \<Rightarrow> s | Some (parent, grp) \<Rightarrow> s3c_irqsub_unmask irq parent s))"

definition chip_ack :: "nat \<Rightarrow> 'a s3cboard_scheme \<Rightarrow> 'a s3cboard_scheme" where
  "chip_ack irq s =
     (case line_chip s irq of
        NoIrqChip \<Rightarrow> ack_bad_irq (print_irq_desc irq s) | DummyIrqChip \<Rightarrow> s
      | S3cExt \<Rightarrow> s3c_irqext_ack irq s
      | S3cLevel \<Rightarrow> s3c_irq_maskack irq s | S3c \<Rightarrow> s3c_irq_ack irq s | S3cEint0t4 \<Rightarrow> s3c_irq_ack irq s
      | c \<Rightarrow> (case sub_group c of None \<Rightarrow> s
               | Some (parent, grp) \<Rightarrow> if c = S3cAdc then s3c_irqsub_ack irq parent grp s else s3c_irqsub_maskack irq parent grp s))"

text \<open>
  Carrying out a logged call. No chip has operations of its own for enable, disable, startup and
  shutdown: \<open>irq_chip_set_defaults\<close> makes the first and the third unmask the line, the others do nothing.
\<close>

definition s3c_chip_do :: "chip_op \<Rightarrow> 'a s3cboard_scheme \<Rightarrow> 'a s3cboard_scheme" where
  "s3c_chip_do c s =
     (case c of
        ChipMask irq \<Rightarrow> chip_mask irq s | ChipUnmask irq \<Rightarrow> chip_unmask irq s | ChipAck irq \<Rightarrow> chip_ack irq s
      | ChipEnable irq \<Rightarrow> chip_unmask irq s | ChipStartup irq \<Rightarrow> chip_unmask irq s
      | ChipDisable irq \<Rightarrow> s | ChipShutdown irq \<Rightarrow> s | ChipRetrigger irq \<Rightarrow> s
      | ChipSetType irq ty \<Rightarrow> snd (s3c_irqext_type irq ty s))"

definition chip_sync :: "'a s3cboard_scheme \<Rightarrow> 'a s3cboard_scheme" where
  "chip_sync s = fold s3c_chip_do (chip_ops s) (s\<lparr>chip_ops := []\<rparr>)"

section \<open>Connecting lines, chips and flows\<close>

definition set_irq_chip :: "nat \<Rightarrow> irq_chip \<Rightarrow> 'a s3cboard_scheme \<Rightarrow> (kerror + unit) \<times> 'a s3cboard_scheme" where
  "set_irq_chip irq chip s =
     (if irq \<ge> NR_IRQS then (Inl EINVAL, printk ''Trying to install chip for IRQ%d'' [int irq] s) else
      (Inr (), set_desc irq ((descs s irq)\<lparr>has_chip := chip \<noteq> NoIrqChip, has_set_type := (chip = S3cExt \<or> chip = S3cEint0t4),
                 has_retrigger := False\<rparr>) (s\<lparr>line_chip := (line_chip s)(irq := chip)\<rparr>)))"

text \<open>\<open>__set_irq_handler\<close>: the flow of a line; a chained flow starts the line, which nobody can request.\<close>

definition set_handler :: "nat \<Rightarrow> string option \<Rightarrow> bool \<Rightarrow> 'a s3cboard_scheme \<Rightarrow> 'a s3cboard_scheme" where
  "set_handler irq handle is_chained s =
     (if irq \<ge> NR_IRQS then printk ''Trying to install type control for IRQ%d'' [int irq] s else
      let hnd = (case handle of None \<Rightarrow> ''handle_bad_irq'' | Some h \<Rightarrow> h);
          s = (if handle \<noteq> None \<and> line_chip s irq = NoIrqChip
               then snd (set_irq_chip irq DummyIrqChip
                      (printk (if is_chained then ''Trying to install chained interrupt handler for IRQ%d''
                               else ''Trying to install interrupt handler for IRQ%d'') [int irq] s))
               else s);
          s = (if hnd = ''handle_bad_irq''
               then (let s = (if line_chip s irq \<noteq> NoIrqChip then mask_ack_irq irq s else s)
                     in set_desc irq ((descs s irq)\<lparr>status := status (descs s irq) OR IRQ_DISABLED, depth := 1\<rparr>) s)
               else s);
          s = set_desc irq ((descs s irq)\<lparr>handle_irq := Some hnd\<rparr>) s
      in if hnd \<noteq> ''handle_bad_irq'' \<and> is_chained
         then chip_do (ChipUnmask irq) (set_desc irq ((descs s irq)\<lparr>
                status := (status (descs s irq) AND NOT IRQ_DISABLED) OR (IRQ_NOREQUEST OR IRQ_NOPROBE), depth := 0\<rparr>) s)
         else s)"

definition set_irq_handler :: "nat \<Rightarrow> string \<Rightarrow> 'a s3cboard_scheme \<Rightarrow> 'a s3cboard_scheme" where
  "set_irq_handler irq handle s = set_handler irq (Some handle) False s"

definition set_irq_chained_handler :: "nat \<Rightarrow> string \<Rightarrow> 'a s3cboard_scheme \<Rightarrow> 'a s3cboard_scheme" where
  "set_irq_chained_handler irq handle s = set_handler irq (Some handle) True s"

text \<open>The flags of ARM: \<open>IRQF_VALID\<close> is bit 0, \<open>IRQF_PROBE\<close> bit 1, \<open>IRQF_NOAUTOEN\<close> bit 2.\<close>

definition set_irq_flags :: "nat \<Rightarrow> u32 \<Rightarrow> 'a irqboard_scheme \<Rightarrow> 'a irqboard_scheme" where
  "set_irq_flags irq iflags s =
     (if irq \<ge> NR_IRQS then printk ''Trying to set irq flags for IRQ%d'' [int irq] s else
      upd_status irq (\<lambda>st.
        let st = st OR (IRQ_NOREQUEST OR IRQ_NOPROBE OR IRQ_NOAUTOEN);
            st = (if iflags AND 1 \<noteq> 0 then st AND NOT IRQ_NOREQUEST else st);
            st = (if iflags AND 2 \<noteq> 0 then st AND NOT IRQ_NOPROBE else st)
        in if iflags AND 4 = 0 then st AND NOT IRQ_NOAUTOEN else st) s)"

section \<open>The setup at boot\<close>

text \<open>Pending sources are cleared, up to four times each.\<close>

fun clear_pending :: "nat \<Rightarrow> ('s \<Rightarrow> u32) \<Rightarrow> (u32 \<Rightarrow> 's \<Rightarrow> 's) \<Rightarrow> u32 \<Rightarrow> 's \<Rightarrow> 's" where
  "clear_pending 0 pending clear prev s = s"
| "clear_pending (Suc i) pending clear prev s =
     (let pend = pending s in
      if pend = 0 \<or> pend = prev then s else clear_pending i pending clear pend (clear pend s))"

text \<open>A line with its chip and flow; \<open>IRQF_VALID\<close> is 1.\<close>

definition setup_line :: "irq_chip \<Rightarrow> string \<Rightarrow> nat \<Rightarrow> 'a s3cboard_scheme \<Rightarrow> 'a s3cboard_scheme" where
  "setup_line chip handle irqno s = set_irq_flags irqno 1 (set_irq_handler irqno handle (snd (set_irq_chip irqno chip s)))"

definition setup_main_line :: "nat \<Rightarrow> 'a s3cboard_scheme \<Rightarrow> 'a s3cboard_scheme" where
  "setup_main_line irqno s =
     (if irqno \<in> {IRQ_EINT4t7, IRQ_EINT8t23, IRQ_UART0, IRQ_UART1, IRQ_UART2, IRQ_ADCPARENT}
      then set_irq_handler irqno ''handle_level_irq'' (snd (set_irq_chip irqno S3cLevel s))
      else if irqno \<in> {IRQ_CAM, IRQ_NFCON} then s
      else setup_line S3c ''handle_edge_irq'' irqno s)"

definition clear_all :: "'a s3cboard_scheme \<Rightarrow> 'a s3cboard_scheme" where
  "clear_all s =
     (let s = clear_pending 4 eintpend (\<lambda>p s. printk ''irq: clearing pending ext status %08x'' [uint p] (write_eintpend p s)) 0 s;
          s = clear_pending 4 intpnd (\<lambda>p s. printk ''irq: clearing pending status %08x'' [uint p] (write_pnd p s)) 0 s
      in clear_pending 4 subsrcpnd (\<lambda>p s. write_subsrcpnd p (printk ''irq: clearing subpending status %08x'' [uint p] s)) 0 s)"

definition chain_lines :: "'a s3cboard_scheme \<Rightarrow> 'a s3cboard_scheme" where
  "chain_lines s =
     (let s = set_irq_chained_handler IRQ_EINT4t7 ''s3c_irq_demux_extint4t7'' s;
          s = set_irq_chained_handler IRQ_EINT8t23 ''s3c_irq_demux_extint8'' s;
          s = set_irq_chained_handler IRQ_UART0 ''s3c_irq_demux_uart0'' s;
          s = set_irq_chained_handler IRQ_UART1 ''s3c_irq_demux_uart1'' s;
          s = set_irq_chained_handler IRQ_UART2 ''s3c_irq_demux_uart2'' s
      in set_irq_chained_handler IRQ_ADCPARENT ''s3c_irq_demux_adc'' s)"

definition s3c24xx_init_irq :: "'a s3cboard_scheme \<Rightarrow> 'a s3cboard_scheme" where
  "s3c24xx_init_irq s =
     (let s = clear_all (chip_sync s);
          s = fold setup_main_line [IRQ_EINT4t7..<Suc IRQ_ADCPARENT] s;
          s = chain_lines s;
          s = fold (setup_line S3cEint0t4 ''handle_edge_irq'') [IRQ_EINT0..<IRQ_EINT0 + 4] s;
          s = fold (setup_line S3cExt ''handle_edge_irq'') [IRQ_EINT4..<IRQ_EINT4 + 20] s;
          s = fold (setup_line S3cUart0 ''handle_level_irq'') [IRQ_S3CUART_RX0..<IRQ_S3CUART_RX0 + 3] s;
          s = fold (setup_line S3cUart1 ''handle_level_irq'') [IRQ_S3CUART_RX1..<IRQ_S3CUART_RX1 + 3] s;
          s = fold (setup_line S3cUart2 ''handle_level_irq'') [IRQ_S3CUART_RX2..<IRQ_S3CUART_RX2 + 3] s
      in fold (setup_line S3cAdc ''handle_edge_irq'') [IRQ_TC..<IRQ_TC + 2] s)"

definition init_IRQ :: "'a s3cboard_scheme \<Rightarrow> 'a s3cboard_scheme" where
  "init_IRQ s = s3c24xx_init_irq (fold (\<lambda>irq. upd_status irq (\<lambda>st. st OR (IRQ_NOREQUEST OR IRQ_NOPROBE))) [0..<NR_IRQS] s)"

text \<open>What the S3C2440 has beside: watchdog and AC97, camera, NAND flash.\<close>

definition s3c2440_irq_add :: "'a s3cboard_scheme \<Rightarrow> 'a s3cboard_scheme" where
  "s3c2440_irq_add s =
     (let s = set_irq_handler IRQ_WDT ''handle_level_irq'' (snd (set_irq_chip IRQ_WDT S3cLevel (printk ''S3C2440: IRQ Support'' [] s)));
          s = set_irq_chained_handler IRQ_WDT ''s3c_irq_demux_wdtac97'' s
      in fold (setup_line S3cWdtac97 ''handle_level_irq'') [IRQ_S3C2440_WDT..<IRQ_S3C2440_WDT + 2] s)"

definition s3c244x_irq_add :: "'a s3cboard_scheme \<Rightarrow> 'a s3cboard_scheme" where
  "s3c244x_irq_add s =
     (let s = setup_line S3cLevel ''handle_level_irq'' IRQ_NFCON s;
          s = set_irq_handler IRQ_CAM ''handle_level_irq'' (snd (set_irq_chip IRQ_CAM S3cLevel s));
          s = set_irq_chained_handler IRQ_CAM ''s3c_irq_demux_cam'' s
      in fold (setup_line S3cCam ''handle_level_irq'') [IRQ_S3C2440_CAM_C..<IRQ_S3C2440_CAM_C + 2] s)"

section \<open>An interrupt arrives\<close>

text \<open>
  The demultiplexers call the flow of each source that is pending and not masked, as the registers
  were at entry; \<open>None\<close> is a flow that does not end.
\<close>

function demux_bits :: "(nat \<Rightarrow> 's \<Rightarrow> 's option) \<Rightarrow> u32 \<Rightarrow> 's \<Rightarrow> 's option" where
  "demux_bits handle eintpnd s =
     (if eintpnd = 0 then Some s else
      let irq = ffs eintpnd; eintpnd = eintpnd AND NOT (2 ^ irq) in
      case handle (irq + (IRQ_EINT4 - 4)) s of None \<Rightarrow> None | Some s \<Rightarrow> demux_bits handle eintpnd s)"
  by pat_completeness auto
termination
  by (relation "measure (\<lambda>(handle, w, s). length (set_bits w))") (auto simp: clear_less)

declare demux_bits.simps [simp del]

definition s3c_irq_demux_extint8 :: "(nat \<Rightarrow> 'a s3cboard_scheme \<Rightarrow> 'a s3cboard_scheme option) \<Rightarrow> 'a s3cboard_scheme \<Rightarrow> 'a s3cboard_scheme option" where
  "s3c_irq_demux_extint8 handle s =
     (let s = chip_sync s in demux_bits handle ((eintpend s AND NOT (eintmask s)) AND NOT 0xff) s)"

definition s3c_irq_demux_extint4t7 :: "(nat \<Rightarrow> 'a s3cboard_scheme \<Rightarrow> 'a s3cboard_scheme option) \<Rightarrow> 'a s3cboard_scheme \<Rightarrow> 'a s3cboard_scheme option" where
  "s3c_irq_demux_extint4t7 handle s =
     (let s = chip_sync s in demux_bits handle ((eintpend s AND NOT (eintmask s)) AND 0xff) s)"

text \<open>The sources of a group, in order: the lines from \<open>start\<close> on, whose bits are \<open>offset\<close> and the following.\<close>

fun demux_subs :: "(nat \<Rightarrow> 's \<Rightarrow> 's option) \<Rightarrow> u32 \<Rightarrow> nat \<Rightarrow> nat \<Rightarrow> 's \<Rightarrow> 's option" where
  "demux_subs handle subsrc 0 irq s = Some s"
| "demux_subs handle subsrc (Suc n) irq s =
     (case (if subsrc AND 1 \<noteq> 0 then handle irq s else Some s) of
        None \<Rightarrow> None | Some s \<Rightarrow> demux_subs handle (drop_bit 1 subsrc) n (Suc irq) s)"

definition demux_group :: "nat \<Rightarrow> nat \<Rightarrow> nat \<Rightarrow> (nat \<Rightarrow> 'a s3cboard_scheme \<Rightarrow> 'a s3cboard_scheme option) \<Rightarrow> 'a s3cboard_scheme \<Rightarrow> 'a s3cboard_scheme option" where
  "demux_group start offset n handle s =
     (let s = chip_sync s in demux_subs handle (drop_bit offset (subsrcpnd s AND NOT (intsubmsk s)) AND mask n) n start s)"

definition s3c_irq_demux_uart :: "nat \<Rightarrow> (nat \<Rightarrow> 'a s3cboard_scheme \<Rightarrow> 'a s3cboard_scheme option) \<Rightarrow> 'a s3cboard_scheme \<Rightarrow> 'a s3cboard_scheme option" where
  "s3c_irq_demux_uart start = demux_group start (start - IRQ_S3CUART_RX0) 3"

text \<open>\<open>desc_handle_irq\<close> calls the flow of a line; \<open>None\<close> is also the jump to a null pointer. The
  demultiplexers call it again; the first argument bounds this nesting, the second the edge flow.\<close>

definition handle_bad_irq :: "nat \<Rightarrow> 'a s3cboard_scheme \<Rightarrow> 'a s3cboard_scheme" where
  "handle_bad_irq irq s = ack_bad_irq (print_irq_desc irq s)"

primrec desc_handle_irq :: "nat \<Rightarrow> nat \<Rightarrow> (string \<Rightarrow> nat \<Rightarrow> nat option \<Rightarrow> 'a s3cboard_scheme \<Rightarrow> u32 \<times> 'a s3cboard_scheme) \<Rightarrow>
    nat \<Rightarrow> 'a s3cboard_scheme \<Rightarrow> 'a s3cboard_scheme option" where
  "desc_handle_irq 0 fuel run irq s = None"
| "desc_handle_irq (Suc k) fuel run irq s =
     (case handle_irq (descs s irq) of
        None \<Rightarrow> None
      | Some h \<Rightarrow>
          if h = ''handle_edge_irq'' then handle_edge_irq fuel run irq s
          else if h = ''handle_level_irq'' then Some (handle_level_irq run irq s)
          else if h = ''handle_simple_irq'' then Some (handle_simple_irq run irq s)
          else if h = ''s3c_irq_demux_extint4t7'' then s3c_irq_demux_extint4t7 (desc_handle_irq k fuel run) s
          else if h = ''s3c_irq_demux_extint8'' then s3c_irq_demux_extint8 (desc_handle_irq k fuel run) s
          else if h = ''s3c_irq_demux_uart0'' then s3c_irq_demux_uart IRQ_S3CUART_RX0 (desc_handle_irq k fuel run) s
          else if h = ''s3c_irq_demux_uart1'' then s3c_irq_demux_uart IRQ_S3CUART_RX1 (desc_handle_irq k fuel run) s
          else if h = ''s3c_irq_demux_uart2'' then s3c_irq_demux_uart IRQ_S3CUART_RX2 (desc_handle_irq k fuel run) s
          else if h = ''s3c_irq_demux_adc'' then demux_group IRQ_TC 9 2 (desc_handle_irq k fuel run) s
          else if h = ''s3c_irq_demux_wdtac97'' then demux_group IRQ_S3C2440_WDT 13 2 (desc_handle_irq k fuel run) s
          else if h = ''s3c_irq_demux_cam'' then demux_group IRQ_S3C2440_CAM_C 11 2 (desc_handle_irq k fuel run) s
          else if h = ''handle_bad_irq'' then Some (handle_bad_irq irq s)
          else None)"

text \<open>The interrupt the processor takes; the registers are up to date when it is over.\<close>

definition asm_do_IRQ :: "nat \<Rightarrow> (string \<Rightarrow> nat \<Rightarrow> nat option \<Rightarrow> 'a s3cboard_scheme \<Rightarrow> u32 \<times> 'a s3cboard_scheme) \<Rightarrow>
    nat \<Rightarrow> 'a s3cboard_scheme \<Rightarrow> 'a s3cboard_scheme option" where
  "asm_do_IRQ fuel run irq s =
     map_option chip_sync (if irq \<ge> NR_IRQS then Some (handle_bad_irq irq s) else desc_handle_irq 2 fuel run irq s)"

section \<open>The demultiplexers call what is pending\<close>

text \<open>Handling lines one after the other.\<close>

fun handle_each :: "(nat \<Rightarrow> 's \<Rightarrow> 's option) \<Rightarrow> nat list \<Rightarrow> 's \<Rightarrow> 's option" where
  "handle_each handle [] s = Some s"
| "handle_each handle (l # ls) s = (case handle l s of None \<Rightarrow> None | Some s \<Rightarrow> handle_each handle ls s)"

lemma demux_bits_each: "demux_bits handle w s = handle_each handle (map (\<lambda>b. b + 44) (set_bits w)) s"
proof (induction handle w s rule: demux_bits.induct)
  case (1 handle w s)
  show ?case
  proof (cases "w = 0")
    case False
    then show ?thesis
      using 1 by (subst demux_bits.simps) (auto simp: set_bits_ffs [OF False] IRQ_EINT4_def Let_def split: option.split)
  qed (simp add: demux_bits.simps)
qed

lemma demux_subs_each: "demux_subs handle w n irq s = handle_each handle (filter (\<lambda>l. bit w (l - irq)) [irq..<irq + n]) s"
proof (induction n arbitrary: w irq s)
  case (Suc n)
  have one: "w AND 1 \<noteq> 0 \<longleftrightarrow> bit w 0" using and_mask_0 [of w 1] by simp
  have "filter (\<lambda>l. bit (drop_bit 1 w) (l - Suc irq)) [Suc irq..<Suc irq + n] = filter (\<lambda>l. bit w (l - irq)) [Suc irq..<Suc irq + n]"
    by (rule filter_cong) (auto simp: bit_drop_bit_eq Suc_diff_Suc)
  moreover have "[irq..<irq + Suc n] = irq # [Suc irq..<Suc irq + n]" by (simp add: upt_conv_Cons)
  ultimately show ?case using Suc.IH [of "drop_bit 1 w" "Suc irq"] by (simp add: one split: option.split)
qed simp

definition pending_ext :: "'a s3cboard_scheme \<Rightarrow> nat \<Rightarrow> bool" where
  "pending_ext s l \<longleftrightarrow> bit (eintpend s) (l - 44) \<and> \<not> bit (eintmask s) (l - 44)"

definition pending_sub :: "'a s3cboard_scheme \<Rightarrow> nat \<Rightarrow> bool" where
  "pending_sub s l \<longleftrightarrow> bit (subsrcpnd s) (l - 70) \<and> \<not> bit (intsubmsk s) (l - 70)"

text \<open>The lines of the sources of each demultiplexer that are pending and not masked.\<close>

definition sources :: "string \<Rightarrow> 'a s3cboard_scheme \<Rightarrow> nat list" where
  "sources h s =
     (if h = ''s3c_irq_demux_extint4t7'' then filter (pending_ext s) [44..<52]
      else if h = ''s3c_irq_demux_extint8'' then filter (pending_ext s) [52..<76]
      else filter (pending_sub s)
        (if h = ''s3c_irq_demux_uart0'' then [70..<73] else if h = ''s3c_irq_demux_uart1'' then [73..<76]
         else if h = ''s3c_irq_demux_uart2'' then [76..<79] else if h = ''s3c_irq_demux_adc'' then [79..<81]
         else if h = ''s3c_irq_demux_cam'' then [81..<83] else [83..<85]))"

definition demuxers :: "string set" where
  "demuxers = {''s3c_irq_demux_extint4t7'', ''s3c_irq_demux_extint8'', ''s3c_irq_demux_uart0'', ''s3c_irq_demux_uart1'',
     ''s3c_irq_demux_uart2'', ''s3c_irq_demux_adc'', ''s3c_irq_demux_wdtac97'', ''s3c_irq_demux_cam''}"

lemma map_set_bits: "map (\<lambda>b. b + 44) (set_bits w) = filter (\<lambda>l. bit w (l - 44)) [44..<76]"
proof -
  have "[44..<76] = map (\<lambda>b. b + 44) [0..<32]" using map_add_upt [of 44 32] by simp
  then show ?thesis by (simp add: set_bits_def filter_map comp_def del: upt_conv_Cons)
qed

lemma filter_parts:
  "(\<forall>l \<in> set xs. \<not> Q l) \<Longrightarrow> (\<forall>l \<in> set ys. Q l) \<Longrightarrow> filter (\<lambda>l. P l \<and> Q l) (xs @ ys) = filter P ys"
  "(\<forall>l \<in> set xs. Q l) \<Longrightarrow> (\<forall>l \<in> set ys. \<not> Q l) \<Longrightarrow> filter (\<lambda>l. P l \<and> Q l) (xs @ ys) = filter P xs"
  by (auto simp: filter_empty_conv intro: filter_cong)

lemma ext_sources:
  "map (\<lambda>b. b + 44) (set_bits ((eintpend s AND NOT (eintmask s)) AND NOT 0xff)) = filter (pending_ext s) [52..<76]" (is ?high)
  "map (\<lambda>b. b + 44) (set_bits ((eintpend s AND NOT (eintmask s)) AND 0xff)) = filter (pending_ext s) [44..<52]" (is ?low)
proof -
  have m: "(0xff :: u32) = mask 8" by (simp add: mask_eq_exp_minus_1)
  have s: "[44..<76] = [44..<52] @ [52..<76]" using upt_add_eq_append [of 44 52 24] by simp
  have b: "bit ((eintpend s AND NOT (eintmask s)) AND NOT 0xff) (l - 44) \<longleftrightarrow> pending_ext s l \<and> 52 \<le> l"
    "bit ((eintpend s AND NOT (eintmask s)) AND 0xff) (l - 44) \<longleftrightarrow> pending_ext s l \<and> l < 52" if "l \<in> set [44..<76]" for l
    using that unfolding m by (auto simp: bit_and_iff bit_not_iff bit_mask_iff pending_ext_def simp del: upt_rec_numeral)
  have "filter (\<lambda>l. pending_ext s l \<and> 52 \<le> l) ([44..<52] @ [52..<76]) = filter (pending_ext s) [52..<76]"
    by (rule filter_parts(1)) (simp_all del: upt_rec_numeral)
  then show ?high
    unfolding map_set_bits s [symmetric]
    using filter_cong [OF refl b(1), of "[44..<76]"] by (simp only:)
  have "filter (\<lambda>l. pending_ext s l \<and> l < 52) ([44..<52] @ [52..<76]) = filter (pending_ext s) [44..<52]"
    by (rule filter_parts(2)) (simp_all del: upt_rec_numeral)
  then show ?low
    unfolding map_set_bits s [symmetric]
    using filter_cong [OF refl b(2), of "[44..<76]"] by (simp only:)
qed

lemma not_ff: "NOT (0xff :: u32) = - 256"
  by simp

lemma group_sources:
  assumes "start = offset + 70" "offset + n \<le> 32"
  shows "demux_group start offset n handle s = handle_each handle (filter (pending_sub (chip_sync s)) [start..<start + n]) (chip_sync s)"
proof -
  let ?s = "chip_sync s"
  have "bit (drop_bit offset (subsrcpnd ?s AND NOT (intsubmsk ?s)) AND mask n) (l - start) \<longleftrightarrow> pending_sub ?s l"
    if "l \<in> set [start..<start + n]" for l
  proof -
    have "offset + (l - start) = l - 70" "l - start < n" "l - 70 < 32" using that assms by auto
    then show ?thesis by (simp add: bit_and_iff bit_not_iff bit_mask_iff bit_drop_bit_eq pending_sub_def)
  qed
  then have "filter (\<lambda>l. bit (drop_bit offset (subsrcpnd ?s AND NOT (intsubmsk ?s)) AND mask n) (l - start)) [start..<start + n] =
      filter (pending_sub ?s) [start..<start + n]"
    by (intro filter_cong) auto
  then show ?thesis unfolding demux_group_def Let_def demux_subs_each by (simp only:)
qed

lemma demuxer_each:
  assumes "handle_irq (descs s irq) = Some h" "h \<in> demuxers"
  shows "desc_handle_irq (Suc k) fuel run irq s =
    handle_each (desc_handle_irq k fuel run) (sources h (chip_sync s)) (chip_sync s)"
  using assms(2) unfolding demuxers_def
  by (elim insertE emptyE)
     (simp_all add: assms(1) sources_def s3c_irq_demux_extint8_def s3c_irq_demux_extint4t7_def demux_bits_each
      ext_sources(2) ext_sources(1) [unfolded not_ff] Let_def s3c_irq_demux_uart_def irq_numbers group_sources del: upt_rec_numeral upt_conv_Cons)

text \<open>
  C17. The demultiplexers miss no source and call none that is masked. An interrupt on one of the
  lines that stand for several sources runs the flow of exactly those of its sources that are
  pending and not masked in the registers, each once, in ascending order.
\<close>

theorem demux_exact:
  assumes "handle_irq (descs s irq) = Some h" "h \<in> demuxers"
  shows "desc_handle_irq (Suc k) fuel run irq s =
    handle_each (desc_handle_irq k fuel run) (sources h (chip_sync s)) (chip_sync s)"
  by (rule demuxer_each [OF assms])

section \<open>The lines after boot\<close>

text \<open>What the setup functions do, in closed form, for a line that exists.\<close>

definition chipped :: "irq_chip \<Rightarrow> string \<Rightarrow> irq_desc \<Rightarrow> irq_desc" where
  "chipped chip h d = d\<lparr>has_chip := True, has_set_type := (chip = S3cExt \<or> chip = S3cEint0t4), has_retrigger := False,
     handle_irq := Some h\<rparr>"

definition valid_status :: "u32 \<Rightarrow> u32" where
  "valid_status st = (st OR (IRQ_NOREQUEST OR IRQ_NOPROBE OR IRQ_NOAUTOEN)) AND NOT IRQ_NOREQUEST AND NOT IRQ_NOAUTOEN"

definition wired :: "irq_chip \<Rightarrow> string \<Rightarrow> irq_desc \<Rightarrow> irq_desc" where
  "wired chip h d = (chipped chip h d)\<lparr>status := valid_status (status d)\<rparr>"

definition chained :: "string \<Rightarrow> irq_desc \<Rightarrow> irq_desc" where
  "chained h d = d\<lparr>handle_irq := Some h, status := (status d AND NOT IRQ_DISABLED) OR (IRQ_NOREQUEST OR IRQ_NOPROBE), depth := 0\<rparr>"

definition on_line :: "nat \<Rightarrow> (irq_desc \<Rightarrow> irq_desc) \<Rightarrow> (irq_chip \<Rightarrow> irq_chip) \<Rightarrow> 'a s3cboard_scheme \<Rightarrow> 'a s3cboard_scheme" where
  "on_line i g c s = s\<lparr>descs := (descs s)(i := g (descs s i)), line_chip := (line_chip s)(i := c (line_chip s i))\<rparr>"

definition on_lines :: "nat list \<Rightarrow> (nat \<Rightarrow> irq_desc \<Rightarrow> irq_desc) \<Rightarrow> (nat \<Rightarrow> irq_chip \<Rightarrow> irq_chip) \<Rightarrow> 'a s3cboard_scheme \<Rightarrow> 'a s3cboard_scheme" where
  "on_lines ls g c s = s\<lparr>descs := \<lambda>i. if i \<in> set ls then g i (descs s i) else descs s i,
     line_chip := \<lambda>i. if i \<in> set ls then c i (line_chip s i) else line_chip s i\<rparr>"

lemma fold_on_lines:
  assumes "\<And>i s. i \<in> set ls \<Longrightarrow> f i s = on_line i (g i) (c i) s" "distinct ls"
  shows "fold f ls s = on_lines ls g c s"
  using assms
proof (induction ls arbitrary: s)
  case (Cons l ls)
  have "on_lines ls g c (on_line l (g l) (c l) s) = on_lines (l # ls) g c s"
    using Cons.prems(2) by (auto simp: on_lines_def on_line_def fun_eq_iff)
  then show ?case using Cons by simp
qed (simp add: on_lines_def)

lemma set_chip_handler:
  assumes "irq < 85" "chip \<noteq> NoIrqChip" "h \<noteq> ''handle_bad_irq''"
  shows "set_irq_handler irq h (snd (set_irq_chip irq chip s)) = on_line irq (chipped chip h) (\<lambda>_. chip) s"
  using assms by (simp add: set_irq_handler_def set_handler_def set_irq_chip_def NR_IRQS_def on_line_def chipped_def set_desc_def Let_def)

lemma setup_line_eq:
  assumes "irq < 85" "chip \<noteq> NoIrqChip" "h \<noteq> ''handle_bad_irq''"
  shows "setup_line chip h irq s = on_line irq (wired chip h) (\<lambda>_. chip) s"
  using set_chip_handler [OF assms, of s] assms(1)
  by (simp add: setup_line_def set_irq_flags_def upd_status_def set_desc_def NR_IRQS_def on_line_def wired_def chipped_def
      valid_status_def Let_def and.assoc)

lemma setup_main_line_eq:
  assumes "irq < 85"
  shows "setup_main_line irq s = on_line irq
    (if irq \<in> {20, 21, 44, 39, 31, 47} then chipped S3cLevel ''handle_level_irq''
     else if irq \<in> {22, 40} then (\<lambda>d. d) else wired S3c ''handle_edge_irq'')
    (if irq \<in> {20, 21, 44, 39, 31, 47} then (\<lambda>_. S3cLevel) else if irq \<in> {22, 40} then (\<lambda>c. c) else (\<lambda>_. S3c)) s"
  using set_chip_handler [OF assms, of S3cLevel "''handle_level_irq''" s] setup_line_eq [OF assms, of S3c "''handle_edge_irq''" s]
  by (auto simp: setup_main_line_def irq_numbers on_line_def)

lemma set_chained:
  assumes "irq < 85" "line_chip s irq \<noteq> NoIrqChip" "h \<noteq> ''handle_bad_irq''"
  shows "set_irq_chained_handler irq h s = chip_do (ChipUnmask irq) (on_line irq (chained h) (\<lambda>c. c) s)"
  using assms
  by (simp add: set_irq_chained_handler_def set_handler_def NR_IRQS_def on_line_def chained_def set_desc_def Let_def)

lemma on_line_simps [simp]:
  "descs (on_line i g c s) = (descs s)(i := g (descs s i))" "line_chip (on_line i g c s) = (line_chip s)(i := c (line_chip s i))"
  "chip_ops (on_line i g c s) = chip_ops s"
  "descs (on_lines ls g' c' s) j = (if j \<in> set ls then g' j (descs s j) else descs s j)"
  "line_chip (on_lines ls g' c' s) j = (if j \<in> set ls then c' j (line_chip s j) else line_chip s j)"
  "chip_ops (on_lines ls g' c' s) = chip_ops s" "line_chip (chip_do op s) = line_chip s"
  by (simp_all add: on_line_def on_lines_def chip_do_def)

lemma on_lines_at:
  "descs (on_lines ls g c s) i = (if i \<in> set ls then g i else (\<lambda>d. d)) (descs s i)"
  "line_chip (on_lines ls g c s) i = (if i \<in> set ls then c i else (\<lambda>c. c)) (line_chip s i)"
  by simp_all

text \<open>The table of descriptors the kernel starts with (kernel/irq/handle.c).\<close>

definition boot_desc :: irq_desc where
  "boot_desc = \<lparr>actions = [], status = IRQ_DISABLED, depth = 1, irq_count = 0, irqs_unhandled = 0, last_unhandled = 0,
     handle_irq = Some ''handle_bad_irq'', has_chip = False, has_set_type = False, has_retrigger = False\<rparr>"

text \<open>What is not a descriptor or a chip: the registers and the rest of the board.\<close>

definition beside :: "'a s3cboard_scheme \<Rightarrow> 'a s3cboard_scheme" where
  "beside s = s\<lparr>descs := \<lambda>_. boot_desc, line_chip := \<lambda>_. NoIrqChip, chip_ops := []\<rparr>"

lemma beside_simps [simp]:
  "beside (on_line i g c s) = beside s" "beside (on_lines ls g' c' s) = beside s" "beside (chip_do op s) = beside s"
  by (simp_all add: beside_def on_line_def on_lines_def chip_do_def)

lemma clear_all_simps [simp]:
  "descs (clear_all s) = descs s" "line_chip (clear_all s) = line_chip s" "chip_ops (clear_all s) = chip_ops s"
  "eintpend (clear_all s) = 0" "intpnd (clear_all s) = 0" "subsrcpnd (clear_all s) = 0"
  "intmsk (clear_all s) = intmsk s" "eintmask (clear_all s) = eintmask s" "intsubmsk (clear_all s) = intsubmsk s"
  "extint (clear_all s) = extint s" "gpfcon (clear_all s) = gpfcon s" "gpgcon (clear_all s) = gpgcon s"
  "kmallocs (clear_all s) = kmallocs s" "signals (clear_all s) = signals s"
  by (simp_all add: clear_all_def numeral_eq_Suc Let_def write_eintpend_def write_pnd_def write_subsrcpnd_def printk_def)

lemma clear_pending_commutes:
  assumes "\<And>s. pending (f s) = pending s" "\<And>v s. clear v (f s) = f (clear v s)"
  shows "clear_pending n pending clear prev (f s) = f (clear_pending n pending clear prev s)"
  by (induction n arbitrary: prev s) (simp_all add: assms Let_def)

lemma clear_all_commutes:
  fixes s :: "'a s3cboard_scheme"
  shows "clear_all (s\<lparr>descs := D, line_chip := L\<rparr>) = (clear_all s)\<lparr>descs := D, line_chip := L\<rparr>"
proof -
  have "clear_pending n eintpend (\<lambda>p s. printk m [uint p] (write_eintpend p s)) q (s\<lparr>descs := D, line_chip := L\<rparr>) =
      (clear_pending n eintpend (\<lambda>p s. printk m [uint p] (write_eintpend p s)) q s)\<lparr>descs := D, line_chip := L\<rparr>" for n m q and s :: "'a s3cboard_scheme"
    by (rule clear_pending_commutes) (simp_all add: printk_def write_eintpend_def)
  moreover have "clear_pending n intpnd (\<lambda>p s. printk m [uint p] (write_pnd p s)) q (s\<lparr>descs := D, line_chip := L\<rparr>) =
      (clear_pending n intpnd (\<lambda>p s. printk m [uint p] (write_pnd p s)) q s)\<lparr>descs := D, line_chip := L\<rparr>" for n m q and s :: "'a s3cboard_scheme"
    by (rule clear_pending_commutes) (simp_all add: printk_def write_pnd_def)
  moreover have "clear_pending n subsrcpnd (\<lambda>p s. write_subsrcpnd p (printk m [uint p] s)) q (s\<lparr>descs := D, line_chip := L\<rparr>) =
      (clear_pending n subsrcpnd (\<lambda>p s. write_subsrcpnd p (printk m [uint p] s)) q s)\<lparr>descs := D, line_chip := L\<rparr>" for n m q and s :: "'a s3cboard_scheme"
    by (rule clear_pending_commutes) (simp_all add: printk_def write_subsrcpnd_def)
  ultimately show ?thesis by (simp only: clear_all_def Let_def)
qed

lemma beside_clear: "beside (clear_all (on_lines ls g c s)) = beside (clear_all s)"
  unfolding on_lines_def clear_all_commutes by (simp add: beside_def)

definition reserve :: "irq_desc \<Rightarrow> irq_desc" where
  "reserve d = d\<lparr>status := status d OR (IRQ_NOREQUEST OR IRQ_NOPROBE)\<rparr>"

text \<open>The demultiplexer of a line, and chip and flow of the other lines, after \<open>init_IRQ\<close>.\<close>

definition demuxer :: "nat \<Rightarrow> string option" where
  "demuxer i =
     (if i = 20 then Some ''s3c_irq_demux_extint4t7'' else if i = 21 then Some ''s3c_irq_demux_extint8''
      else if i = 44 then Some ''s3c_irq_demux_uart0'' else if i = 39 then Some ''s3c_irq_demux_uart1''
      else if i = 31 then Some ''s3c_irq_demux_uart2'' else if i = 47 then Some ''s3c_irq_demux_adc'' else None)"

definition source_line :: "nat \<Rightarrow> (irq_chip \<times> string) option" where
  "source_line i =
     (if 16 \<le> i \<and> i < 20 then Some (S3cEint0t4, ''handle_edge_irq'')
      else if i = 22 \<or> i = 40 then None
      else if 20 \<le> i \<and> i < 48 then Some (S3c, ''handle_edge_irq'')
      else if 48 \<le> i \<and> i < 68 then Some (S3cExt, ''handle_edge_irq'')
      else if 70 \<le> i \<and> i < 73 then Some (S3cUart0, ''handle_level_irq'')
      else if 73 \<le> i \<and> i < 76 then Some (S3cUart1, ''handle_level_irq'')
      else if 76 \<le> i \<and> i < 79 then Some (S3cUart2, ''handle_level_irq'')
      else if 79 \<le> i \<and> i < 81 then Some (S3cAdc, ''handle_edge_irq'') else None)"

definition init_desc :: "nat \<Rightarrow> irq_desc \<Rightarrow> irq_desc" where
  "init_desc i d =
     (let d = (if i < 85 then reserve d else d) in
      case demuxer i of
        Some h \<Rightarrow> chained h (chipped S3cLevel ''handle_level_irq'' d)
      | None \<Rightarrow> (case source_line i of Some (c, h) \<Rightarrow> wired c h d | None \<Rightarrow> d))"

definition init_chip :: "nat \<Rightarrow> irq_chip \<Rightarrow> irq_chip" where
  "init_chip i c = (if demuxer i \<noteq> None then S3cLevel else case source_line i of Some (c, h) \<Rightarrow> c | None \<Rightarrow> c)"

lemma chip_sync_done: "chip_ops s = [] \<Longrightarrow> chip_sync s = s"
  by (simp add: chip_sync_def)

lemma chain_lines_eq:
  assumes "line_chip s 20 \<noteq> NoIrqChip" "line_chip s 21 \<noteq> NoIrqChip" "line_chip s 44 \<noteq> NoIrqChip"
    "line_chip s 39 \<noteq> NoIrqChip" "line_chip s 31 \<noteq> NoIrqChip" "line_chip s 47 \<noteq> NoIrqChip"
  shows "descs (chain_lines s) i = (case demuxer i of Some h \<Rightarrow> chained h (descs s i) | None \<Rightarrow> descs s i)"
    "line_chip (chain_lines s) = line_chip s" "beside (chain_lines s) = beside s"
    "chip_ops (chain_lines s) = chip_ops s @ [ChipUnmask 20, ChipUnmask 21, ChipUnmask 44, ChipUnmask 39, ChipUnmask 31, ChipUnmask 47]"
  using assms by (simp_all add: chain_lines_def irq_numbers set_chained demuxer_def Let_def)

lemma setup_main_lines:
  "fold setup_main_line [20..<48] s = on_lines [20..<48]
    (\<lambda>i. if i \<in> {20, 21, 44, 39, 31, 47} then chipped S3cLevel ''handle_level_irq''
      else if i \<in> {22, 40} then (\<lambda>d. d) else wired S3c ''handle_edge_irq'')
    (\<lambda>i. if i \<in> {20, 21, 44, 39, 31, 47} then (\<lambda>_. S3cLevel) else if i \<in> {22, 40} then (\<lambda>c. c) else (\<lambda>_. S3c)) s"
  by (rule fold_on_lines) (auto simp: setup_main_line_eq)

lemma setup_lines:
  assumes "\<forall>i \<in> set ls. i < 85" "distinct ls" "chip \<noteq> NoIrqChip" "h \<noteq> ''handle_bad_irq''"
  shows "fold (setup_line chip h) ls s = on_lines ls (\<lambda>_. wired chip h) (\<lambda>_ _. chip) s"
  by (rule fold_on_lines) (use assms in \<open>simp_all add: setup_line_eq\<close>)

lemma reserve_lines:
  "fold (\<lambda>irq. upd_status irq (\<lambda>st. st OR (IRQ_NOREQUEST OR IRQ_NOPROBE))) [0..<85] s = on_lines [0..<85] (\<lambda>_. reserve) (\<lambda>_ c. c) s"
  by (rule fold_on_lines) (simp_all add: upd_status_def set_desc_def on_line_def reserve_def del: upt_rec_numeral)

text \<open>The ranges of lines that are set up alike.\<close>

lemma line_ranges:
  obtains "i < 16" | "16 \<le> i" "i < 20" | "20 \<le> i" "i < 48" | "48 \<le> i" "i < 68" | "68 \<le> i" "i < 70" | "70 \<le> i" "i < 73"
    | "73 \<le> i" "i < 76" | "76 \<le> i" "i < 79" | "79 \<le> i" "i < 81" | "81 \<le> i" "i < 83" | "83 \<le> (i :: nat)"
  using that not_less [of i] by metis

lemma init_IRQ_lines:
  fixes b :: "'a s3cboard_scheme"
  assumes "chip_ops b = []"
  shows "descs (init_IRQ b) i = init_desc i (descs b i)" "line_chip (init_IRQ b) i = init_chip i (line_chip b i)"
    "chip_ops (init_IRQ b) = [ChipUnmask 20, ChipUnmask 21, ChipUnmask 44, ChipUnmask 39, ChipUnmask 31, ChipUnmask 47]"
    "beside (init_IRQ b) = beside (clear_all b)"
proof -
  define s1 where "s1 = clear_all (on_lines [0..<85] (\<lambda>_. reserve) (\<lambda>_ c. c) b)"
  define s2 where "s2 = fold setup_main_line [20..<48] s1"
  define s3 where "s3 = chain_lines s2"
  have e: "init_IRQ b = on_lines [79..<81] (\<lambda>_. wired S3cAdc ''handle_edge_irq'') (\<lambda>_ _. S3cAdc)
     (on_lines [76..<79] (\<lambda>_. wired S3cUart2 ''handle_level_irq'') (\<lambda>_ _. S3cUart2)
     (on_lines [73..<76] (\<lambda>_. wired S3cUart1 ''handle_level_irq'') (\<lambda>_ _. S3cUart1)
     (on_lines [70..<73] (\<lambda>_. wired S3cUart0 ''handle_level_irq'') (\<lambda>_ _. S3cUart0)
     (on_lines [48..<68] (\<lambda>_. wired S3cExt ''handle_edge_irq'') (\<lambda>_ _. S3cExt)
     (on_lines [16..<20] (\<lambda>_. wired S3cEint0t4 ''handle_edge_irq'') (\<lambda>_ _. S3cEint0t4) s3)))))"
    unfolding init_IRQ_def s3c24xx_init_irq_def irq_numbers Let_def reserve_lines
    by (simp only: chip_sync_done assms on_line_simps) (simp add: setup_lines s1_def s2_def s3_def del: upt_rec_numeral)
  have s1: "descs s1 = (\<lambda>i. if i < 85 then reserve (descs b i) else descs b i)" "line_chip s1 = line_chip b" "chip_ops s1 = []"
    using assms by (simp_all add: s1_def fun_eq_iff del: upt_rec_numeral)
  have s2: "descs s2 i = (if 20 \<le> i \<and> i < 48 then (if i \<in> {20, 21, 44, 39, 31, 47} then chipped S3cLevel ''handle_level_irq''
        else if i \<in> {22, 40} then (\<lambda>d. d) else wired S3c ''handle_edge_irq'') (descs s1 i) else descs s1 i)"
    "line_chip s2 i = (if 20 \<le> i \<and> i < 48 then (if i \<in> {20, 21, 44, 39, 31, 47} then (\<lambda>_. S3cLevel)
        else if i \<in> {22, 40} then (\<lambda>c. c) else (\<lambda>_. S3c)) (line_chip s1 i) else line_chip s1 i)" "chip_ops s2 = []" for i
    using s1(3) by (simp_all only: s2_def setup_main_lines on_line_simps set_upt atLeastLessThan_iff)
  note s3 = chain_lines_eq [of s2, folded s3_def]
  have "line_chip s2 20 \<noteq> NoIrqChip" "line_chip s2 21 \<noteq> NoIrqChip" "line_chip s2 44 \<noteq> NoIrqChip"
    "line_chip s2 39 \<noteq> NoIrqChip" "line_chip s2 31 \<noteq> NoIrqChip" "line_chip s2 47 \<noteq> NoIrqChip" by (simp_all add: s2)
  note s3 = s3 [OF this]
  note dc = e on_lines_at
  have reg: "descs (init_IRQ b) i = init_desc i (descs b i) \<and> line_chip (init_IRQ b) i = init_chip i (line_chip b i)"
  proof (cases "i \<in> {20, 21, 22, 31, 39, 40, 44, 47}")
    case True
    then show ?thesis
      by (elim insertE emptyE) (simp_all add: dc s3(1,2) s2(1,2) s1(1,2) init_desc_def init_chip_def demuxer_def source_line_def del: upt_rec_numeral)
  next
    case False
    then have n: "demuxer i = None" "i \<noteq> 20" "i \<noteq> 21" "i \<noteq> 22" "i \<noteq> 31" "i \<noteq> 39" "i \<noteq> 40" "i \<noteq> 44" "i \<noteq> 47" by (simp_all add: demuxer_def)
    note df = dc s3(1,2) s2(1,2) s1(1,2) init_desc_def init_chip_def source_line_def n Let_def
    show ?thesis by (cases i rule: line_ranges) (simp_all add: df del: upt_rec_numeral)
  qed
  then show "descs (init_IRQ b) i = init_desc i (descs b i)" "line_chip (init_IRQ b) i = init_chip i (line_chip b i)" by blast+
  show "chip_ops (init_IRQ b) = [ChipUnmask 20, ChipUnmask 21, ChipUnmask 44, ChipUnmask 39, ChipUnmask 31, ChipUnmask 47]"
    by (simp add: e s3(4) s2(3))
  show "beside (init_IRQ b) = beside (clear_all b)"
    by (simp only: e s3(3) beside_simps s2_def setup_main_lines s1_def beside_clear)
qed

section \<open>The registers\<close>

definition hw :: "'a s3cboard_scheme \<Rightarrow> (nat \<Rightarrow> irq_chip) \<times> (u32 \<times> u32 \<times> u32) \<times> (u32 \<times> u32) \<times> (u32 \<times> u32) \<times> (nat \<Rightarrow> u32) \<times> u32 \<times> u32" where
  "hw s = (line_chip s, (srcpnd s, intpnd s, intmsk s), (eintpend s, eintmask s), (subsrcpnd s, intsubmsk s), extint s, gpfcon s, gpgcon s)"

text \<open>The kernel's code does not touch them but through the chips.\<close>

lemma hw_simps [simp]:
  "hw (set_desc irq d s) = hw s" "hw (chip_do c s) = hw s" "hw (printk f a s) = hw s" "hw (kill_proc p g s) = hw s"
  "hw (upd_status irq u s) = hw s" "hw (snd (kmalloc s)) = hw s" "hw (kfree s) = hw s" "hw (s\<lparr>live := n\<rparr>) = hw s"
  "hw (chip_enable irq s) = hw s" "hw (chip_startup irq s) = hw s"
  by (simp_all add: hw_def set_desc_def chip_do_def printk_def kill_proc_def upd_status_def kfree_def
      kmalloc_def chip_enable_def chip_startup_def split: list.split)

lemma hw_start_line [simp]: "hw (start_line irq new s) = hw s"
  by (simp add: start_line_def Let_def)

lemma hw_note_interrupt [simp]: "hw (note_interrupt irq r s) = hw s"
  by (simp add: note_interrupt_def report_bad_irq_def Let_def)

text \<open>
  A component of the state that no write to a register of the controller, to a port or to the log
  reaches is the same after whatever the chips do.
\<close>

locale chip_blind =
  fixes get :: "'a s3cboard_scheme \<Rightarrow> 'b"
  assumes blind: "get (s\<lparr>irq_err_count := e\<rparr>) = get s" "get (s\<lparr>srcpnd := p, intpnd := q\<rparr>) = get s" "get (s\<lparr>intmsk := m\<rparr>) = get s"
      "get (s\<lparr>eintpend := p\<rparr>) = get s" "get (s\<lparr>eintmask := m\<rparr>) = get s" "get (s\<lparr>subsrcpnd := p\<rparr>) = get s"
      "get (s\<lparr>intsubmsk := m\<rparr>) = get s" "get (s\<lparr>intsubmsk := m, intmsk := q\<rparr>) = get s" "get (s\<lparr>extint := x\<rparr>) = get s"
      "get (s\<lparr>gpfcon := m\<rparr>) = get s" "get (s\<lparr>gpgcon := m\<rparr>) = get s" "get (printk f as s) = get s"
begin

lemma writes: "get (write_pnd v s) = get s" "get (write_eintpend v s) = get s" "get (write_subsrcpnd v s) = get s"
  "get (set_gpcon r g s) = get s"
  by (simp_all add: write_pnd_def write_eintpend_def write_subsrcpnd_def set_gpcon_def blind split: gpcon.split)

lemma main_ops: "get (s3c_irq_mask i s) = get s" "get (s3c_irq_unmask i s) = get s" "get (s3c_irq_ack i s) = get s" "get (s3c_irq_maskack i s) = get s"
  by (simp_all add: s3c_irq_mask_def s3c_irq_unmask_def s3c_irq_ack_def s3c_irq_maskack_def Let_def writes blind)

lemma ext_ops: "get (s3c_irqext_mask i s) = get s" "get (s3c_irqext_unmask i s) = get s" "get (s3c_irqext_ack i s) = get s"
  by (simp_all add: s3c_irqext_mask_def s3c_irqext_unmask_def s3c_irqext_ack_def Let_def writes main_ops blind)

lemma ext_type: "get (snd (s3c_irqext_type i ty s)) = get s"
  by (simp add: s3c_irqext_type_def Let_def writes blind split: option.split prod.split)

lemma sub_ops: "get (s3c_irqsub_mask i b c s) = get s" "get (s3c_irqsub_unmask i b s) = get s" "get (s3c_irqsub_ack i b c s) = get s"
  "get (s3c_irqsub_maskack i b c s) = get s"
  by (simp_all add: s3c_irqsub_mask_def s3c_irqsub_unmask_def s3c_irqsub_ack_def s3c_irqsub_maskack_def Let_def writes blind)

lemma chip_ops_blind: "get (chip_mask i s) = get s" "get (chip_unmask i s) = get s" "get (chip_ack i s) = get s"
  by (simp_all add: chip_mask_def chip_unmask_def chip_ack_def main_ops ext_ops sub_ops ack_bad_irq_def print_irq_desc_def Let_def blind
      split: irq_chip.split option.split prod.split)

lemma op_blind: "get (s3c_chip_do c s) = get s"
  by (cases c) (simp_all add: s3c_chip_do_def chip_ops_blind ext_type)

lemma ops_blind: "get (fold s3c_chip_do ops s) = get s"
  by (induction ops arbitrary: s) (simp_all add: op_blind)

lemma sync_blind: "get (s\<lparr>chip_ops := []\<rparr>) = get s \<Longrightarrow> get (chip_sync s) = get s"
  by (simp add: chip_sync_def ops_blind)

end

interpretation blind_descs: chip_blind descs by unfold_locales (simp_all add: printk_def)
interpretation blind_chips: chip_blind line_chip by unfold_locales (simp_all add: printk_def)
interpretation blind_signals: chip_blind signals by unfold_locales (simp_all add: printk_def)
interpretation blind_ops: chip_blind chip_ops by unfold_locales (simp_all add: printk_def)
interpretation blind_kmallocs: chip_blind kmallocs by unfold_locales (simp_all add: printk_def)
interpretation blind_live: chip_blind live by unfold_locales (simp_all add: printk_def)

lemmas chip_do_beside [simp] = blind_descs.op_blind blind_chips.op_blind blind_signals.op_blind blind_ops.op_blind
  blind_kmallocs.op_blind blind_live.op_blind

lemma chip_sync_beside [simp]:
  "descs (chip_sync s) = descs s" "line_chip (chip_sync s) = line_chip s" "signals (chip_sync s) = signals s"
  "chip_ops (chip_sync s) = []" "kmallocs (chip_sync s) = kmallocs s" "live (chip_sync s) = live s"
  by (simp_all add: blind_descs.sync_blind blind_chips.sync_blind blind_signals.sync_blind blind_kmallocs.sync_blind
      blind_live.sync_blind) (simp add: chip_sync_def blind_ops.ops_blind)

section \<open>The trigger of an external line\<close>

definition gpcon_of :: "gpcon \<Rightarrow> 'a s3cboard_scheme \<Rightarrow> u32" where
  "gpcon_of g s = (case g of GPFCON \<Rightarrow> gpfcon s | GPGCON \<Rightarrow> gpgcon s)"

lemma gpcon_of_simps [simp]:
  "gpcon_of g (set_gpcon r f s) = (if g = r then f (gpcon_of g s) else gpcon_of g s)" "extint (set_gpcon r f s) = extint s"
  "gpcon_of g (printk m a s) = gpcon_of g s" "extint (printk m a s) = extint s" "gpcon_of g (s\<lparr>extint := e\<rparr>) = gpcon_of g s"
  by (cases g; cases r; simp_all add: gpcon_of_def set_gpcon_def printk_def)+

lemma field_bits:
  assumes "k + w \<le> 32" "\<And>n. bit v n \<Longrightarrow> n < w"
  shows "bit ((x AND NOT (push_bit k (mask w))) OR push_bit k (v :: u32)) n \<longleftrightarrow>
    (if k \<le> n \<and> n < k + w then bit v (n - k) else bit x n)"
proof -
  have "bit v (n - k) \<Longrightarrow> k \<le> n \<Longrightarrow> n < k + w" using assms(2) [of "n - k"] by auto
  then show ?thesis
    using assms(1) bit_imp_le_length [of x n] by (auto simp: bit_or_iff bit_and_iff bit_not_iff bit_push_bit_iff bit_mask_iff)
qed

lemma extint_value_bits:
  assumes "extint_value ty = Some v" "bit v n"
  shows "n < 3"
proof -
  have m: "v AND mask 3 = v"
    using assms(1) by (auto simp: extint_value_def S3C2410_EXTINT_LOWLEV_def S3C2410_EXTINT_HILEV_def S3C2410_EXTINT_FALLEDGE_def
        S3C2410_EXTINT_RISEEDGE_def S3C2410_EXTINT_BOTHEDGE_def mask_eq_exp_minus_1 split: if_splits)
  have "bit (v AND mask 3) n" using assms(2) m by simp
  then show ?thesis by (simp add: bit_and_iff bit_mask_iff)
qed

lemma ext_regs_bounds:
  assumes "ext_regs irq = Some (g, go, r, eo)"
  shows "go + 2 \<le> 32" "eo + 3 \<le> 32" "r < 3"
  using assms by (auto simp: ext_regs_def irq_numbers split: if_splits)


end
