(* ===== verification/KeyButton.thy ===== *)
theory KeyButton
  imports S3cIrq LedDriver Libc
begin

unbundle bit_operations_syntax

text \<open>
  The key button drivers (fri/signal_keybutton/el2440_key.c, and the first version
  fri/keybutton-gpio/el2440_keybutton.c), on the registry of character devices and the interrupt
  lines: each of four keys has a line, and a pressed key sends a signal to the process that wrote
  its number to the device. The driver core, which calls probe and remove, is an argument.
\<close>

section \<open>The driver\<close>

text \<open>\<open>key_pid\<close> is the static variable \<open>id\<close>.\<close>

record keyboard = s3cboard +
  key_pid :: int

text \<open>\<open>key1_isr\<close> to \<open>key4_isr\<close> differ in the number they print.\<close>

definition key_isr :: "int \<Rightarrow> nat \<Rightarrow> 'a keyboard_scheme \<Rightarrow> u32 \<times> 'a keyboard_scheme" where
  "key_isr k irq s =
     (1, kill_proc (key_pid s) SIGUSR1
           (printk ''kernel to user SIG = %d'' [key_pid s] (printk ''KEY%d pressed.. irq[%d]'' [k, int irq] s)))"

text \<open>Calling a handler by its name; handlers of other drivers do nothing here.\<close>

definition key_run :: "string \<Rightarrow> nat \<Rightarrow> nat option \<Rightarrow> 'a keyboard_scheme \<Rightarrow> u32 \<times> 'a keyboard_scheme" where
  "key_run f irq cookie s =
     (if f = ''key1_isr'' then key_isr 1 irq s else if f = ''key2_isr'' then key_isr 2 irq s
      else if f = ''key3_isr'' then key_isr 3 irq s else if f = ''key4_isr'' then key_isr 4 irq s
      else (0, s))"


definition key_flags :: u32 where "key_flags = IRQF_DISABLED OR IRQF_TRIGGER_FALLING"

definition el2440_keybutton_probe :: "'a keyboard_scheme \<Rightarrow> (kerror + int) \<times> 'a keyboard_scheme" where
  "el2440_keybutton_probe s =
     (case request_irq IRQ_EINT0 ''key1_isr'' key_flags ''KEY1'' None (printk ''EL2440 external key button probe!!'' [] s) of (ret0, s) \<Rightarrow>
      case request_irq IRQ_EINT2 ''key2_isr'' key_flags ''KEY2'' None s of (ret1, s) \<Rightarrow>
      case request_irq IRQ_EINT8 ''key3_isr'' key_flags ''KEY3'' None s of (ret2, s) \<Rightarrow>
      case request_irq IRQ_EINT19 ''key4_isr'' key_flags ''KEY4'' None s of (ret3, s) \<Rightarrow>
      if ret0 \<noteq> Inr () \<or> ret1 \<noteq> Inr () \<or> ret2 \<noteq> Inr () \<or> ret3 \<noteq> Inr ()
      then (map_sum (\<lambda>e. e) (\<lambda>_. 0) ret0, printk ''EL2440 keybutton: request IRQ failed!!'' [] s)
      else (Inr 0, s))"

definition el2440_keybutton_remove :: "'a irqboard_scheme \<Rightarrow> int \<times> 'a irqboard_scheme" where
  "el2440_keybutton_remove s =
     (0, free_irq IRQ_EINT19 None (free_irq IRQ_EINT8 None (free_irq IRQ_EINT2 None (free_irq IRQ_EINT0 None
           (printk ''EL2440 external key button remove!!'' [] s)))))"

definition key_open :: "'a board_scheme \<Rightarrow> int \<times> 'a board_scheme" where
  "key_open s = (0, printk ''key opened !!'' [] s)"

definition key_release :: "'a board_scheme \<Rightarrow> int \<times> 'a board_scheme" where
  "key_release s = (0, printk ''key released !!'' [] s)"

definition key_read :: "'a board_scheme \<Rightarrow> int \<times> 'a board_scheme" where
  "key_read s = (0, printk ''key_read is invoked'' [] s)"

text \<open>\<open>get_user\<close> stores 0 when the buffer cannot be read; the length \<open>count\<close> is not looked at.\<close>

definition get_user_int :: "string \<Rightarrow> int" where
  "get_user_int user = (if length user < 4 then 0 else get_int (take 4 user))"

definition key_write :: "string \<Rightarrow> nat \<Rightarrow> 'a keyboard_scheme \<Rightarrow> int \<times> 'a keyboard_scheme" where
  "key_write user count s =
     (let s = s\<lparr>key_pid := get_user_int user\<rparr> in (0, printk ''key_write is invoked =%d'' [key_pid s] s))"

definition KEY_MAJOR :: u32 where "KEY_MAJOR = 240"

definition el2440_keybutton_init :: "('a board_scheme \<Rightarrow> (kerror + int) \<times> 'a board_scheme) \<Rightarrow>
    'a board_scheme \<Rightarrow> (kerror + int) \<times> 'a board_scheme" where
  "el2440_keybutton_init driver_register s =
     (case register_chrdev KEY_MAJOR ''key'' ''key_fops'' s of
        (Inl e, s) \<Rightarrow> (Inl e, printk ''key: %d character device driver can't be registered'' [240] s)
      | (Inr _, s) \<Rightarrow> driver_register s)"

definition el2440_keybutton_exit :: "('a board_scheme \<Rightarrow> 'a board_scheme) \<Rightarrow> 'a board_scheme \<Rightarrow> 'a board_scheme" where
  "el2440_keybutton_exit driver_unregister s = driver_unregister (unregister_chrdev KEY_MAJOR s)"

section \<open>The first version\<close>

definition gpio_key1_isr :: "nat \<Rightarrow> 'a board_scheme \<Rightarrow> u32 \<times> 'a board_scheme" where
  "gpio_key1_isr irq s = (1, printk ''KEY1 pressed.. irq[%d]'' [int irq] s)"

definition gpio_probe :: "'a irqboard_scheme \<Rightarrow> (kerror + int) \<times> 'a irqboard_scheme" where
  "gpio_probe s =
     (case request_irq IRQ_EINT0 ''key1_isr'' key_flags ''KEY1'' None (printk ''EL2440 external key button probe!!'' [] s) of
        (Inl e, s) \<Rightarrow> (Inl e, printk ''EL2440 keybutton: request IRQ failed!!'' [] s)
      | (Inr _, s) \<Rightarrow> (Inr 0, s))"

definition gpio_remove :: "'a irqboard_scheme \<Rightarrow> int \<times> 'a irqboard_scheme" where
  "gpio_remove s = (0, free_irq IRQ_EINT0 None (printk ''EL2440 external key button remove!!'' [] s))"

definition gpio_init :: "('s \<Rightarrow> (kerror + int) \<times> 's) \<Rightarrow> 's \<Rightarrow> (kerror + int) \<times> 's" where
  "gpio_init driver_register s = driver_register s"

definition gpio_exit :: "('s \<Rightarrow> 's) \<Rightarrow> 's \<Rightarrow> 's" where
  "gpio_exit driver_unregister s = driver_unregister s"

section \<open>A key pressed is a signal sent\<close>

lemma keyboard_simps [simp]:
  "signals (set_desc irq d s) = signals s" "signals (chip_do c s) = signals s"
  "key_pid (set_desc irq d s) = key_pid s" "key_pid (chip_do c s) = key_pid s" "key_pid (printk f a s) = key_pid s"
  "signals (chip_startup irq s) = signals s" "key_pid (chip_startup irq s) = key_pid s"
  by (simp_all add: set_desc_def chip_do_def printk_def chip_startup_def upd_status_def)

lemma upd_status_simps [simp]:
  "descs (upd_status irq f s) = (descs s)(irq := (descs s irq)\<lparr>status := f (status (descs s irq))\<rparr>)"
  "signals (upd_status irq f s) = signals s" "key_pid (upd_status irq f s) = key_pid s" "chip_ops (upd_status irq f s) = chip_ops s"
  by (simp_all add: upd_status_def)

lemma key_isr_simps [simp]:
  "fst (key_isr k irq s) = 1" "descs (snd (key_isr k irq s)) = descs s" "key_pid (snd (key_isr k irq s)) = key_pid s"
  "signals (snd (key_isr k irq s)) = signals s @ [(key_pid s, SIGUSR1)]"
  "chip_ops (snd (key_isr k irq s)) = chip_ops s" "hw (snd (key_isr k irq s)) = hw s"
  by (simp_all add: key_isr_def kill_proc_def printk_def hw_def)

lemma note_handled:
  assumes "irqs_unhandled (descs s irq) = 0"
  shows "descs (note_interrupt irq 1 s) = (descs s)(irq := (descs s irq)\<lparr>
      irq_count := (if irq_count (descs s irq) + 1 < 100000 then irq_count (descs s irq) + 1 else 0)\<rparr>)"
    "signals (note_interrupt irq 1 s) = signals s" "key_pid (note_interrupt irq 1 s) = key_pid s"
    "chip_ops (note_interrupt irq 1 s) = chip_ops s"
  using assms by (auto simp: note_interrupt_def Let_def)

definition key_handlers :: "string set" where
  "key_handlers = {''key1_isr'', ''key2_isr'', ''key3_isr'', ''key4_isr''}"

text \<open>A line that is idle, enabled, not masked, and has a key's handler as its only action.\<close>

definition key_ready :: "nat \<Rightarrow> 'a irqboard_scheme \<Rightarrow> bool" where
  "key_ready l s \<longleftrightarrow> (\<exists>a. actions (descs s l) = [a] \<and> handler a \<in> key_handlers) \<and>
     \<not> bit (status (descs s l)) 8 \<and> \<not> bit (status (descs s l)) 9 \<and> \<not> bit (status (descs s l)) 15 \<and> irqs_unhandled (descs s l) = 0"

lemma idle_status:
  assumes "\<not> bit st 8" "\<not> bit st 9"
  shows "(st AND NOT (IRQ_REPLAY OR IRQ_WAITING)) AND (IRQ_INPROGRESS OR IRQ_DISABLED) = (0 :: u32)"
proof (rule bit_eqI)
  fix n
  show "bit ((st AND NOT (IRQ_REPLAY OR IRQ_WAITING)) AND (IRQ_INPROGRESS OR IRQ_DISABLED)) n = bit (0 :: u32) n"
    using assms by (simp only: disabled_exp bit_or_iff bit_and_iff bit_not_iff bit_exp) auto
qed

lemma entered_status:
  assumes "\<not> bit st 9" "\<not> bit st 15"
  defines "st1 \<equiv> (st AND NOT (IRQ_REPLAY OR IRQ_WAITING)) OR IRQ_INPROGRESS"
  shows "st1 AND (IRQ_PENDING OR IRQ_MASKED OR IRQ_DISABLED) \<noteq> IRQ_PENDING OR IRQ_MASKED"
    "\<not> bit (st1 AND NOT IRQ_PENDING) 9" "\<not> bit (st1 AND NOT IRQ_PENDING) 10" "\<not> bit (st1 AND NOT IRQ_PENDING) 15"
proof -
  show "st1 AND (IRQ_PENDING OR IRQ_MASKED OR IRQ_DISABLED) \<noteq> IRQ_PENDING OR IRQ_MASKED"
  proof
    assume "st1 AND (IRQ_PENDING OR IRQ_MASKED OR IRQ_DISABLED) = IRQ_PENDING OR IRQ_MASKED"
    from arg_cong [OF this, of "\<lambda>x. bit x 15"] show False
      using assms(2) unfolding st1_def disabled_exp bit_or_iff bit_and_iff bit_not_iff bit_exp by simp
  qed
qed (use assms(1,2) in \<open>unfold st1_def disabled_exp bit_or_iff bit_and_iff bit_not_iff bit_exp, auto\<close>)

lemma key_press:
  assumes "key_ready l s"
  shows "\<exists>s'. handle_edge_irq 1 key_run l s = Some s' \<and> signals s' = signals s @ [(key_pid s, SIGUSR1)] \<and>
    key_pid s' = key_pid s \<and> key_ready l s' \<and> (\<forall>i. i \<noteq> l \<longrightarrow> descs s' i = descs s i) \<and>
    handle_irq (descs s' l) = handle_irq (descs s l) \<and> chip_ops s' = chip_ops s @ [ChipAck l] \<and> hw s' = hw s"
proof -
  obtain a where a: "actions (descs s l) = [a]" "handler a \<in> key_handlers" and u: "irqs_unhandled (descs s l) = 0"
    and b: "\<not> bit (status (descs s l)) 8" "\<not> bit (status (descs s l)) 9" "\<not> bit (status (descs s l)) 15"
    using assms by (auto simp: key_ready_def)
  let ?st1 = "(status (descs s l) AND NOT (IRQ_REPLAY OR IRQ_WAITING)) OR IRQ_INPROGRESS"
  let ?st2 = "?st1 AND NOT IRQ_PENDING"
  note st = entered_status [OF b(2,3)]
  define s1 where "s1 = upd_status l (\<lambda>st. st OR IRQ_INPROGRESS)
    (chip_do (ChipAck l) (upd_status l (\<lambda>st. st AND NOT (IRQ_REPLAY OR IRQ_WAITING)) s))"
  have enter: "handle_edge_irq 1 key_run l s = edge_loop 1 key_run l s1"
    using a idle_status [OF b(1,2)] by (simp add: handle_edge_irq_def Let_def s1_def)
  have d1: "descs s1 = (descs s)(l := (descs s l)\<lparr>status := ?st1\<rparr>)" by (simp add: s1_def)
  define s2 where "s2 = upd_status l (\<lambda>st. st AND NOT IRQ_PENDING) s1"
  have d2: "descs s2 = (descs s)(l := (descs s l)\<lparr>status := ?st2\<rparr>)" by (simp add: s2_def d1)
  have k2: "signals s2 = signals s" "key_pid s2 = key_pid s" "chip_ops s2 = chip_ops s @ [ChipAck l]" "hw s2 = hw s"
    by (simp_all add: s2_def s1_def)
  obtain k where run: "key_run (handler a) l (dev_id a) s2 = key_isr k l s2"
    using a(2) by (auto simp: key_handlers_def key_run_def)
  define s3 where "s3 = note_interrupt l 1 (snd (key_isr k l s2))"
  have u2: "irqs_unhandled (descs (snd (key_isr k l s2)) l) = 0" using u by (simp add: d2)
  note n = note_handled [OF u2]
  have d3: "\<exists>c. descs s3 = (descs s)(l := (descs s l)\<lparr>status := ?st2, irq_count := c\<rparr>)"
    by (simp add: s3_def n(1) d2) auto
  have k3: "signals s3 = signals s @ [(key_pid s, SIGUSR1)]" "key_pid s3 = key_pid s" "chip_ops s3 = chip_ops s @ [ChipAck l]"
    "hw s3 = hw s"
    by (simp_all add: s3_def n(2-4) k2)
  have quiet: "status (descs s3 l) AND (IRQ_PENDING OR IRQ_DISABLED) \<noteq> IRQ_PENDING"
  proof
    assume "status (descs s3 l) AND (IRQ_PENDING OR IRQ_DISABLED) = IRQ_PENDING"
    from arg_cong [OF this, of "\<lambda>x. bit x 10"] have "bit ?st2 10"
      using d3 by (auto simp: disabled_exp bit_or_iff bit_and_iff bit_exp)
    then show False using st(3) by simp
  qed
  have "edge_loop 1 key_run l s1 = Some (upd_status l (\<lambda>st. st AND NOT IRQ_INPROGRESS) s3)"
  proof -
    have "actions (descs s1 l) = [a]" "actions (descs s2 l) = [a]" using a(1) by (simp_all add: d1 d2)
    moreover have "handle_IRQ_event key_run l [a] s2 = (1, snd (key_isr k l s2))"
      by (simp add: run key_isr_def)
    moreover have "status (descs s1 l) AND (IRQ_PENDING OR IRQ_MASKED OR IRQ_DISABLED) \<noteq> IRQ_PENDING OR IRQ_MASKED"
      using st(1) by (simp add: d1)
    ultimately show ?thesis
      using quiet unfolding One_nat_def
      by (simp only: edge_loop.simps s2_def [symmetric] Let_def if_False) (simp add: s3_def [symmetric])
  qed
  moreover have "key_ready l (upd_status l (\<lambda>st. st AND NOT IRQ_INPROGRESS) s3)"
    using d3 a u st(2,4)
    by (auto simp: key_ready_def) (simp_all add: disabled_exp bit_and_iff bit_not_iff bit_exp)
  moreover have "\<forall>i. i \<noteq> l \<longrightarrow> descs (upd_status l (\<lambda>st. st AND NOT IRQ_INPROGRESS) s3) i = descs s i"
    "handle_irq (descs (upd_status l (\<lambda>st. st AND NOT IRQ_INPROGRESS) s3) l) = handle_irq (descs s l)"
    using d3 by auto
  ultimately show ?thesis using enter k3 by simp
qed

text \<open>Presses one after the other; the handlers finish in one round.\<close>

fun presses :: "nat list \<Rightarrow> 'a keyboard_scheme \<Rightarrow> 'a keyboard_scheme option" where
  "presses [] s = Some s"
| "presses (l # ls) s = (case handle_edge_irq 1 key_run l s of None \<Rightarrow> None | Some s \<Rightarrow> presses ls s)"

lemma presses_signal:
  assumes "\<forall>l \<in> set ls. key_ready l s"
  shows "\<exists>s'. presses ls s = Some s' \<and> signals s' = signals s @ replicate (length ls) (key_pid s, SIGUSR1)"
  using assms
proof (induction ls arbitrary: s)
  case (Cons l ls)
  obtain s1 where s1: "handle_edge_irq 1 key_run l s = Some s1" "signals s1 = signals s @ [(key_pid s, SIGUSR1)]"
    "key_pid s1 = key_pid s" "key_ready l s1" "\<forall>i. i \<noteq> l \<longrightarrow> descs s1 i = descs s i"
    using key_press [of l s] Cons.prems by auto
  have "key_ready i s1" if "i \<in> set ls" for i
    using that Cons.prems s1(4,5) by (cases "i = l") (auto simp: key_ready_def)
  then show ?case using Cons.IH [of s1] s1 by auto
qed simp

definition key_lines :: "nat set" where "key_lines = {IRQ_EINT0, IRQ_EINT2, IRQ_EINT8, IRQ_EINT19}"

text \<open>A line nobody has requested, which may be requested and starts up enabled.\<close>

definition line_free :: "nat \<Rightarrow> 'a irqboard_scheme \<Rightarrow> bool" where
  "line_free l s \<longleftrightarrow> l < NR_IRQS \<and> actions (descs s l) = [] \<and> has_chip (descs s l) \<and>
     \<not> bit (status (descs s l)) 18 \<and> \<not> bit (status (descs s l)) 19"

lemma key_flags_bits: "key_flags AND IRQF_SHARED = 0" "key_flags AND IRQF_TRIGGER_MASK = 2" "key_flags AND IRQF_NOBALANCING = 0"
  by (simp_all add: key_flags_def IRQF_DISABLED_def IRQF_TRIGGER_FALLING_def IRQF_SHARED_def IRQF_TRIGGER_MASK_def
      IRQF_NOBALANCING_def)

text \<open>What starting a line asks of its chip.\<close>

definition start_ops :: "nat \<Rightarrow> 'a irqboard_scheme \<Rightarrow> chip_op list" where
  "start_ops l s = (if has_set_type (descs s l) then [ChipSetType l 2, ChipStartup l] else [ChipStartup l])"

text \<open>What requesting a free line changes.\<close>

definition taken_line :: "nat \<Rightarrow> 'a keyboard_scheme \<Rightarrow> 'a keyboard_scheme \<Rightarrow> bool" where
  "taken_line l s s' \<longleftrightarrow> key_ready l s' \<and> (\<forall>i. i \<noteq> l \<longrightarrow> descs s' i = descs s i) \<and> kmallocs s' = [] \<and>
     key_pid s' = key_pid s \<and> signals s' = signals s \<and> handle_irq (descs s' l) = handle_irq (descs s l) \<and>
     hw s' = hw s \<and> chip_ops s' = chip_ops s @ start_ops l s"

lemma request_free_line:
  assumes "line_free l s" "kmallocs s = []" "h \<in> key_handlers"
  shows "\<exists>s'. request_irq l h key_flags nm None s = (Inr (), s') \<and> taken_line l s s'"
proof -
  let ?new = "\<lparr>handler = h, aflags = key_flags, aname = nm, dev_id = None\<rparr>"
  have nr: "status (descs s l) AND IRQ_NOREQUEST = 0" and na: "\<And>x. \<not> bit x 19 \<Longrightarrow> x AND IRQ_NOAUTOEN = 0"
  proof -
    have e: "IRQ_NOREQUEST = 2 ^ 18" "IRQ_NOAUTOEN = 2 ^ 19" by (simp_all add: IRQ_NOREQUEST_def IRQ_NOAUTOEN_def)
    show "status (descs s l) AND IRQ_NOREQUEST = 0"
      using assms(1) unfolding e and_exp_eq_0_iff_not_bit line_free_def by blast
    show "\<And>x. \<not> bit x 19 \<Longrightarrow> x AND IRQ_NOAUTOEN = 0"
      unfolding e and_exp_eq_0_iff_not_bit by blast
  qed
  have pr: "IRQ_PROBING = 2 ^ 12 OR 2 ^ 13 OR 2 ^ 8" by (simp add: IRQ_PROBING_def)
  let ?st = "status (descs s l) AND NOT IRQ_PROBING"
  have st: "\<not> bit ?st 19" "\<not> bit (?st AND NOT IRQ_DISABLED AND NOT IRQ_MASKED) 8"
    "\<not> bit (?st AND NOT IRQ_DISABLED AND NOT IRQ_MASKED) 9" "\<not> bit (?st AND NOT IRQ_DISABLED AND NOT IRQ_MASKED) 15"
    using assms(1) unfolding line_free_def pr disabled_exp bit_or_iff bit_and_iff bit_not_iff bit_exp by auto
  have k: "kmalloc s = (True, s\<lparr>live := live s + 1\<rparr>)" using assms(2) by (simp add: kmalloc_def)
  let ?s = "snd (request_irq l h key_flags nm None s)"
  have eq: "request_irq l h key_flags nm None s = (Inr (), ?s)"
    "descs ?s = (descs s)(l := (descs s l)\<lparr>actions := [?new], depth := 0, status := ?st AND NOT IRQ_DISABLED AND NOT IRQ_MASKED,
       irq_count := 0, irqs_unhandled := 0\<rparr>)" "kmallocs ?s = []" "key_pid ?s = key_pid s" "signals ?s = signals s"
    "hw ?s = hw s" "chip_ops ?s = chip_ops s @ start_ops l s"
    using assms(1,2) nr na [OF st(1)]
    by (simp_all add: request_irq_def key_flags_bits line_free_def k setup_irq_def start_line_def start_ops_def Let_def and.assoc)
  have "key_ready l ?s" using assms(3) st by (simp add: key_ready_def eq(2))
  then show ?thesis using eq by (intro exI [of _ ?s]) (simp add: taken_line_def)
qed

lemma taken_line_other: "taken_line l s s' \<Longrightarrow> i \<noteq> l \<Longrightarrow> line_free i s' = line_free i s \<and> key_ready i s' = key_ready i s \<and> start_ops i s' = start_ops i s"
  by (simp add: taken_line_def line_free_def key_ready_def start_ops_def)

lemma probe_free_lines:
  assumes "\<forall>l \<in> key_lines. line_free l s" "kmallocs s = []"
  shows "\<exists>s'. el2440_keybutton_probe s = (Inr 0, s') \<and> (\<forall>l \<in> key_lines. key_ready l s') \<and>
    (\<forall>i. i \<notin> key_lines \<longrightarrow> descs s' i = descs s i) \<and> signals s' = signals s \<and> key_pid s' = key_pid s \<and>
    (\<forall>i. handle_irq (descs s' i) = handle_irq (descs s i)) \<and> hw s' = hw s \<and>
    chip_ops s' = chip_ops s @ start_ops 16 s @ start_ops 18 s @ start_ops 52 s @ start_ops 63 s"
proof -
  note ln = key_lines_def IRQ_EINT0_def IRQ_EINT2_def IRQ_EINT8_def IRQ_EINT19_def
  have f: "line_free 16 s" "line_free 18 s" "line_free 52 s" "line_free 63 s" using assms(1) by (simp_all add: ln)
  let ?s0 = "printk ''EL2440 external key button probe!!'' [] s"
  have h: "''key1_isr'' \<in> key_handlers" "''key2_isr'' \<in> key_handlers" "''key3_isr'' \<in> key_handlers" "''key4_isr'' \<in> key_handlers"
    by (simp_all add: key_handlers_def)
  have f0: "line_free i ?s0 = line_free i s" "start_ops i ?s0 = start_ops i s" for i by (simp_all add: line_free_def start_ops_def)
  obtain s1 where s1: "request_irq 16 ''key1_isr'' key_flags ''KEY1'' None ?s0 = (Inr (), s1)" and t1: "taken_line 16 ?s0 s1"
    using request_free_line [of 16 ?s0 "''key1_isr''" "''KEY1''"] f(1) assms(2) h f0 by auto
  note o1 = taken_line_other [OF t1]
  obtain s2 where s2: "request_irq 18 ''key2_isr'' key_flags ''KEY2'' None s1 = (Inr (), s2)" and t2: "taken_line 18 s1 s2"
    using request_free_line [of 18 s1 "''key2_isr''" "''KEY2''"] f(2) h(2) f0 o1 [of 18] t1 by (auto simp: taken_line_def)
  note o2 = taken_line_other [OF t2]
  obtain s3 where s3: "request_irq 52 ''key3_isr'' key_flags ''KEY3'' None s2 = (Inr (), s3)" and t3: "taken_line 52 s2 s3"
    using request_free_line [of 52 s2 "''key3_isr''" "''KEY3''"] f(3) h(3) f0 o1 [of 52] o2 [of 52] t2 by (auto simp: taken_line_def)
  note o3 = taken_line_other [OF t3]
  obtain s4 where s4: "request_irq 63 ''key4_isr'' key_flags ''KEY4'' None s3 = (Inr (), s4)" and t4: "taken_line 63 s3 s4"
    using request_free_line [of 63 s3 "''key4_isr''" "''KEY4''"] f(4) h(4) f0 o1 [of 63] o2 [of 63] o3 [of 63] t3 by (auto simp: taken_line_def)
  note o4 = taken_line_other [OF t4]
  have "el2440_keybutton_probe s = (Inr 0, s4)"
    by (simp add: el2440_keybutton_probe_def ln s1 s2 s3 s4)
  moreover have "key_ready 16 s4" "key_ready 18 s4" "key_ready 52 s4" "key_ready 63 s4"
    using o2 [of 16] o3 [of 16] o4 [of 16] o3 [of 18] o4 [of 18] o4 [of 52] t1 t2 t3 t4 by (simp_all add: taken_line_def)
  moreover have "handle_irq (descs s4 i) = handle_irq (descs s i)" for i
  proof -
    have h: "handle_irq (descs s' i) = handle_irq (descs u i)" if "taken_line l u s'" for l and u s' :: "'a keyboard_scheme"
      using that by (cases "i = l") (simp_all add: taken_line_def)
    show ?thesis using h [OF t1] h [OF t2] h [OF t3] h [OF t4] by simp
  qed
  moreover have "\<forall>i. i \<notin> key_lines \<longrightarrow> descs s4 i = descs s i" "signals s4 = signals s" "key_pid s4 = key_pid s" "hw s4 = hw s"
    using t1 t2 t3 t4 by (simp_all add: taken_line_def ln)
  moreover have "chip_ops s4 = chip_ops s @ start_ops 16 s @ start_ops 18 s @ start_ops 52 s @ start_ops 63 s"
    using t1 t2 t3 t4 f0(2) o1 [of 18] o1 [of 52] o1 [of 63] o2 [of 52] o2 [of 63] o3 [of 63]
    by (simp add: taken_line_def)
  ultimately show ?thesis by (auto simp: ln)
qed

text \<open>
  Every key press reaches the process. When the four lines are free and there is memory, the
  probe of the key driver succeeds. After a process has written its number to the device, however
  many presses of whichever keys follow, the line's flow handles each of them, and each sends
  SIGUSR1 to that process, once, and nothing else to anybody.
\<close>

theorem key_presses_signal:
  assumes "\<forall>l \<in> key_lines. line_free l s" "kmallocs s = []" "set ls \<subseteq> key_lines"
    and "- 2147483648 \<le> pid" "pid < 2147483648"
  shows "\<exists>s1 s2. el2440_keybutton_probe s = (Inr 0, s1) \<and>
    presses ls (snd (key_write (put_int pid) n s1)) = Some s2 \<and>
    signals s2 = signals s @ replicate (length ls) (pid, SIGUSR1)"
proof -
  obtain s1 where s1: "el2440_keybutton_probe s = (Inr 0, s1)" "\<forall>l \<in> key_lines. key_ready l s1" "signals s1 = signals s"
    using probe_free_lines [OF assms(1,2)] by blast
  let ?w = "snd (key_write (put_int pid) n s1)"
  have w: "key_pid ?w = pid" "signals ?w = signals s1" "descs ?w = descs s1"
    using get_int_put_int [OF assms(4,5)] by (simp_all add: key_write_def get_user_int_def)
  have "\<forall>l \<in> set ls. key_ready l ?w" using s1(2) assms(3) w(3) by (auto simp: key_ready_def)
  then show ?thesis using presses_signal [of ls ?w] s1 w by auto
qed

definition key_board :: keyboard where
  "key_board = s3cboard.extend (irqboard.extend irq_board
     (s3cboard.fields (\<lambda>_. S3cExt) 0 0 0 0xffffffff 0 0xfffff0 0 0x7fff (\<lambda>_. 0) 0)) (keyboard.fields 0)"

lemma key_board_simps [simp]:
  "descs key_board = descs irq_board" "kmallocs key_board = []" "live key_board = 0"
  by (simp_all add: key_board_def irq_board_def irqboard.extend_def s3cboard.fields_def s3cboard.extend_def keyboard.fields_def)

lemma irq_board_desc:
  "actions (descs irq_board l) = []" "status (descs irq_board l) = IRQ_DISABLED" "has_chip (descs irq_board l)"
  by (simp_all add: irq_board_def)

lemma key_board_free: "line_free l key_board \<longleftrightarrow> l < NR_IRQS" "kmallocs key_board = []"
  by (simp_all add: line_free_def irq_board_desc IRQ_DISABLED_def)

lemma key_presses_signal_witness:
  "\<exists>s1 s2. el2440_keybutton_probe key_board = (Inr 0, s1) \<and>
    presses [16, 63, 16] (snd (key_write (put_int 4711) 4 s1)) = Some s2 \<and>
    signals s2 = signals key_board @ replicate (length [16, 63, 16 :: nat]) (4711, SIGUSR1)"
  by (rule key_presses_signal)
     (auto simp: key_board_free key_lines_def IRQ_EINT0_def IRQ_EINT2_def IRQ_EINT8_def IRQ_EINT19_def NR_IRQS_def)

section \<open>A probe that fails halfway\<close>

lemma request_foreign:
  assumes "l < NR_IRQS" "actions (descs s l) = [a]" "aflags a AND IRQF_SHARED = 0"
  shows "\<exists>e s'. request_irq l h key_flags nm None s = (Inl e, s') \<and> descs s' = descs s"
proof (cases rule: request_irq_cases [of l h key_flags nm None s])
  case (fails e s')
  then show ?thesis by simp
next
  case (installs s')
  have "\<not> may_share a b" for b
  proof -
    have "aflags a AND aflags b AND IRQF_SHARED = aflags b AND (aflags a AND IRQF_SHARED)"
      by (rule and.left_commute)
    then show ?thesis using assms(3) by (simp add: may_share_def)
  qed
  then show ?thesis using installs(6) assms(2) by simp
qed



section \<open>The keys and the LEDs\<close>

text \<open>
  Only one of the two devices at a time. With a LED driver loaded, the key driver does not
  load, never reaches the driver core, and leaves the registry as it was; after the LED driver is
  unloaded it loads (if there is memory), and opening a minor of the major finds the keys.
\<close>

theorem keys_after_leds:
  assumes "registry_ok s" "vacant_major LED_MAJOR s" "led_init s = (Inr r, s1)" "mi < 256"
    and "register_chrdev KEY_MAJOR ''key'' ''key_fops'' (led_exit s1) = (Inr r', s2)"
  shows "(\<exists>e s'. el2440_keybutton_init drv s1 = (Inl e, s') \<and> tables_of s' = tables_of s1) \<and>
    el2440_keybutton_init drv (led_exit s1) = drv s2 \<and> look_major KEY_MAJOR mi s2 = Some ''key_fops''"
proof -
  have km: "KEY_MAJOR = LED_MAJOR" by (simp add: KEY_MAJOR_def LED_MAJOR_def)
  note own = led_init_owns [OF assms(1-3)]
  obtain q t where t: "register_chrdev KEY_MAJOR ''key'' ''key_fops'' s1 = (q, t)" by fastforce
  obtain e where q: "q = Inl e" "tables_of t = tables_of s1"
    using cdevs.owned_refused [OF own(1,2) t [unfolded km]] by auto
  obtain r0 u where u: "register_chrdev LED_MAJOR ''led'' ''led_fops'' s = (Inr r0, u)"
    "s1 = printk ''led registered!!'' [] (gpf_setup u)"
    using led_init_Inr [OF assms(3)] by metis
  have "tables_of (led_exit s1) = tables_of (unregister_chrdev LED_MAJOR u)"
    using unregister_tables [of s1 u] by (simp add: led_exit_def u(2))
  also have "\<dots> = tables_of s" by (rule cdevs.unregistered [OF assms(1,2) u(1)])
  finally have "registry_ok (led_exit s1)" "vacant_major LED_MAJOR (led_exit s1)"
    using cdevs.tables_ready assms(1,2) by metis+
  then have "look_major KEY_MAJOR mi s2 = Some ''key_fops''"
    using cdevs.look_registered [OF _ _ assms(4) assms(5) [unfolded km]] by (simp add: km)
  then show ?thesis
    using t q assms(5) by (simp add: el2440_keybutton_init_def)
qed

lemma keys_after_leds_witness:
  "look_major 240 7 (snd (register_chrdev 240 ''key'' ''key_fops'' (led_exit (snd (led_init mydrv_board))))) =
     Some ''key_fops''"
proof -
  let ?s2 = "register_chrdev 240 ''key'' ''key_fops'' (led_exit (snd (led_init mydrv_board)))"
  have "fst ?s2 = Inr 0"
    by (simp add: led_init_def led_exit_def LED_MAJOR_def mydrv_board_def register_run gpf_setup_def printk_def
        unregister_chrdev_def unregister_region_def cdev_del_def kobj_unmap_def device_240 set_cdev_def same_region_def
        kfree_def span_major chain_of_0 same_probe_def insert_probe_def base_probe_def)
  then have "register_chrdev KEY_MAJOR ''key'' ''key_fops'' (led_exit (snd (led_init mydrv_board))) = (Inr 0, snd ?s2)"
    by (simp add: KEY_MAJOR_def prod_eq_iff)
  from keys_after_leds [OF mydrv_board_ok(1) _ led_init_mydrv_board(1) _ this, of 7 "\<lambda>s. (Inr 0, s)"]
  show ?thesis by (simp add: mydrv_board_ok LED_MAJOR_def KEY_MAJOR_def)
qed

end
