(* ===== verification/KeyPress.thy ===== *)
theory KeyPress
  imports KeyButton
begin

unbundle bit_operations_syntax

text \<open>
  From the boot of the board to a key: the lines as the setup functions of the kernel leave them,
  the key driver on these lines, and what an edge at a key's pin does, through the registers of the
  interrupt controller, its demultiplexer and the driver's handler, to the process.
\<close>

section \<open>The lines of the board\<close>

text \<open>The setup at boot: of the machine, then of what the S3C2440 has beside (\<open>arch_initcall\<close>).\<close>

definition board_irqs :: "'a s3cboard_scheme \<Rightarrow> 'a s3cboard_scheme" where
  "board_irqs b = s3c244x_irq_add (s3c2440_irq_add (init_IRQ b))"

definition board_desc :: "nat \<Rightarrow> irq_desc \<Rightarrow> irq_desc" where
  "board_desc i d =
     (let d = init_desc i d in
      if i = 25 then chained ''s3c_irq_demux_wdtac97'' (chipped S3cLevel ''handle_level_irq'' d)
      else if i = 83 \<or> i = 84 then wired S3cWdtac97 ''handle_level_irq'' d
      else if i = 40 then wired S3cLevel ''handle_level_irq'' d
      else if i = 22 then chained ''s3c_irq_demux_cam'' (chipped S3cLevel ''handle_level_irq'' d)
      else if i = 81 \<or> i = 82 then wired S3cCam ''handle_level_irq'' d else d)"

definition regs :: "'a s3cboard_scheme \<Rightarrow> (u32 \<times> u32 \<times> u32) \<times> (u32 \<times> u32) \<times> (u32 \<times> u32) \<times> (nat \<Rightarrow> u32) \<times> u32 \<times> u32" where
  "regs s = snd (hw s)"

lemma regs_simps [simp]:
  "regs (on_line i g c s) = regs s" "regs (on_lines ls g' c' s) = regs s" "regs (chip_do op s) = regs s" "regs (printk f a s) = regs s"
  by (simp_all add: regs_def hw_def on_line_def on_lines_def chip_do_def printk_def)

lemma lines_beside [simp]:
  "signals (on_line i g c s) = signals s" "signals (on_lines ls g' c' s) = signals s" "signals (chip_do op s) = signals s"
  "kmallocs (on_line i g c s) = kmallocs s" "kmallocs (on_lines ls g' c' s) = kmallocs s"
  "line_chip (printk f a s) = line_chip s"
  by (simp_all add: on_line_def on_lines_def chip_do_def printk_def)

lemma beside_eq:
  assumes "beside s = beside t"
  shows "regs s = regs t" "signals s = signals t" "kmallocs s = kmallocs t" "live s = live t"
proof -
  have b: "regs (beside u) = regs u" "signals (beside u) = signals u" "kmallocs (beside u) = kmallocs u" "live (beside u) = live u"
    for u :: "'a s3cboard_scheme" by (simp_all add: beside_def regs_def hw_def)
  show "regs s = regs t" "signals s = signals t" "kmallocs s = kmallocs t" "live s = live t"
    using b [of s] b [of t] assms by simp_all
qed

lemma s3c2440_irq_add_eq:
  "s3c2440_irq_add s = on_lines [83..<85] (\<lambda>_. wired S3cWdtac97 ''handle_level_irq'') (\<lambda>_ _. S3cWdtac97)
    (chip_do (ChipUnmask 25) (on_line 25 (chained ''s3c_irq_demux_wdtac97'') (\<lambda>c. c)
      (on_line 25 (chipped S3cLevel ''handle_level_irq'') (\<lambda>_. S3cLevel) (printk ''S3C2440: IRQ Support'' [] s))))"
  by (simp add: s3c2440_irq_add_def irq_numbers Let_def set_chip_handler set_chained setup_lines del: upt_rec_numeral upt_Suc)

lemma s3c244x_irq_add_eq:
  "s3c244x_irq_add s = on_lines [81..<83] (\<lambda>_. wired S3cCam ''handle_level_irq'') (\<lambda>_ _. S3cCam)
    (chip_do (ChipUnmask 22) (on_line 22 (chained ''s3c_irq_demux_cam'') (\<lambda>c. c)
      (on_line 22 (chipped S3cLevel ''handle_level_irq'') (\<lambda>_. S3cLevel)
      (on_line 40 (wired S3cLevel ''handle_level_irq'') (\<lambda>_. S3cLevel) s))))"
  by (simp add: s3c244x_irq_add_def irq_numbers Let_def set_chip_handler set_chained setup_lines setup_line_eq del: upt_rec_numeral upt_Suc)

lemma board_irqs_lines:
  fixes b :: "'a s3cboard_scheme"
  assumes "chip_ops b = []"
  shows "descs (board_irqs b) i = board_desc i (descs b i)"
    "line_chip (board_irqs b) i = (if i \<in> {22, 25, 40} then S3cLevel else if i \<in> {81, 82} then S3cCam
       else if i \<in> {83, 84} then S3cWdtac97 else init_chip i (line_chip b i))"
    "chip_ops (board_irqs b) = map ChipUnmask [20, 21, 44, 39, 31, 47, 25, 22]"
    "regs (board_irqs b) = regs (clear_all b)" "signals (board_irqs b) = signals b" "kmallocs (board_irqs b) = kmallocs b"
proof -
  note i = init_IRQ_lines [OF assms]
  have ups: "set [83..<85] = {83, 84}" "set [81..<83] = {81, 82}" by auto
  note e = board_irqs_def s3c2440_irq_add_eq s3c244x_irq_add_eq
  have "descs (board_irqs b) i = board_desc i (descs b i) \<and>
    line_chip (board_irqs b) i = (if i \<in> {22, 25, 40} then S3cLevel else if i \<in> {81, 82} then S3cCam
       else if i \<in> {83, 84} then S3cWdtac97 else init_chip i (line_chip b i))"
  proof (cases "i \<in> {22, 25, 40, 81, 82, 83, 84}")
    case True
    then show ?thesis by (elim insertE emptyE) (simp_all add: e i(1,2) board_desc_def Let_def ups del: upt_rec_numeral set_upt)
  next
    case False
    then have "i \<noteq> 22" "i \<noteq> 25" "i \<noteq> 40" "i \<notin> {81, 82}" "i \<notin> {83, 84}" "i \<noteq> 81" "i \<noteq> 82" "i \<noteq> 83" "i \<noteq> 84" by simp_all
    then show ?thesis by (simp add: e i(1,2) board_desc_def Let_def ups del: upt_rec_numeral set_upt)
  qed
  then show "descs (board_irqs b) i = board_desc i (descs b i)"
    "line_chip (board_irqs b) i = (if i \<in> {22, 25, 40} then S3cLevel else if i \<in> {81, 82} then S3cCam
       else if i \<in> {83, 84} then S3cWdtac97 else init_chip i (line_chip b i))" by blast+
  show "chip_ops (board_irqs b) = map ChipUnmask [20, 21, 44, 39, 31, 47, 25, 22]" by (simp add: e i(3))
  note bs = beside_eq [OF i(4)]
  show "regs (board_irqs b) = regs (clear_all b)" "signals (board_irqs b) = signals b" "kmallocs (board_irqs b) = kmallocs b"
    using bs by (simp_all add: e)
qed

text \<open>The flow each line is meant to have.\<close>

definition line_flow :: "nat \<Rightarrow> string" where
  "line_flow l =
     (if l = 20 then ''s3c_irq_demux_extint4t7'' else if l = 21 then ''s3c_irq_demux_extint8''
      else if l = 22 then ''s3c_irq_demux_cam'' else if l = 25 then ''s3c_irq_demux_wdtac97''
      else if l = 31 then ''s3c_irq_demux_uart2'' else if l = 39 then ''s3c_irq_demux_uart1''
      else if l = 44 then ''s3c_irq_demux_uart0'' else if l = 47 then ''s3c_irq_demux_adc''
      else if l = 40 \<or> 70 \<le> l \<and> l < 79 \<or> 81 \<le> l then ''handle_level_irq''
      else if l < 16 \<or> l = 68 \<or> l = 69 then ''handle_bad_irq''
      else ''handle_edge_irq'')"

definition desc_free :: "irq_desc \<Rightarrow> bool" where
  "desc_free d \<longleftrightarrow> actions d = [] \<and> has_chip d \<and> \<not> bit (status d) 18 \<and> \<not> bit (status d) 19"

lemma line_free_desc: "line_free l s \<longleftrightarrow> l < NR_IRQS \<and> desc_free (descs s l)"
  by (simp add: line_free_def desc_free_def)

lemma noreq_exp: "IRQ_NOREQUEST = 2 ^ 18" "IRQ_NOAUTOEN = 2 ^ 19"
  by (simp_all add: IRQ_NOREQUEST_def IRQ_NOAUTOEN_def)

lemma desc_free_setup [simp]:
  "desc_free (wired c h d) \<longleftrightarrow> actions d = []" "\<not> desc_free (chained h d)" "\<not> desc_free (reserve d)"
  unfolding desc_free_def wired_def chipped_def chained_def reserve_def valid_status_def
  by (simp_all add: noreq_exp disabled_exp bit_and_iff bit_or_iff bit_not_iff bit_exp)

lemma setup_sel [simp]:
  "actions (wired c h d) = actions d" "actions (chained h d) = actions d" "actions (chipped c h d) = actions d" "actions (reserve d) = actions d"
  "handle_irq (wired c h d) = Some h" "handle_irq (chained h d) = Some h" "handle_irq (reserve d) = handle_irq d"
  by (simp_all add: wired_def chipped_def chained_def reserve_def)

lemma flow_kinds:
  "''s3c_irq_demux_extint4t7'' \<in> demuxers" "''s3c_irq_demux_extint8'' \<in> demuxers" "''s3c_irq_demux_cam'' \<in> demuxers"
  "''s3c_irq_demux_wdtac97'' \<in> demuxers" "''s3c_irq_demux_uart0'' \<in> demuxers" "''s3c_irq_demux_uart1'' \<in> demuxers"
  "''s3c_irq_demux_uart2'' \<in> demuxers" "''s3c_irq_demux_adc'' \<in> demuxers"
  "''handle_edge_irq'' \<notin> demuxers" "''handle_level_irq'' \<notin> demuxers" "''handle_bad_irq'' \<notin> demuxers"
  by (simp_all add: demuxers_def)

text \<open>A line with a source, a line with a demultiplexer, a line with neither.\<close>

definition line_kind :: "string \<Rightarrow> irq_desc \<Rightarrow> irq_desc \<Rightarrow> bool" where
  "line_kind h d d' \<longleftrightarrow> (h = ''handle_edge_irq'' \<or> h = ''handle_level_irq'') \<and> (\<exists>c. d' = wired c h (reserve d)) \<or>
     h \<in> demuxers \<and> (\<exists>u. d' = chained h u) \<or> h = ''handle_bad_irq'' \<and> d' = reserve d"

lemma line_kindI:
  "line_kind ''handle_edge_irq'' d (wired c ''handle_edge_irq'' (reserve d))"
  "line_kind ''handle_level_irq'' d (wired c ''handle_level_irq'' (reserve d))"
  "h \<in> demuxers \<Longrightarrow> line_kind h d (chained h u)" "line_kind ''handle_bad_irq'' d (reserve d)"
  by (auto simp only: line_kind_def)

lemma board_desc_kind:
  assumes "l < 85"
  shows "line_kind (line_flow l) d (board_desc l d)"
proof (cases "l \<in> {20, 21, 22, 25, 31, 39, 40, 44, 47}")
  case True
  then show ?thesis
    by (elim insertE emptyE)
       (simp_all add: board_desc_def init_desc_def demuxer_def source_line_def line_flow_def Let_def line_kindI flow_kinds)
next
  case False
  then have n: "l \<noteq> 20" "l \<noteq> 21" "l \<noteq> 22" "l \<noteq> 25" "l \<noteq> 31" "l \<noteq> 39" "l \<noteq> 40" "l \<noteq> 44" "l \<noteq> 47" "demuxer l = None"
    by (simp_all add: demuxer_def)
  note df = board_desc_def init_desc_def source_line_def line_flow_def n Let_def line_kindI
  show ?thesis
  proof (cases l rule: line_ranges)
    case 5
    then have "l = 68 \<or> l = 69" by auto
    then show ?thesis by (elim disjE) (simp_all add: df demuxer_def)
  next
    case 10
    then have "l = 81 \<or> l = 82" by auto
    then show ?thesis by (elim disjE) (simp_all add: df demuxer_def)
  next
    case 11
    then have "l = 83 \<or> l = 84" using assms by auto
    then show ?thesis by (elim disjE) (simp_all add: df demuxer_def)
  qed (use assms in \<open>simp_all add: df\<close>)
qed

lemma line_kind_free:
  assumes "line_kind h d d'" "actions d = []" "handle_irq d = Some ''handle_bad_irq''"
  shows "handle_irq d' = Some h \<and> (desc_free d' \<longleftrightarrow> h \<notin> demuxers \<and> h \<noteq> ''handle_bad_irq'')"
  using assms unfolding line_kind_def by (elim disjE conjE exE) (simp_all add: flow_kinds)

lemma board_lines:
  assumes "\<forall>l. descs b l = boot_desc" "chip_ops b = []" "l < NR_IRQS"
  shows "handle_irq (descs (board_irqs b) l) = Some (line_flow l) \<and>
    (line_free l (board_irqs b) \<longleftrightarrow> line_flow l \<notin> demuxers \<and> line_flow l \<noteq> ''handle_bad_irq'')"
proof -
  have d: "descs (board_irqs b) l = board_desc l boot_desc" using board_irqs_lines(1) [OF assms(2)] assms(1) by simp
  have bt: "actions boot_desc = []" "handle_irq boot_desc = Some ''handle_bad_irq''" by (simp_all add: boot_desc_def)
  have "l < 85" using assms(3) by (simp add: NR_IRQS_def)
  then show ?thesis using line_kind_free [OF board_desc_kind bt] by (simp add: line_free_desc assms(3) d)
qed

text \<open>
  C20. Every line is wired at boot. From the table of descriptors the kernel starts with, the setup
  gives every line its flow: the lines that stand for several sources their demultiplexers, the
  sources the edge or the level flow, and the lines without a source keep the handler for bad
  interrupts. A driver can request exactly the lines that are sources.
\<close>

theorem boot_lines:
  assumes "\<forall>l. descs b l = boot_desc" "chip_ops b = []" "l < NR_IRQS"
  shows "handle_irq (descs (board_irqs b) l) = Some (line_flow l) \<and>
    (line_free l (board_irqs b) \<longleftrightarrow> line_flow l \<notin> demuxers \<and> line_flow l \<noteq> ''handle_bad_irq'')"
  by (rule board_lines [OF assms])

section \<open>The keys run\<close>

text \<open>
  The state with the driver loaded, in which nothing is pending: the four lines wait for an edge,
  the external ones are open at the controller, and every log entry of the chips is carried out.
\<close>

definition keys_on :: "int \<Rightarrow> 'a keyboard_scheme \<Rightarrow> bool" where
  "keys_on pid s \<longleftrightarrow> (\<forall>l \<in> key_lines. key_ready l s \<and> handle_irq (descs s l) = Some ''handle_edge_irq'') \<and>
     handle_irq (descs s 21) = Some ''s3c_irq_demux_extint8'' \<and>
     line_chip s 16 = S3cEint0t4 \<and> line_chip s 18 = S3cEint0t4 \<and> line_chip s 52 = S3cExt \<and> line_chip s 63 = S3cExt \<and>
     key_pid s = pid \<and> chip_ops s = [] \<and> \<not> bit (eintmask s) 8 \<and> \<not> bit (eintmask s) 19 \<and> eintpend s = 0 \<and> intpnd s = 0"

interpretation blind_pid: chip_blind key_pid by unfold_locales (simp_all add: printk_def)

lemma key_pid_sync [simp]: "key_pid (s3c_chip_do c s) = key_pid s" "key_pid (chip_sync s) = key_pid s"
  by (simp_all add: blind_pid.op_blind blind_pid.sync_blind)

text \<open>The flows of some lines of the keys, one after the other.\<close>

lemma keys_each:
  assumes "\<forall>l \<in> set ls. key_ready l s \<and> handle_irq (descs s l) = Some ''handle_edge_irq''"
  shows "\<exists>s'. handle_each (desc_handle_irq (Suc k) 1 key_run) ls s = Some s' \<and>
    signals s' = signals s @ replicate (length ls) (key_pid s, SIGUSR1) \<and> key_pid s' = key_pid s \<and> hw s' = hw s \<and>
    chip_ops s' = chip_ops s @ map ChipAck ls \<and> (\<forall>l. key_ready l s \<longrightarrow> key_ready l s') \<and>
    (\<forall>l. handle_irq (descs s' l) = handle_irq (descs s l))"
  using assms
proof (induction ls arbitrary: s)
  case (Cons l ls)
  obtain s1 where s1: "handle_edge_irq 1 key_run l s = Some s1" "signals s1 = signals s @ [(key_pid s, SIGUSR1)]"
    "key_pid s1 = key_pid s" "key_ready l s1" "\<forall>i. i \<noteq> l \<longrightarrow> descs s1 i = descs s i"
    "handle_irq (descs s1 l) = handle_irq (descs s l)" "chip_ops s1 = chip_ops s @ [ChipAck l]" "hw s1 = hw s"
    using key_press [of l s] Cons.prems by auto
  have h: "handle_irq (descs s1 i) = handle_irq (descs s i)" for i using s1(5,6) by (cases "i = l") simp_all
  have r: "key_ready i s1" if "key_ready i s" for i using that s1(4,5) by (cases "i = l") (auto simp: key_ready_def)
  have "handle_each (desc_handle_irq (Suc k) 1 key_run) (l # ls) s = handle_each (desc_handle_irq (Suc k) 1 key_run) ls s1"
    using Cons.prems s1(1) by simp
  then show ?case using Cons.IH [of s1] Cons.prems s1 h r by auto
qed simp

section \<open>An edge at a key\<close>

text \<open>The third and the fourth key share a line; their edges may come together.\<close>

datatype key_event = Key1 | Key2 | Key3 | Key4 | Key3and4

fun event_line :: "key_event \<Rightarrow> nat" where
  "event_line Key1 = IRQ_EINT0"
| "event_line Key2 = IRQ_EINT2"
| "event_line e = IRQ_EINT8t23"

fun event_pins :: "key_event \<Rightarrow> u32" where
  "event_pins Key3 = 0x100"
| "event_pins Key4 = 0x80000"
| "event_pins Key3and4 = 0x80100"
| "event_pins e = 0"

text \<open>What the controller latches at the edge, and the interrupt it raises.\<close>

definition latch :: "key_event \<Rightarrow> 'a s3cboard_scheme \<Rightarrow> 'a s3cboard_scheme" where
  "latch e s = s\<lparr>eintpend := eintpend s OR event_pins e, srcpnd := srcpnd s OR 2 ^ (event_line e - 16),
     intpnd := intpnd s OR 2 ^ (event_line e - 16)\<rparr>"

fun key_interrupts :: "key_event list \<Rightarrow> 'a keyboard_scheme \<Rightarrow> 'a keyboard_scheme option" where
  "key_interrupts [] s = Some s"
| "key_interrupts (e # es) s =
     (case asm_do_IRQ 1 key_run (event_line e) (latch e s) of None \<Rightarrow> None | Some s \<Rightarrow> key_interrupts es s)"

definition event_keys :: "key_event \<Rightarrow> nat list" where
  "event_keys e = (case e of Key1 \<Rightarrow> [16] | Key2 \<Rightarrow> [18] | Key3 \<Rightarrow> [52] | Key4 \<Rightarrow> [63] | Key3and4 \<Rightarrow> [52, 63])"

lemma latch_sel [simp]:
  "descs (latch e s) = descs s" "line_chip (latch e s) = line_chip s" "signals (latch e s) = signals s" "chip_ops (latch e s) = chip_ops s"
  "key_pid (latch e t) = key_pid t" "eintmask (latch e s) = eintmask s" "eintpend (latch e s) = eintpend s OR event_pins e"
  "intpnd (latch e s) = intpnd s OR 2 ^ (event_line e - 16)" "srcpnd (latch e s) = srcpnd s OR 2 ^ (event_line e - 16)"
  "key_ready l (latch e s) = key_ready l s"
  by (simp_all add: latch_def key_ready_def)

lemma pin_bits: "bit (0x100 :: u32) n \<longleftrightarrow> n = 8" "bit (0x80000 :: u32) n \<longleftrightarrow> n = 19" "bit (0x80100 :: u32) n \<longleftrightarrow> n = 8 \<or> n = 19"
proof -
  show b: "bit (0x100 :: u32) n \<longleftrightarrow> n = 8" "bit (0x80000 :: u32) n \<longleftrightarrow> n = 19" for n
    using bit_exp [of 8 n] bit_exp [of 19 n] by simp_all
  have "(0x80100 :: u32) = 0x100 OR 0x80000" by simp
  then show "bit (0x80100 :: u32) n \<longleftrightarrow> n = 8 \<or> n = 19" by (simp only: bit_or_iff b)
qed

lemma event_pin_bits: "event_line e = 21 \<Longrightarrow> bit (event_pins e) n \<longleftrightarrow> n + 44 \<in> set (event_keys e)"
  by (cases e; simp only: event_pins.simps pin_bits; simp add: event_keys_def irq_numbers)

lemma event_sources:
  assumes "\<not> bit (eintmask s) 8" "\<not> bit (eintmask s) 19" "eintpend s = event_pins e" "event_line e = 21"
  shows "filter (pending_ext s) [52..<76] = event_keys e"
proof -
  have b: "pending_ext s l \<longleftrightarrow> l \<in> set (event_keys e)" if "l \<in> set [52..<76]" for l
  proof -
    have "bit (event_pins e) (l - 44) \<longleftrightarrow> l \<in> set (event_keys e)"
      using event_pin_bits [OF assms(4), of "l - 44"] le_add_diff_inverse2 [of 44 l] that by auto
    moreover have "\<not> bit (eintmask s) (l - 44)" if "l \<in> set (event_keys e)"
      using that assms(1,2,4) by (cases e) (auto simp: event_keys_def irq_numbers)
    ultimately show ?thesis by (auto simp: pending_ext_def assms(3))
  qed
  have "filter (pending_ext s) [52..<76] = filter (\<lambda>l. l \<in> set (event_keys e)) [52..<76]"
    using b by (intro filter_cong) auto
  also have "\<dots> = event_keys e" using assms(4) by (cases e) (simp_all add: event_keys_def irq_numbers)
  finally show ?thesis .
qed

text \<open>Acknowledging the keys of an event clears what it latched.\<close>

lemma event_acked:
  assumes "hw s' = hw (latch e s)" "chip_ops s' = map ChipAck (event_keys e)" "eintpend s = 0" "intpnd s = 0"
    and "line_chip s 16 = S3cEint0t4" "line_chip s 18 = S3cEint0t4" "line_chip s 52 = S3cExt" "line_chip s 63 = S3cExt"
    and "\<not> bit (eintmask s) 8" "\<not> bit (eintmask s) 19"
  shows "eintpend (chip_sync s') = 0 \<and> intpnd (chip_sync s') = 0 \<and> eintmask (chip_sync s') = eintmask s"
proof -
  have f: "line_chip s' = line_chip s" "eintpend s' = event_pins e" "intpnd s' = 2 ^ (event_line e - 16)" "eintmask s' = eintmask s"
    using assms(1,3,4) by (simp_all add: hw_def)
  have "bit (drop_bit 8 (0x80000 AND NOT (eintmask s))) 11"
    using assms(10) by (simp add: bit_drop_bit_eq bit_and_iff bit_not_iff pin_bits)
  then have d: "drop_bit 8 (0x80000 AND NOT (eintmask s)) \<noteq> 0" by (metis bit_0_eq bot_apply bot_bool_def)
  show ?thesis
    using assms(2,5-8) f d
    by (cases e) (simp_all add: chip_sync_def event_keys_def s3c_chip_do_def chip_ack_def s3c_irq_ack_def s3c_irqext_ack_def
        write_pnd_def write_eintpend_def irq_numbers Let_def)
qed

lemma key_event_run:
  assumes "keys_on pid s"
  shows "\<exists>s'. asm_do_IRQ 1 key_run (event_line e) (latch e s) = Some s' \<and> keys_on pid s' \<and>
    signals s' = signals s @ replicate (length (event_keys e)) (pid, SIGUSR1)"
proof -
  let ?t = "latch e s"
  note on = assms [unfolded keys_on_def]
  have kl: "set (event_keys e) \<subseteq> key_lines" by (cases e) (simp_all add: event_keys_def key_lines_def irq_numbers)
  then have r: "\<forall>l \<in> set (event_keys e). key_ready l ?t \<and> handle_irq (descs ?t l) = Some ''handle_edge_irq''" using on by auto
  have "\<exists>k. desc_handle_irq 2 1 key_run (event_line e) ?t = handle_each (desc_handle_irq (Suc k) 1 key_run) (event_keys e) ?t"
  proof (cases "event_line e = 21")
    case True
    have "filter (pending_ext ?t) [52..<76] = event_keys e" by (rule event_sources) (use on True in simp_all)
    then have "sources ''s3c_irq_demux_extint8'' ?t = event_keys e" by (simp add: sources_def)
    moreover have "chip_sync ?t = ?t" using on by (simp add: chip_sync_done)
    moreover have "handle_irq (descs ?t (event_line e)) = Some ''s3c_irq_demux_extint8''" using on True by simp
    then have "desc_handle_irq (Suc 1) 1 key_run (event_line e) ?t = handle_each (desc_handle_irq 1 1 key_run)
        (sources ''s3c_irq_demux_extint8'' (chip_sync ?t)) (chip_sync ?t)"
      by (rule demuxer_each) (simp add: demuxers_def)
    ultimately have "desc_handle_irq 2 1 key_run (event_line e) ?t = handle_each (desc_handle_irq (Suc 0) 1 key_run) (event_keys e) ?t"
      by (simp add: numeral_2_eq_2)
    then show ?thesis by blast
  next
    case False
    then have "event_keys e = [event_line e]" by (cases e) (simp_all add: event_keys_def irq_numbers)
    then have "desc_handle_irq 2 1 key_run (event_line e) ?t = handle_each (desc_handle_irq (Suc 1) 1 key_run) (event_keys e) ?t"
      by (simp add: numeral_2_eq_2 del: desc_handle_irq.simps split: option.split)
    then show ?thesis by blast
  qed
  then obtain k s1 where s1: "desc_handle_irq 2 1 key_run (event_line e) ?t = Some s1"
    "signals s1 = signals ?t @ replicate (length (event_keys e)) (key_pid ?t, SIGUSR1)" "key_pid s1 = key_pid ?t" "hw s1 = hw ?t"
    "chip_ops s1 = chip_ops ?t @ map ChipAck (event_keys e)" "\<forall>l. key_ready l ?t \<longrightarrow> key_ready l s1"
    "\<forall>l. handle_irq (descs s1 l) = handle_irq (descs ?t l)"
    using keys_each [OF r] by metis
  have lt: "\<not> NR_IRQS \<le> event_line e" by (cases e) (simp_all add: irq_numbers)
  have a: "eintpend (chip_sync s1) = 0 \<and> intpnd (chip_sync s1) = 0 \<and> eintmask (chip_sync s1) = eintmask s"
    by (rule event_acked) (use on s1(4,5) in simp_all)
  have lc: "line_chip s1 = line_chip s" using s1(4) by (simp add: hw_def)
  have "key_ready l (chip_sync s1) = key_ready l s1" for l by (simp add: key_ready_def)
  then have "keys_on pid (chip_sync s1)" using on s1(3,6,7) a lc by (simp add: keys_on_def)
  then show ?thesis using s1(1,2) lt on by (simp add: asm_do_IRQ_def)
qed

lemma key_interrupts_run:
  "keys_on pid s \<Longrightarrow> \<exists>s'. key_interrupts es s = Some s' \<and> keys_on pid s' \<and>
    signals s' = signals s @ replicate (length (concat (map event_keys es))) (pid, SIGUSR1)"
proof (induction es arbitrary: s)
  case (Cons e es)
  obtain s1 where s1: "asm_do_IRQ 1 key_run (event_line e) (latch e s) = Some s1" "keys_on pid s1"
    "signals s1 = signals s @ replicate (length (event_keys e)) (pid, SIGUSR1)"
    using key_event_run [OF Cons.prems] by blast
  then show ?case using Cons.IH [OF s1(2)] by (auto simp: replicate_add)
qed simp

section \<open>From boot to signal\<close>

fun quiet_op :: "chip_op \<Rightarrow> bool" where
  "quiet_op (ChipMask l) = False"
| "quiet_op (ChipAck l) = False"
| "quiet_op c = True"

lemma quiet_op_keeps:
  assumes "quiet_op c"
  shows "eintpend (s3c_chip_do c s) = eintpend s \<and> intpnd (s3c_chip_do c s) = intpnd s \<and>
    (bit (eintmask (s3c_chip_do c s)) n \<longrightarrow> bit (eintmask s) n)"
proof -
  have u: "eintpend (chip_unmask l s) = eintpend s \<and> intpnd (chip_unmask l s) = intpnd s \<and> (bit (eintmask (chip_unmask l s)) n \<longrightarrow> bit (eintmask s) n)" for l
    by (simp add: chip_unmask_def s3c_irqext_unmask_def s3c_irq_unmask_def s3c_irqsub_unmask_def bit_and_iff split: irq_chip.split option.split)
  have "eintpend (snd (s3c_irqext_type l ty s)) = eintpend s \<and> intpnd (snd (s3c_irqext_type l ty s)) = intpnd s \<and>
      eintmask (snd (s3c_irqext_type l ty s)) = eintmask s" for l ty
    by (simp add: s3c_irqext_type_def set_gpcon_def printk_def Let_def split: option.split prod.split gpcon.split)
  then show ?thesis using assms u by (cases c) (simp_all add: s3c_chip_do_def)
qed

lemma quiet_ops_keep:
  assumes "\<forall>c \<in> set ops. quiet_op c"
  shows "eintpend (fold s3c_chip_do ops s) = eintpend s \<and> intpnd (fold s3c_chip_do ops s) = intpnd s \<and>
    (bit (eintmask (fold s3c_chip_do ops s)) n \<longrightarrow> bit (eintmask s) n)"
  using assms
proof (induction ops arbitrary: s)
  case (Cons c ops)
  then show ?case using quiet_op_keeps [of c s n] by simp
qed simp

lemma startup_opens:
  assumes "\<forall>c \<in> set ops. quiet_op c" "ChipStartup l \<in> set ops" "line_chip s l = S3cExt"
  shows "\<not> bit (eintmask (fold s3c_chip_do ops s)) (l - 44)"
proof -
  obtain as bs where ops: "ops = as @ ChipStartup l # bs" using split_list [OF assms(2)] by blast
  have lc: "line_chip (fold s3c_chip_do as s) = line_chip s" by (induction as arbitrary: s) simp_all
  have "\<not> bit (eintmask (s3c_chip_do (ChipStartup l) (fold s3c_chip_do as s))) (l - 44)"
    using assms(3) by (simp add: lc s3c_chip_do_def chip_unmask_def s3c_irqext_unmask_def irq_numbers bit_clear)
  then show ?thesis using quiet_ops_keep [of bs _ "l - 44"] assms(1) by (auto simp: ops)
qed

lemma key_flows:
  "21 < NR_IRQS" "line_flow 21 = ''s3c_irq_demux_extint8''" "l \<in> key_lines \<Longrightarrow> line_flow l = ''handle_edge_irq''"
  "l \<in> key_lines \<Longrightarrow> l < NR_IRQS" "''handle_edge_irq'' \<notin> demuxers" "''handle_edge_irq'' \<noteq> ''handle_bad_irq''"
proof -
  have k: "l = 16 \<or> l = 18 \<or> l = 52 \<or> l = 63" if "l \<in> key_lines" using that by (simp add: key_lines_def irq_numbers)
  show "l \<in> key_lines \<Longrightarrow> line_flow l = ''handle_edge_irq''" "l \<in> key_lines \<Longrightarrow> l < NR_IRQS"
    by (drule k; elim disjE; simp add: line_flow_def NR_IRQS_def)+
qed (simp_all add: line_flow_def NR_IRQS_def flow_kinds)

lemma key_types: "\<forall>l \<in> {16, 18, 52, 63}. has_set_type (board_desc l d)"
  by (simp add: board_desc_def init_desc_def demuxer_def source_line_def Let_def wired_def chipped_def)

lemma keys_loaded:
  fixes b :: "'a keyboard_scheme"
  assumes "\<forall>l. descs b l = boot_desc" "chip_ops b = []" "kmallocs b = []" "- 2147483648 \<le> pid" "pid < 2147483648"
  shows "\<exists>s1. el2440_keybutton_probe (board_irqs b) = (Inr 0, s1) \<and> signals s1 = signals b \<and>
    keys_on pid (chip_sync (snd (key_write (put_int pid) n s1)))"
proof -
  let ?s = "board_irqs b"
  note bl = board_irqs_lines [OF assms(2)] and fl = board_lines [OF assms(1,2)]
  have flow: "handle_irq (descs ?s 21) = Some ''s3c_irq_demux_extint8''"
    "\<forall>l \<in> key_lines. handle_irq (descs ?s l) = Some ''handle_edge_irq''"
    using fl key_flows by metis+
  have fr: "\<forall>l \<in> key_lines. line_free l ?s"
    using fl key_flows by metis
  have so: "\<forall>l \<in> {16, 18, 52, 63}. start_ops l ?s = [ChipSetType l 2, ChipStartup l]"
    by (simp add: start_ops_def bl(1) key_types)
  obtain s1 where s1: "el2440_keybutton_probe ?s = (Inr 0, s1)" "\<forall>l \<in> key_lines. key_ready l s1" "signals s1 = signals ?s"
    "\<forall>i. handle_irq (descs s1 i) = handle_irq (descs ?s i)" "hw s1 = hw ?s"
    "chip_ops s1 = chip_ops ?s @ start_ops 16 ?s @ start_ops 18 ?s @ start_ops 52 ?s @ start_ops 63 ?s"
    using probe_free_lines [OF fr] assms(3) bl(6) by auto
  let ?w = "snd (key_write (put_int pid) n s1)"
  have w: "key_pid ?w = pid" "descs ?w = descs s1" "hw ?w = hw s1" "chip_ops ?w = chip_ops s1"
    using get_int_put_int [OF assms(4,5)] by (simp_all add: key_write_def get_user_int_def hw_def printk_def)
  let ?u = "?w\<lparr>chip_ops := []\<rparr>"
  have ops: "\<forall>c \<in> set (chip_ops ?w). quiet_op c" "ChipStartup 52 \<in> set (chip_ops ?w)" "ChipStartup 63 \<in> set (chip_ops ?w)"
    using so by (simp_all add: w(4) s1(6) bl(3))
  have lc: "line_chip ?u = line_chip ?s" using w(3) s1(5) by (simp add: hw_def)
  have chips: "line_chip ?s 16 = S3cEint0t4" "line_chip ?s 18 = S3cEint0t4" "line_chip ?s 52 = S3cExt" "line_chip ?s 63 = S3cExt"
    by (simp_all add: bl(2) init_chip_def demuxer_def source_line_def)
  have rg: "eintpend ?u = 0" "intpnd ?u = 0"
  proof -
    have "regs ?u = regs (clear_all b)" using w(3) s1(5) bl(4) by (simp add: regs_def hw_def)
    then show "eintpend ?u = 0" "intpnd ?u = 0" by (simp_all add: regs_def hw_def)
  qed
  have z: "eintpend (chip_sync ?w) = 0" "intpnd (chip_sync ?w) = 0"
    using quiet_ops_keep [OF ops(1), of ?u] rg by (simp_all add: chip_sync_def)
  have m: "\<not> bit (eintmask (chip_sync ?w)) 8" "\<not> bit (eintmask (chip_sync ?w)) 19"
    using startup_opens [OF ops(1,2), of ?u] startup_opens [OF ops(1,3), of ?u] chips lc by (simp_all add: chip_sync_def)
  have "line_chip (chip_sync ?w) = line_chip ?s" using lc by simp
  moreover have "key_ready l (chip_sync ?w) = key_ready l s1" for l by (simp add: key_ready_def w(2))
  ultimately have "keys_on pid (chip_sync ?w)"
    using z m chips flow s1(2,4) by (simp add: keys_on_def w(1,2))
  then show ?thesis using s1(1,3) bl(5) by auto
qed


definition reset_board :: keyboard where
  "reset_board = s3cboard.extend (irqboard.extend irq_board
     (s3cboard.fields (\<lambda>_. NoIrqChip) 0 0 0 0xffffffff 0 0xfffff0 0 0x7fff (\<lambda>_. 0) 0)) (keyboard.fields 0)
     \<lparr>descs := \<lambda>_. boot_desc\<rparr>"

lemma reset_board_simps [simp]:
  "descs reset_board = (\<lambda>_. boot_desc)" "chip_ops reset_board = []" "kmallocs reset_board = []" "signals reset_board = []"
  by (simp_all add: reset_board_def irq_board_def irqboard.extend_def s3cboard.fields_def s3cboard.extend_def keyboard.fields_def)


lemma boot_lines_witness:
  "handle_irq (descs (board_irqs reset_board) 63) = Some ''handle_edge_irq'' \<and> line_free 63 (board_irqs reset_board)"
  using boot_lines [of reset_board 63] by (simp add: NR_IRQS_def line_flow_def demuxers_def)

lemma demux_exact_witness:
  "desc_handle_irq 2 1 key_run 21 (board_irqs reset_board) =
    handle_each (desc_handle_irq 1 1 key_run) (sources ''s3c_irq_demux_extint8'' (chip_sync (board_irqs reset_board))) (chip_sync (board_irqs reset_board))"
proof -
  have "handle_irq (descs (board_irqs reset_board) 21) = Some ''s3c_irq_demux_extint8''"
    using board_lines [of reset_board 21] by (simp add: NR_IRQS_def line_flow_def)
  from demux_exact [OF this, of 1 1 key_run] show ?thesis by (simp add: demuxers_def numeral_2_eq_2)
qed


end
