(* ===== verification/S3cPm.thy ===== *)
theory S3cPm
  imports KeyPress
begin

unbundle bit_operations_syntax

text \<open>
  What the interrupt lines have to do with sleeping (kernel/irq/manage.c, arch/arm/plat-s3c24xx/irq.c
  and pm.c with CONFIG_PM): which lines may wake the board, what the controller is set to before the
  processor is put to sleep, the pins of the external lines meanwhile (arch/arm/plat-s3c24xx/gpio.c),
  and what is saved and restored. Of the registers that are saved the ones of the interrupts are
  modelled; the processor's state, the clocks, the memory controller and the UARTs are not.
\<close>

section \<open>Lines that wake the board\<close>

record pmboard = s3cboard +
  wake_depth :: "nat \<Rightarrow> u32"
  irqwake_intmask :: u32
  irqwake_eintmask :: u32
  save_regs :: "u32 list"
  save_extint :: "nat \<Rightarrow> u32"
  save_eintflt :: "nat \<Rightarrow> u32"
  save_eintmask :: u32
  eintflt :: "nat \<Rightarrow> u32"

definition IRQ_WAKEUP :: u32 where "IRQ_WAKEUP = 0x100000"
definition IRQ_RTC :: nat where "IRQ_RTC = 46"

definition irqwake_intallow :: u32 where
  "irqwake_intallow = push_bit (IRQ_RTC - IRQ_EINT0) 1 OR 0xf"

definition irqwake_eintallow :: u32 where
  "irqwake_eintallow = 0xfff0"

definition s3c_irq_wake :: "nat \<Rightarrow> bool \<Rightarrow> 'a pmboard_scheme \<Rightarrow> int \<times> 'a pmboard_scheme" where
  "s3c_irq_wake irqno state s =
     (let irqbit = push_bit (irqno - IRQ_EINT0) 1 in
      if irqwake_intallow AND irqbit = 0 then (-2, s) else
      let s = printk (if state then ''wake enabled for irq %d'' else ''wake disabled for irq %d'') [int irqno] s in
      (0, if \<not> state then s\<lparr>irqwake_intmask := irqwake_intmask s OR irqbit\<rparr>
          else s\<lparr>irqwake_intmask := irqwake_intmask s AND NOT irqbit\<rparr>))"

definition s3c_irqext_wake :: "nat \<Rightarrow> bool \<Rightarrow> 'a pmboard_scheme \<Rightarrow> int \<times> 'a pmboard_scheme" where
  "s3c_irqext_wake irqno state s =
     (let bitv = push_bit (irqno - EXTINT_OFF) 1 in
      if irqwake_eintallow AND bitv = 0 then (-2, s) else
      let s = printk (if state then ''wake enabled for irq %d'' else ''wake disabled for irq %d'') [int irqno] s in
      (0, if \<not> state then s\<lparr>irqwake_eintmask := irqwake_eintmask s OR bitv\<rparr>
          else s\<lparr>irqwake_eintmask := irqwake_eintmask s AND NOT bitv\<rparr>))"

text \<open>The member \<open>set_wake\<close> of the chips; those of the sources behind a line have none.\<close>

definition chip_set_wake :: "irq_chip \<Rightarrow> (nat \<Rightarrow> bool \<Rightarrow> 'a pmboard_scheme \<Rightarrow> int \<times> 'a pmboard_scheme) option" where
  "chip_set_wake chip = (case chip of
       S3cLevel \<Rightarrow> Some s3c_irq_wake | S3c \<Rightarrow> Some s3c_irq_wake | S3cEint0t4 \<Rightarrow> Some s3c_irq_wake
     | S3cExt \<Rightarrow> Some s3c_irqext_wake | _ \<Rightarrow> None)"

text \<open>
  \<open>set_irq_wake\<close> counts how often waking is enabled and calls the chip when the count leaves or
  reaches zero, and also when it is disabled while it is not enabled. -6 is \<open>ENXIO\<close>, -2 \<open>ENOENT\<close>.
\<close>

definition set_irq_wake :: "nat \<Rightarrow> bool \<Rightarrow> 'a pmboard_scheme \<Rightarrow> int \<times> 'a pmboard_scheme" where
  "set_irq_wake irq on s =
     (let d = wake_depth s irq; set_wake = chip_set_wake (line_chip s irq);
          (s, called) =
            (if on then
               let s = s\<lparr>wake_depth := (wake_depth s)(irq := d + 1)\<rparr>
               in if d = 0 then (upd_status irq (\<lambda>st. st OR IRQ_WAKEUP) s, True) else (s, False)
             else if d = 0 then (printk ''Unbalanced IRQ %d wake disable'' [int irq] s, True)
             else
               let s = s\<lparr>wake_depth := (wake_depth s)(irq := d - 1)\<rparr>
               in if d - 1 = 0 then (upd_status irq (\<lambda>st. st AND NOT IRQ_WAKEUP) s, True) else (s, False))
      in case (if called then set_wake else None) of None \<Rightarrow> (-6, s) | Some f \<Rightarrow> f irq on s)"

section \<open>Going to sleep\<close>

text \<open>Pins of the ports F and G, which start at 160 and 192; other ports have no external lines.\<close>

definition S3C2410_GPF0 :: nat where "S3C2410_GPF0 = 160"
definition S3C2410_GPG0 :: nat where "S3C2410_GPG0 = 192"
definition S3C2410_GPIO_LEAVE :: u32 where "S3C2410_GPIO_LEAVE = 0xFFFFFFFF"
definition S3C2410_GPIO_INPUT :: u32 where "S3C2410_GPIO_INPUT = 0xFFFFFFF0"
definition S3C2410_GPIO_IRQ :: u32 where "S3C2410_GPIO_IRQ = 0xFFFFFFF2"

definition gpio_base :: "nat \<Rightarrow> gpcon" where
  "gpio_base pin = (if pin < S3C2410_GPG0 then GPFCON else GPGCON)"

definition gpio_offset :: "nat \<Rightarrow> nat" where
  "gpio_offset pin = pin mod 32"

definition s3c2410_gpio_getcfg :: "nat \<Rightarrow> 'a s3cboard_scheme \<Rightarrow> u32" where
  "s3c2410_gpio_getcfg pin s = (drop_bit (gpio_offset pin * 2) (gpcon_of (gpio_base pin) s) AND 3) OR S3C2410_GPIO_INPUT"

definition s3c2410_gpio_cfgpin :: "nat \<Rightarrow> u32 \<Rightarrow> 'a s3cboard_scheme \<Rightarrow> 'a s3cboard_scheme" where
  "s3c2410_gpio_cfgpin pin func s =
     (let m = push_bit (gpio_offset pin * 2) 3;
          (m, func) = (if func = S3C2410_GPIO_LEAVE then (0, 0)
                       else if func \<in> {0xFFFFFFF0, 0xFFFFFFF1, 0xFFFFFFF2, 0xFFFFFFF3} then (m, push_bit (gpio_offset pin * 2) (func AND 3))
                       else (m, func))
      in set_gpcon (gpio_base pin) (\<lambda>con. (con AND NOT m) OR func) s)"

text \<open>A pin whose line may not wake the board is made an input.\<close>

definition check_resume_pin :: "nat \<Rightarrow> nat \<Rightarrow> 'a pmboard_scheme \<Rightarrow> 'a pmboard_scheme" where
  "check_resume_pin pin irqoffs s =
     (let irqstate = (if irqoffs < 4 then irqwake_intmask s AND push_bit irqoffs 1 else irqwake_eintmask s AND push_bit irqoffs 1);
          pinstate = s3c2410_gpio_getcfg pin s
      in if irqstate \<noteq> 0 \<and> pinstate = S3C2410_GPIO_IRQ then s3c2410_gpio_cfgpin pin S3C2410_GPIO_INPUT s else s)"

definition configure_extint :: "'a pmboard_scheme \<Rightarrow> 'a pmboard_scheme" where
  "configure_extint s =
     fold (\<lambda>pin. check_resume_pin pin (pin - S3C2410_GPG0 + 8)) [S3C2410_GPG0..<S3C2410_GPG0 + 8]
       (fold (\<lambda>pin. check_resume_pin pin (pin - S3C2410_GPF0)) [S3C2410_GPF0..<S3C2410_GPF0 + 8] s)"

definition any_allowed :: "u32 \<Rightarrow> u32 \<Rightarrow> bool" where
  "any_allowed m allow \<longleftrightarrow> m AND allow \<noteq> allow"

text \<open>
  \<open>s3c2410_pm_enter\<close> up to the point at which the processor is put to sleep: 0 if it is, -22
  (\<open>EINVAL\<close>) if not. Whether the functions of the processor are set is an argument.
\<close>

definition pm_fall_asleep :: "bool \<Rightarrow> 'a pmboard_scheme \<Rightarrow> int \<times> 'a pmboard_scheme" where
  "pm_fall_asleep cpu_set s =
     (if \<not> cpu_set then (-22, printk ''s3c24xx-pm: error: no cpu sleep functions set'' [] s)
      else if \<not> any_allowed (irqwake_intmask s) irqwake_intallow \<and> \<not> any_allowed (irqwake_eintmask s) irqwake_eintallow
      then (-22, printk ''s3c24xx-pm: Aborting sleep'' [] (printk ''s3c24xx-pm: No sources enabled for wake-up!'' [] s))
      else
        let s = configure_extint s;
            s = s\<lparr>intmsk := irqwake_intmask s\<rparr>;
            s = s\<lparr>eintmask := irqwake_eintmask s\<rparr>;
            s = write_eintpend (eintpend s) s;
            s = s\<lparr>intpnd := intpnd s AND NOT (intpnd s)\<rparr>
        in (0, s\<lparr>srcpnd := srcpnd s AND NOT (srcpnd s)\<rparr>))"

section \<open>Saving and restoring\<close>

datatype saved_reg = INTMSK | INTSUBMSK

definition reg_readl :: "saved_reg \<Rightarrow> 'a s3cboard_scheme \<Rightarrow> u32" where
  "reg_readl r s = (case r of INTMSK \<Rightarrow> intmsk s | INTSUBMSK \<Rightarrow> intsubmsk s)"

definition reg_writel :: "u32 \<Rightarrow> saved_reg \<Rightarrow> 'a s3cboard_scheme \<Rightarrow> 'a s3cboard_scheme" where
  "reg_writel v r s = (case r of INTMSK \<Rightarrow> s\<lparr>intmsk := v\<rparr> | INTSUBMSK \<Rightarrow> s\<lparr>intsubmsk := v\<rparr>)"

definition irq_save :: "saved_reg list" where
  "irq_save = [INTMSK, INTSUBMSK]"

definition pm_do_save :: "saved_reg list \<Rightarrow> 'a s3cboard_scheme \<Rightarrow> u32 list" where
  "pm_do_save rs s = map (\<lambda>r. reg_readl r s) rs"

definition pm_do_restore :: "(saved_reg \<times> u32) list \<Rightarrow> 'a s3cboard_scheme \<Rightarrow> 'a s3cboard_scheme" where
  "pm_do_restore rvs s =
     fold (\<lambda>(r, v) s. reg_writel v r (printk ''restore (restore %08lx, was %08x)'' [uint v, uint (reg_readl r s)] s)) rvs s"

definition s3c24xx_irq_suspend :: "'a pmboard_scheme \<Rightarrow> 'a pmboard_scheme" where
  "s3c24xx_irq_suspend s =
     (let s = fold (\<lambda>i s. s\<lparr>save_extint := (save_extint s)(i := extint s i)\<rparr>) [0..<3] s;
          s = fold (\<lambda>i s. s\<lparr>save_eintflt := (save_eintflt s)(i := eintflt s i)\<rparr>) [0..<4] s;
          s = s\<lparr>save_regs := pm_do_save irq_save s\<rparr>
      in s\<lparr>save_eintmask := eintmask s\<rparr>)"

definition s3c24xx_irq_resume :: "'a pmboard_scheme \<Rightarrow> 'a pmboard_scheme" where
  "s3c24xx_irq_resume s =
     (let s = fold (\<lambda>i s. s\<lparr>extint := (extint s)(i := save_extint s i)\<rparr>) [0..<3] s;
          s = fold (\<lambda>i s. s\<lparr>eintflt := (eintflt s)(i := save_eintflt s i)\<rparr>) [0..<4] s;
          s = pm_do_restore (zip irq_save (save_regs s)) s
      in s\<lparr>eintmask := save_eintmask s\<rparr>)"

section \<open>The masks follow the counts\<close>

text \<open>How often waking by a line is enabled after a number of calls; disabling has no effect at zero.\<close>

definition wakeups :: "(nat \<times> bool) list \<Rightarrow> nat \<Rightarrow> nat" where
  "wakeups cs l = fold (\<lambda>(i, on) n. if i \<noteq> l then n else if on then Suc n else n - 1) cs 0"

definition set_wakes :: "(nat \<times> bool) list \<Rightarrow> 'a pmboard_scheme \<Rightarrow> 'a pmboard_scheme" where
  "set_wakes cs s = fold (\<lambda>(i, on) s. snd (set_irq_wake i on s)) cs s"

definition main_chip :: "irq_chip \<Rightarrow> bool" where
  "main_chip c \<longleftrightarrow> c = S3cLevel \<or> c = S3c \<or> c = S3cEint0t4"

definition wake_chips :: "'a pmboard_scheme \<Rightarrow> bool" where
  "wake_chips s \<longleftrightarrow> (\<forall>l. main_chip (line_chip s l) \<longrightarrow> 16 \<le> l \<and> l < 48) \<and> (\<forall>l. line_chip s l = S3cExt \<longrightarrow> 48 \<le> l \<and> l < 68) \<and>
     (\<forall>l \<in> {16, 17, 18, 19, 46}. main_chip (line_chip s l)) \<and> (\<forall>l. 48 \<le> l \<and> l < 60 \<longrightarrow> line_chip s l = S3cExt)"

text \<open>The mask of a register: a source is open when it may wake the board and waking is enabled.\<close>

definition mask_follows :: "u32 \<Rightarrow> u32 \<Rightarrow> (nat \<Rightarrow> nat) \<Rightarrow> bool" where
  "mask_follows m allow n \<longleftrightarrow> (\<forall>b < 32. bit m b \<longleftrightarrow> \<not> (bit allow b \<and> 0 < n b))"

definition wake_inv :: "(nat \<Rightarrow> nat) \<Rightarrow> 'a pmboard_scheme \<Rightarrow> bool" where
  "wake_inv n s \<longleftrightarrow> (\<forall>l. wake_depth s l = of_nat (n l)) \<and>
     mask_follows (irqwake_intmask s) irqwake_intallow (\<lambda>b. n (b + 16)) \<and>
     mask_follows (irqwake_eintmask s) irqwake_eintallow (\<lambda>b. n (b + 44))"

lemma and_bit_0: "(a :: u32) AND push_bit k 1 = 0 \<longleftrightarrow> \<not> bit a k"
proof
  assume z: "a AND push_bit k 1 = 0"
  show "\<not> bit a k"
  proof
    assume a: "bit a k"
    then have "bit (a AND push_bit k 1) k" using bit_imp_le_length [OF a] by (simp add: bit_and_iff push_bit_eq_mult bit_exp)
    then show False unfolding z by simp
  qed
next
  assume "\<not> bit a k"
  then show "a AND push_bit k 1 = 0"
    by (intro bit_word_eqI) (auto simp: bit_and_iff bit_exp)
qed

lemma mask_follows_write:
  assumes "mask_follows m allow n" "k < 32"
  shows "mask_follows (if bit allow k then if v then m AND NOT (2 ^ k) else m OR 2 ^ k else m) allow
    (n(k := if v then Suc c else 0))"
  using assms by (auto simp: mask_follows_def bit_and_iff bit_or_iff bit_not_iff bit_exp)

lemma mask_follows_same:
  assumes "mask_follows m allow n" "\<And>b. b < 32 \<Longrightarrow> bit allow b \<Longrightarrow> 0 < n' b \<longleftrightarrow> 0 < n b"
  shows "mask_follows m allow n'"
  using assms unfolding mask_follows_def by blast

text \<open>What a call changes.\<close>

lemma wake_effect:
  fixes s :: "'a pmboard_scheme"
  defines "s' \<equiv> \<lambda>f. snd (f :: int \<times> 'a pmboard_scheme)"
  shows "wake_depth (s' (s3c_irq_wake i on s)) = wake_depth s" "line_chip (s' (s3c_irq_wake i on s)) = line_chip s"
    "irqwake_eintmask (s' (s3c_irq_wake i on s)) = irqwake_eintmask s"
    "irqwake_intmask (s' (s3c_irq_wake i on s)) =
      (if bit irqwake_intallow (i - 16)
       then if on then irqwake_intmask s AND NOT (2 ^ (i - 16)) else irqwake_intmask s OR 2 ^ (i - 16) else irqwake_intmask s)"
    "wake_depth (s' (s3c_irqext_wake i on s)) = wake_depth s" "line_chip (s' (s3c_irqext_wake i on s)) = line_chip s"
    "irqwake_intmask (s' (s3c_irqext_wake i on s)) = irqwake_intmask s"
    "irqwake_eintmask (s' (s3c_irqext_wake i on s)) =
      (if bit irqwake_eintallow (i - 44)
       then if on then irqwake_eintmask s AND NOT (2 ^ (i - 44)) else irqwake_eintmask s OR 2 ^ (i - 44) else irqwake_eintmask s)"
  unfolding s'_def s3c_irq_wake_def s3c_irqext_wake_def Let_def and_bit_0 by (simp_all add: irq_numbers printk_def)

lemma allowed_bits:
  "bit irqwake_intallow b \<longleftrightarrow> b < 4 \<or> b = 30" "bit irqwake_eintallow b \<longleftrightarrow> 4 \<le> b \<and> b < 16"
proof -
  have f: "(0xf :: u32) = mask 4" "(0xfff0 :: u32) = push_bit 4 (mask 12)" by (simp_all add: mask_eq_exp_minus_1 push_bit_eq_mult)
  show "bit irqwake_intallow b \<longleftrightarrow> b < 4 \<or> b = 30"
  proof -
    have "irqwake_intallow = 2 ^ 30 OR mask 4" by (simp add: irqwake_intallow_def f(1) IRQ_RTC_def IRQ_EINT0_def)
    show ?thesis unfolding \<open>irqwake_intallow = _\<close> bit_or_iff bit_exp bit_mask_iff by auto
  qed
  show "bit irqwake_eintallow b \<longleftrightarrow> 4 \<le> b \<and> b < 16"
    unfolding irqwake_eintallow_def f(2) by (auto simp: bit_push_bit_iff bit_mask_iff)
qed

lemma of_nat_u32: "n < 4294967295 \<Longrightarrow> unat (of_nat n :: u32) = n"
  by (simp add: unat_of_nat take_bit_nat_eq_self)

text \<open>Counting, without the call of the chip.\<close>

definition wake_called :: "nat \<Rightarrow> bool \<Rightarrow> 'a pmboard_scheme \<Rightarrow> 'a pmboard_scheme" where
  "wake_called i on s = (case chip_set_wake (line_chip s i) of None \<Rightarrow> s | Some f \<Rightarrow> snd (f i on s))"

lemma set_irq_wake_split:
  "snd (set_irq_wake i True s) =
    (let t = s\<lparr>wake_depth := (wake_depth s)(i := wake_depth s i + 1)\<rparr> in
     if wake_depth s i = 0 then wake_called i True (upd_status i (\<lambda>st. st OR IRQ_WAKEUP) t) else t)"
  "snd (set_irq_wake i False s) =
    (if wake_depth s i = 0 then wake_called i False (printk ''Unbalanced IRQ %d wake disable'' [int i] s) else
     let t = s\<lparr>wake_depth := (wake_depth s)(i := wake_depth s i - 1)\<rparr> in
     if wake_depth s i - 1 = 0 then wake_called i False (upd_status i (\<lambda>st. st AND NOT IRQ_WAKEUP) t) else t)"
proof -
  have lc: "line_chip (upd_status i u t) = line_chip t" "line_chip (printk f as t) = line_chip t" for u f as and t :: "'a pmboard_scheme"
    by (simp_all add: upd_status_def set_desc_def printk_def)
  show "snd (set_irq_wake i True s) =
    (let t = s\<lparr>wake_depth := (wake_depth s)(i := wake_depth s i + 1)\<rparr> in
     if wake_depth s i = 0 then wake_called i True (upd_status i (\<lambda>st. st OR IRQ_WAKEUP) t) else t)"
    by (simp add: set_irq_wake_def wake_called_def Let_def lc split: option.split)
  show "snd (set_irq_wake i False s) =
    (if wake_depth s i = 0 then wake_called i False (printk ''Unbalanced IRQ %d wake disable'' [int i] s) else
     let t = s\<lparr>wake_depth := (wake_depth s)(i := wake_depth s i - 1)\<rparr> in
     if wake_depth s i - 1 = 0 then wake_called i False (upd_status i (\<lambda>st. st AND NOT IRQ_WAKEUP) t) else t)"
    by (simp add: set_irq_wake_def wake_called_def Let_def lc split: option.split)
qed

lemma other_sources:
  assumes "wake_chips s"
  shows "\<not> main_chip (line_chip s i) \<Longrightarrow> bit irqwake_intallow b \<Longrightarrow> b + 16 \<noteq> i"
    "line_chip s i \<noteq> S3cExt \<Longrightarrow> bit irqwake_eintallow b \<Longrightarrow> b + 44 \<noteq> i"
proof -
  have m: "main_chip (line_chip s l)" if "l \<in> {16, 17, 18, 19, 46}" for l using assms that by (auto simp: wake_chips_def)
  have e: "line_chip s l = S3cExt" if "48 \<le> l" "l < 60" for l using assms that by (simp add: wake_chips_def)
  show "b + 16 \<noteq> i" if "\<not> main_chip (line_chip s i)" "bit irqwake_intallow b"
  proof -
    have "b + 16 \<in> {16, 17, 18, 19, 46}" using that(2) by (auto simp: allowed_bits)
    then show ?thesis using m that(1) by blast
  qed
  show "b + 44 \<noteq> i" if "line_chip s i \<noteq> S3cExt" "bit irqwake_eintallow b"
    using e [of "b + 44"] that by (auto simp: allowed_bits)
qed

lemma chip_set_wake_kind:
  "main_chip c \<Longrightarrow> chip_set_wake c = Some s3c_irq_wake" "c = S3cExt \<Longrightarrow> chip_set_wake c = Some s3c_irqext_wake"
  "\<not> main_chip c \<Longrightarrow> c \<noteq> S3cExt \<Longrightarrow> chip_set_wake c = None" "\<not> main_chip S3cExt"
  by (auto simp: chip_set_wake_def main_chip_def split: irq_chip.split)

lemma wake_called_inv:
  assumes "wake_chips s" "\<forall>l. wake_depth s l = of_nat (m l)" "m = n(i := if on then Suc c else 0)"
    and f: "mask_follows (irqwake_intmask s) irqwake_intallow (\<lambda>b. n (b + 16))" "mask_follows (irqwake_eintmask s) irqwake_eintallow (\<lambda>b. n (b + 44))"
  shows "wake_inv m (wake_called i on s) \<and> line_chip (wake_called i on s) = line_chip s"
proof -
  have m: "m l = n l" if "l \<noteq> i" for l using that assms(3) by simp
  note o = other_sources [OF assms(1)]
  have i: "mask_follows (irqwake_intmask s) irqwake_intallow (\<lambda>b. m (b + 16))" if "\<not> main_chip (line_chip s i)"
    by (rule mask_follows_same [OF f(1)]) (use o(1) [OF that] m in simp)
  have e: "mask_follows (irqwake_eintmask s) irqwake_eintallow (\<lambda>b. m (b + 44))" if "line_chip s i \<noteq> S3cExt"
    by (rule mask_follows_same [OF f(2)]) (use o(2) [OF that] m in simp)
  consider "main_chip (line_chip s i)" | "line_chip s i = S3cExt" | "\<not> main_chip (line_chip s i)" "line_chip s i \<noteq> S3cExt" by blast
  then show ?thesis
  proof cases
    case 1
    then have r: "16 \<le> i" "i < 48" "line_chip s i \<noteq> S3cExt" using assms(1) chip_set_wake_kind(4) by (auto simp: wake_chips_def)
    have "(\<lambda>b. n (b + 16))(i - 16 := if on then Suc c else 0) = (\<lambda>b. m (b + 16))" using r assms(3) by (auto simp: fun_eq_iff)
    then have "mask_follows (irqwake_intmask (snd (s3c_irq_wake i on s))) irqwake_intallow (\<lambda>b. m (b + 16))"
      using mask_follows_write [OF f(1), of "i - 16" on c] r by (simp add: wake_effect)
    then show ?thesis using 1 assms(2) e [OF r(3)] by (simp add: wake_called_def chip_set_wake_kind(1) wake_inv_def wake_effect)
  next
    case 2
    then have r: "48 \<le> i" "i < 68" "\<not> main_chip (line_chip s i)" using assms(1) chip_set_wake_kind(4) by (auto simp: wake_chips_def)
    have "(\<lambda>b. n (b + 44))(i - 44 := if on then Suc c else 0) = (\<lambda>b. m (b + 44))" using r assms(3) by (auto simp: fun_eq_iff)
    then have "mask_follows (irqwake_eintmask (snd (s3c_irqext_wake i on s))) irqwake_eintallow (\<lambda>b. m (b + 44))"
      using mask_follows_write [OF f(2), of "i - 44" on c] r by (simp add: wake_effect)
    then show ?thesis using 2 assms(2) i [OF r(3)] by (simp add: wake_called_def chip_set_wake_kind(2) wake_inv_def wake_effect)
  next
    case 3
    then show ?thesis using assms(2) i e by (simp add: wake_called_def chip_set_wake_kind(3) wake_inv_def)
  qed
qed

lemma wake_frame [simp]:
  "wake_depth (upd_status i u t) = wake_depth t" "wake_depth (printk f as t) = wake_depth t" "line_chip (upd_status i u t) = line_chip t"
  "line_chip (printk f as t) = line_chip t"
  "irqwake_intmask (upd_status i u t) = irqwake_intmask t" "irqwake_intmask (printk f as t) = irqwake_intmask t"
  "irqwake_eintmask (upd_status i u t) = irqwake_eintmask t" "irqwake_eintmask (printk f as t) = irqwake_eintmask t"
  by (simp_all add: upd_status_def set_desc_def printk_def)

lemma wake_chips_simps [simp]:
  "wake_chips (upd_status i u t) = wake_chips t" "wake_chips (printk f as t) = wake_chips t" "wake_chips (t\<lparr>wake_depth := w\<rparr>) = wake_chips t"
  by (simp_all add: wake_chips_def)

lemma not_called_inv:
  assumes "wake_inv n s" "\<forall>l. wake_depth t l = of_nat (m l)" "\<forall>l. 0 < m l \<longleftrightarrow> 0 < n l"
    "irqwake_intmask t = irqwake_intmask s" "irqwake_eintmask t = irqwake_eintmask s"
  shows "wake_inv m t"
  unfolding wake_inv_def assms(4,5)
proof (intro conjI)
  show "\<forall>l. wake_depth t l = of_nat (m l)" by (rule assms(2))
  show "mask_follows (irqwake_intmask s) irqwake_intallow (\<lambda>b. m (b + 16))"
    by (rule mask_follows_same [where n = "\<lambda>b. n (b + 16)"]) (use assms(1,3) in \<open>auto simp: wake_inv_def\<close>)
  show "mask_follows (irqwake_eintmask s) irqwake_eintallow (\<lambda>b. m (b + 44))"
    by (rule mask_follows_same [where n = "\<lambda>b. n (b + 44)"]) (use assms(1,3) in \<open>auto simp: wake_inv_def\<close>)
qed

lemma called_inv:
  assumes "wake_inv n s" "wake_chips t" "\<forall>l. wake_depth t l = of_nat (m l)" "m = n(i := if on then Suc c else 0)"
    "irqwake_intmask t = irqwake_intmask s" "irqwake_eintmask t = irqwake_eintmask s"
  shows "wake_inv m (wake_called i on t)" "line_chip (wake_called i on t) = line_chip t"
  using wake_called_inv [OF assms(2-4)] assms(1,5,6) by (simp_all add: wake_inv_def)

lemma enable_wake_inv:
  assumes "wake_inv n s" "wake_chips s" "n i < 4294967295"
  shows "wake_inv (n(i := Suc (n i))) (snd (set_irq_wake i True s)) \<and> line_chip (snd (set_irq_wake i True s)) = line_chip s"
proof -
  have d: "wake_depth s l = of_nat (n l)" for l using assms(1) by (simp add: wake_inv_def)
  have z: "wake_depth s i = 0 \<longleftrightarrow> n i = 0" by (simp only: word_unat_eq_iff d of_nat_u32 [OF assms(3)] unat_0)
  let ?t = "s\<lparr>wake_depth := (wake_depth s)(i := wake_depth s i + 1)\<rparr>"
  have dt: "\<forall>l. wake_depth ?t l = of_nat ((n(i := Suc (n i))) l)" by (simp add: d)
  show ?thesis
  proof (cases "n i = 0")
    case True
    let ?u = "upd_status i (\<lambda>st. st OR IRQ_WAKEUP) ?t"
    have "wake_inv (n(i := Suc (n i))) (wake_called i True ?u)" "line_chip (wake_called i True ?u) = line_chip ?u"
      by (rule called_inv [OF assms(1), where c = "n i"]; simp add: assms(2) d)+
    then show ?thesis using True z by (simp add: set_irq_wake_split(1) Let_def)
  next
    case False
    have "wake_inv (n(i := Suc (n i))) ?t" by (rule not_called_inv [OF assms(1) dt]) (use False in simp_all)
    then show ?thesis using False z by (simp add: set_irq_wake_split(1) Let_def)
  qed
qed

lemma disable_wake_inv:
  assumes "wake_inv n s" "wake_chips s" "n i < 4294967295"
  shows "wake_inv (n(i := n i - 1)) (snd (set_irq_wake i False s)) \<and> line_chip (snd (set_irq_wake i False s)) = line_chip s"
proof -
  have d: "wake_depth s l = of_nat (n l)" for l using assms(1) by (simp add: wake_inv_def)
  have z: "wake_depth s i = 0 \<longleftrightarrow> n i = 0" and o: "wake_depth s i = 1 \<longleftrightarrow> n i = 1"
    by (simp_all only: word_unat_eq_iff d of_nat_u32 [OF assms(3)] unat_0 unat_1)
  let ?t = "s\<lparr>wake_depth := (wake_depth s)(i := wake_depth s i - 1)\<rparr>"
  let ?m = "n(i := n i - 1)"
  show ?thesis
  proof (cases "n i = 0")
    case True
    let ?u = "printk ''Unbalanced IRQ %d wake disable'' [int i] s"
    have "wake_inv ?m (wake_called i False ?u)" "line_chip (wake_called i False ?u) = line_chip ?u"
      by (rule called_inv [OF assms(1), where c = 0]; simp add: assms(2) d True)+
    then show ?thesis using True z by (simp add: set_irq_wake_split(2) Let_def)
  next
    case nz: False
    have "of_nat (n i) - (1 :: u32) = of_nat (n i - 1)" using nz by (simp add: of_nat_diff)
    then have dt: "\<forall>l. wake_depth ?t l = of_nat (?m l)" by (simp add: d)
    show ?thesis
    proof (cases "n i = 1")
      case True
      let ?u = "upd_status i (\<lambda>st. st AND NOT IRQ_WAKEUP) ?t"
      have "wake_inv ?m (wake_called i False ?u)" "line_chip (wake_called i False ?u) = line_chip ?u"
        by (rule called_inv [OF assms(1), where c = 0]; simp add: assms(2) d True)+
      then show ?thesis using True z o by (simp add: set_irq_wake_split(2) Let_def)
    next
      case False
      have "wake_inv ?m ?t" by (rule not_called_inv [OF assms(1) dt]) (use False nz in simp_all)
      moreover have "wake_depth s i - 1 \<noteq> 0" using o False by simp
      ultimately show ?thesis using nz z by (simp add: set_irq_wake_split(2) Let_def)
    qed
  qed
qed

section \<open>Any number of calls\<close>

lemma wakeups_snoc:
  "wakeups (cs @ [(i, on)]) = (wakeups cs)(i := if on then Suc (wakeups cs i) else wakeups cs i - 1)"
  by (auto simp: wakeups_def fun_eq_iff)

lemma wakeups_bound: "wakeups cs l \<le> length cs"
proof (induction cs rule: rev_induct)
  case (snoc c cs)
  then show ?case by (cases c) (auto simp: wakeups_snoc)
qed (simp add: wakeups_def)

lemma set_wakes_inv:
  assumes "wake_inv (\<lambda>_. 0) s" "wake_chips s" "length cs < 4294967296"
  shows "wake_inv (wakeups cs) (set_wakes cs s) \<and> line_chip (set_wakes cs s) = line_chip s"
  using assms(3)
proof (induction cs rule: rev_induct)
  case (snoc c cs)
  obtain i on where c: "c = (i, on)" by (cases c)
  have IH: "wake_inv (wakeups cs) (set_wakes cs s)" "line_chip (set_wakes cs s) = line_chip s" using snoc by simp_all
  have w: "wake_chips (set_wakes cs s)" using IH(2) assms(2) by (simp add: wake_chips_def)
  have n: "wakeups cs i < 4294967295" using wakeups_bound [of cs i] snoc.prems by simp
  have step: "set_wakes (cs @ [c]) s = snd (set_irq_wake i on (set_wakes cs s))" by (simp add: set_wakes_def c)
  show ?case
    unfolding step unfolding c wakeups_snoc
    using enable_wake_inv [OF IH(1) w n] disable_wake_inv [OF IH(1) w n] IH(2) by (cases on) (simp_all del: fun_upd_apply add: fun_upd_def)
next
  case Nil
  have "wakeups [] = (\<lambda>_. 0)" by (simp add: wakeups_def fun_eq_iff)
  then show ?case using assms(1) by (simp add: set_wakes_def)
qed

lemma any_allowed_iff:
  assumes "mask_follows m allow n"
  shows "any_allowed m allow \<longleftrightarrow> (\<exists>b < 32. bit allow b \<and> 0 < n b)"
proof -
  have "m AND allow = allow \<longleftrightarrow> (\<forall>b < 32. bit allow b \<longrightarrow> bit m b)"
    using bit_imp_le_length [of allow] by (auto simp: bit_eq_iff bit_and_iff)
  then show ?thesis using assms by (auto simp: any_allowed_def mask_follows_def)
qed

definition wake_lines :: "nat set" where
  "wake_lines = {16, 17, 18, 19, 46} \<union> {48..<60}"

lemma wake_lines_bits:
  "b < 32 \<Longrightarrow> bit irqwake_intallow b \<longleftrightarrow> b + 16 \<in> wake_lines"
  "b < 32 \<Longrightarrow> bit irqwake_eintallow b \<longleftrightarrow> 4 \<le> b \<and> b + 44 \<in> wake_lines"
  "l \<in> wake_lines \<Longrightarrow> (\<exists>b < 32. l = b + 16 \<and> bit irqwake_intallow b) \<or> (\<exists>b < 32. l = b + 44 \<and> bit irqwake_eintallow b)"
proof -
  show "b < 32 \<Longrightarrow> bit irqwake_intallow b \<longleftrightarrow> b + 16 \<in> wake_lines" by (auto simp: allowed_bits wake_lines_def)
  show "b < 32 \<Longrightarrow> bit irqwake_eintallow b \<longleftrightarrow> 4 \<le> b \<and> b + 44 \<in> wake_lines" by (auto simp: allowed_bits wake_lines_def)
  assume "l \<in> wake_lines"
  then have "16 \<le> l \<and> l < 20 \<or> l = 46 \<or> 48 \<le> l \<and> l < 60" by (auto simp: wake_lines_def)
  then show "(\<exists>b < 32. l = b + 16 \<and> bit irqwake_intallow b) \<or> (\<exists>b < 32. l = b + 44 \<and> bit irqwake_eintallow b)"
  proof (elim disjE)
    assume "16 \<le> l \<and> l < 20"
    then show ?thesis by (intro disjI1 exI [of _ "l - 16"]) (auto simp: allowed_bits)
  next
    assume "l = 46"
    then show ?thesis by (intro disjI1 exI [of _ 30]) (auto simp: allowed_bits)
  next
    assume "48 \<le> l \<and> l < 60"
    then show ?thesis by (intro disjI2 exI [of _ "l - 44"]) (auto simp: allowed_bits)
  qed
qed

lemma pin_frame [simp]:
  "irqwake_intmask (check_resume_pin p k s) = irqwake_intmask s" "irqwake_eintmask (check_resume_pin p k s) = irqwake_eintmask s"
  by (simp_all add: check_resume_pin_def s3c2410_gpio_cfgpin_def set_gpcon_def Let_def split: gpcon.split prod.split)

lemma fold_pin_frame:
  "irqwake_intmask (fold (\<lambda>p. check_resume_pin p (k p)) ps s) = irqwake_intmask s"
  "irqwake_eintmask (fold (\<lambda>p. check_resume_pin p (k p)) ps s) = irqwake_eintmask s"
  by (induction ps arbitrary: s) simp_all

lemma configure_frame [simp]:
  "irqwake_intmask (configure_extint s) = irqwake_intmask s" "irqwake_eintmask (configure_extint s) = irqwake_eintmask s"
  unfolding configure_extint_def by (simp_all only: fold_pin_frame)

lemma fall_asleep:
  fixes s :: "'a pmboard_scheme"
  defines "wake \<equiv> any_allowed (irqwake_intmask s) irqwake_intallow \<or> any_allowed (irqwake_eintmask s) irqwake_eintallow"
  shows "fst (pm_fall_asleep True s) = 0 \<longleftrightarrow> wake"
    "wake \<Longrightarrow> intmsk (snd (pm_fall_asleep True s)) = irqwake_intmask s" "wake \<Longrightarrow> eintmask (snd (pm_fall_asleep True s)) = irqwake_eintmask s"
    "wake \<Longrightarrow> eintpend (snd (pm_fall_asleep True s)) = 0 \<and> intpnd (snd (pm_fall_asleep True s)) = 0 \<and> srcpnd (snd (pm_fall_asleep True s)) = 0"
proof -
  have w: "(\<not> any_allowed (irqwake_intmask s) irqwake_intallow \<and> \<not> any_allowed (irqwake_eintmask s) irqwake_eintallow) = (\<not> wake)"
    by (auto simp: wake_def)
  note pf = pm_fall_asleep_def [of True s, unfolded w]
  show "fst (pm_fall_asleep True s) = 0 \<longleftrightarrow> wake" by (simp add: pf Let_def)
  show "wake \<Longrightarrow> intmsk (snd (pm_fall_asleep True s)) = irqwake_intmask s" "wake \<Longrightarrow> eintmask (snd (pm_fall_asleep True s)) = irqwake_eintmask s"
    "wake \<Longrightarrow> eintpend (snd (pm_fall_asleep True s)) = 0 \<and> intpnd (snd (pm_fall_asleep True s)) = 0 \<and> srcpnd (snd (pm_fall_asleep True s)) = 0"
    by (simp_all add: pf write_eintpend_def Let_def)
qed

lemma board_chips:
  assumes "\<forall>l. line_chip b l = NoIrqChip" "chip_ops b = []"
  shows "wake_chips (board_irqs b)"
proof -
  have c: "line_chip (board_irqs b) l = (if l \<in> {22, 25, 40} then S3cLevel else if l \<in> {81, 82} then S3cCam
       else if l \<in> {83, 84} then S3cWdtac97 else init_chip l NoIrqChip)" for l
    using board_irqs_lines(2) [OF assms(2)] assms(1) by simp
  note df = init_chip_def demuxer_def source_line_def main_chip_def
  show ?thesis
    unfolding wake_chips_def c
  proof (intro conjI allI impI ballI)
    fix l assume "main_chip (if l \<in> {22, 25, 40} then S3cLevel else if l \<in> {81, 82} then S3cCam
       else if l \<in> {83, 84} then S3cWdtac97 else init_chip l NoIrqChip)"
    then have "16 \<le> l \<and> l < 48" by (cases l rule: line_ranges) (simp_all add: df split: if_split_asm)
    then show "16 \<le> l" "l < 48" by simp_all
  next
    fix l assume "(if l \<in> {22, 25, 40} then S3cLevel else if l \<in> {81, 82} then S3cCam
       else if l \<in> {83, 84} then S3cWdtac97 else init_chip l NoIrqChip) = S3cExt"
    then have "48 \<le> l \<and> l < 68" by (cases l rule: line_ranges) (simp_all add: df split: if_split_asm)
    then show "48 \<le> l" "l < 68" by simp_all
  next
    fix l :: nat assume "l \<in> {16, 17, 18, 19, 46}"
    then show "main_chip (if l \<in> {22, 25, 40} then S3cLevel else if l \<in> {81, 82} then S3cCam
       else if l \<in> {83, 84} then S3cWdtac97 else init_chip l NoIrqChip)" by (elim insertE emptyE) (simp_all add: df)
  next
    fix l :: nat assume "48 \<le> l \<and> l < 60"
    then show "(if l \<in> {22, 25, 40} then S3cLevel else if l \<in> {81, 82} then S3cCam
       else if l \<in> {83, 84} then S3cWdtac97 else init_chip l NoIrqChip) = S3cExt" by (simp add: df)
  qed
qed

lemma board_wake:
  fixes b :: "'a pmboard_scheme"
  assumes "chip_ops b = []"
  shows "wake_depth (board_irqs b) = wake_depth b" "irqwake_intmask (board_irqs b) = irqwake_intmask b"
    "irqwake_eintmask (board_irqs b) = irqwake_eintmask b"
proof -
  have f: "wake_depth (on_line i g c t) = wake_depth t" "wake_depth (on_lines ls g' c' t) = wake_depth t" "wake_depth (chip_do op t) = wake_depth t"
    "irqwake_intmask (on_line i g c t) = irqwake_intmask t" "irqwake_intmask (on_lines ls g' c' t) = irqwake_intmask t" "irqwake_intmask (chip_do op t) = irqwake_intmask t"
    "irqwake_eintmask (on_line i g c t) = irqwake_eintmask t" "irqwake_eintmask (on_lines ls g' c' t) = irqwake_eintmask t" "irqwake_eintmask (chip_do op t) = irqwake_eintmask t"
    for i g c ls g' c' op and t :: "'a pmboard_scheme"
    by (simp_all add: on_line_def on_lines_def chip_do_def)
  have "wake_depth (beside u) = wake_depth u" "irqwake_intmask (beside u) = irqwake_intmask u" "irqwake_eintmask (beside u) = irqwake_eintmask u"
    for u :: "'a pmboard_scheme" by (simp_all add: beside_def)
  moreover have "wake_depth (clear_all u) = wake_depth u" "irqwake_intmask (clear_all u) = irqwake_intmask u" "irqwake_eintmask (clear_all u) = irqwake_eintmask u"
    for u :: "'a pmboard_scheme"
    by (simp_all add: clear_all_def numeral_eq_Suc Let_def write_eintpend_def write_pnd_def write_subsrcpnd_def printk_def)
  ultimately have "wake_depth (init_IRQ b) = wake_depth b" "irqwake_intmask (init_IRQ b) = irqwake_intmask b" "irqwake_eintmask (init_IRQ b) = irqwake_eintmask b"
    using init_IRQ_lines(4) [OF assms] by metis+
  then show "wake_depth (board_irqs b) = wake_depth b" "irqwake_intmask (board_irqs b) = irqwake_intmask b"
    "irqwake_eintmask (board_irqs b) = irqwake_eintmask b"
    by (simp_all add: board_irqs_def s3c2440_irq_add_eq s3c244x_irq_add_eq f)
qed

text \<open>
  C18. The board can be put to sleep exactly when something can wake it. After the boot, however often
  waking is enabled and disabled on which lines, nested and unbalanced calls included,
  \<open>s3c2410_pm_enter\<close> refuses unless waking is enabled for one of the external lines 0 to 15 or
  the clock. When it goes on, nothing is pending, and of all sources exactly those lines are open at
  the controller.
\<close>

theorem sleep_needs_wakeup:
  fixes b :: "'a pmboard_scheme"
  assumes "\<forall>l. line_chip b l = NoIrqChip" "chip_ops b = []" "\<forall>l. wake_depth b l = 0"
    "irqwake_intmask b = 0xffffffff" "irqwake_eintmask b = 0xffffffff" "length cs < 4294967296"
  shows "let s = set_wakes cs (board_irqs b); s' = snd (pm_fall_asleep True s) in
    (fst (pm_fall_asleep True s) = 0 \<longleftrightarrow> (\<exists>l \<in> wake_lines. 0 < wakeups cs l)) \<and>
    (fst (pm_fall_asleep True s) = 0 \<longrightarrow> eintpend s' = 0 \<and> intpnd s' = 0 \<and> srcpnd s' = 0 \<and>
       (\<forall>k < 32. bit (intmsk s') k \<longleftrightarrow> \<not> (k + 16 \<in> wake_lines \<and> 0 < wakeups cs (k + 16))) \<and>
       (\<forall>k < 32. bit (eintmask s') k \<longleftrightarrow> \<not> (4 \<le> k \<and> k + 44 \<in> wake_lines \<and> 0 < wakeups cs (k + 44))))"
proof -
  let ?b = "board_irqs b" and ?s = "set_wakes cs (board_irqs b)"
  have ff: "(0xffffffff :: u32) = mask 32" by (simp add: mask_eq_exp_minus_1)
  have "wake_inv (\<lambda>_. 0) ?b"
    unfolding wake_inv_def board_wake [OF assms(2)] mask_follows_def assms(4,5) ff using assms(3) by (simp add: bit_mask_iff)
  then have inv: "wake_inv (wakeups cs) ?s" using set_wakes_inv [OF _ board_chips [OF assms(1,2)] assms(6)] by blast
  then have m: "mask_follows (irqwake_intmask ?s) irqwake_intallow (\<lambda>k. wakeups cs (k + 16))"
    "mask_follows (irqwake_eintmask ?s) irqwake_eintallow (\<lambda>k. wakeups cs (k + 44))" by (simp_all add: wake_inv_def)
  have w: "any_allowed (irqwake_intmask ?s) irqwake_intallow \<or> any_allowed (irqwake_eintmask ?s) irqwake_eintallow \<longleftrightarrow>
      (\<exists>l \<in> wake_lines. 0 < wakeups cs l)"
    unfolding any_allowed_iff [OF m(1)] any_allowed_iff [OF m(2)] using wake_lines_bits by blast
  have i: "bit (irqwake_intmask ?s) k \<longleftrightarrow> \<not> (k + 16 \<in> wake_lines \<and> 0 < wakeups cs (k + 16))"
    "bit (irqwake_eintmask ?s) k \<longleftrightarrow> \<not> (4 \<le> k \<and> k + 44 \<in> wake_lines \<and> 0 < wakeups cs (k + 44))" if "k < 32" for k
    using m that by (auto simp: mask_follows_def wake_lines_bits(1,2))
  note f = fall_asleep [of ?s, unfolded w]
  show ?thesis unfolding Let_def f(1)
    by (intro conjI impI refl allI; use f(2-4) i in \<open>simp\<close>)
qed

section \<open>The pins while asleep\<close>

definition ext_pins :: "nat set" where
  "ext_pins = {160..<168} \<union> {192..<200}"

lemma ext_pins_base:
  assumes "p \<in> ext_pins"
  shows "gpio_offset p < 8" "gpio_base p = (if p < 192 then GPFCON else GPGCON)" "p = (if p < 192 then 160 else 192) + gpio_offset p"
proof -
  have "160 \<le> p \<and> p < 168 \<or> 192 \<le> p \<and> p < 200" using assms by (auto simp: ext_pins_def)
  then have "p - 160 < 8 \<and> p = 160 + (p - 160) \<or> p - 192 < 8 \<and> p = 192 + (p - 192)" by linarith
  then obtain k where k: "k < 8" "p = 160 + k \<or> p = 192 + k" by blast
  have "(32 * 5 + k) mod 32 = k" "(32 * 6 + k) mod 32 = k" using k(1) by (simp_all only: mod_mult_self4) simp_all
  then have "p mod 32 = k" using k(2) by auto
  then show "gpio_offset p < 8" "gpio_base p = (if p < 192 then GPFCON else GPGCON)" "p = (if p < 192 then 160 else 192) + gpio_offset p"
    using k by (auto simp: gpio_offset_def gpio_base_def S3C2410_GPG0_def)
qed

lemma cfg_input:
  "s3c2410_gpio_cfgpin p S3C2410_GPIO_INPUT s = set_gpcon (gpio_base p) (\<lambda>con. con AND NOT (push_bit (gpio_offset p * 2) (mask 2))) s"
proof -
  have "(3 :: u32) = mask 2" "(0xFFFFFFF0 AND 3 :: u32) = 0" by (simp_all add: mask_eq_exp_minus_1)
  then show ?thesis by (simp add: s3c2410_gpio_cfgpin_def S3C2410_GPIO_INPUT_def S3C2410_GPIO_LEAVE_def)
qed

lemma getcfg_input:
  assumes "p \<in> ext_pins" "q \<in> ext_pins"
  shows "s3c2410_gpio_getcfg q (s3c2410_gpio_cfgpin p S3C2410_GPIO_INPUT s) = (if q = p then S3C2410_GPIO_INPUT else s3c2410_gpio_getcfg q s)"
proof -
  note p = ext_pins_base [OF assms(1)] and q = ext_pins_base [OF assms(2)]
  have t: "(3 :: u32) = mask 2" by (simp add: mask_eq_exp_minus_1)
  have f: "drop_bit (a * 2) (con AND NOT (push_bit (b * 2) (mask 2))) AND mask 2 = (if a = b then 0 else drop_bit (a * 2) con AND mask 2)"
    for a b and con :: u32
    by (intro bit_word_eqI) (auto simp: bit_and_iff bit_drop_bit_eq bit_not_iff bit_push_bit_iff bit_mask_iff dest: bit_imp_le_length)
  have "gpio_base p = gpio_base q \<and> gpio_offset q = gpio_offset p \<longleftrightarrow> q = p"
    using p q by (metis gpcon.distinct(1))
  then have same: "gpio_base q = gpio_base p \<Longrightarrow> gpio_offset q = gpio_offset p \<longleftrightarrow> q = p" by auto
  show ?thesis
  proof (cases "gpio_base q = gpio_base p")
    case True
    then show ?thesis unfolding s3c2410_gpio_getcfg_def cfg_input t gpcon_of_simps True if_P [OF refl] f same [OF True] by simp
  next
    case False
    then have "q \<noteq> p" by auto
    then show ?thesis unfolding s3c2410_gpio_getcfg_def cfg_input gpcon_of_simps using False by simp
  qed
qed

lemma fold_pins:
  assumes "\<forall>p \<in> set ps. p \<in> ext_pins" "distinct ps" "q \<in> ext_pins"
  shows "s3c2410_gpio_getcfg q (fold (\<lambda>p. check_resume_pin p (k p)) ps s) =
    (if q \<in> set ps \<and> s3c2410_gpio_getcfg q s = S3C2410_GPIO_IRQ \<and>
        bit (if k q < 4 then irqwake_intmask s else irqwake_eintmask s) (k q)
     then S3C2410_GPIO_INPUT else s3c2410_gpio_getcfg q s)"
  using assms(1,2)
proof (induction ps arbitrary: s)
  case (Cons p ps)
  have "s3c2410_gpio_getcfg q (check_resume_pin p (k p) s) =
    (if q = p \<and> s3c2410_gpio_getcfg q s = S3C2410_GPIO_IRQ \<and> bit (if k q < 4 then irqwake_intmask s else irqwake_eintmask s) (k q)
     then S3C2410_GPIO_INPUT else s3c2410_gpio_getcfg q s)"
    unfolding check_resume_pin_def Let_def and_bit_0 if_distrib [of "\<lambda>x. x \<noteq> 0"] using Cons.prems(1) assms(3) by (auto simp: getcfg_input)
  moreover have "S3C2410_GPIO_INPUT \<noteq> S3C2410_GPIO_IRQ" by (simp add: S3C2410_GPIO_INPUT_def S3C2410_GPIO_IRQ_def)
  ultimately show ?case using Cons by auto
qed simp

text \<open>A pin stays an interrupt input while the board sleeps only if its line may wake the board.\<close>

theorem sleep_pins:
  assumes "q \<in> ext_pins"
  shows "s3c2410_gpio_getcfg q (configure_extint s) =
    (let k = (if q < 192 then q - 160 else q - 192 + 8) in
     if s3c2410_gpio_getcfg q s = S3C2410_GPIO_IRQ \<and> bit (if k < 4 then irqwake_intmask s else irqwake_eintmask s) k
     then S3C2410_GPIO_INPUT else s3c2410_gpio_getcfg q s)"
proof -
  let ?F = "[S3C2410_GPF0..<S3C2410_GPF0 + 8]" and ?G = "[S3C2410_GPG0..<S3C2410_GPG0 + 8]"
  let ?f = "fold (\<lambda>p. check_resume_pin p (p - S3C2410_GPF0)) ?F s"
  have l: "set ?F = {160..<168}" "set ?G = {192..<200}" "distinct ?F" "distinct ?G"
    unfolding set_upt S3C2410_GPF0_def S3C2410_GPG0_def by (simp_all only: distinct_upt) simp_all
  have p: "\<forall>p \<in> set ?F. p \<in> ext_pins" "\<forall>p \<in> set ?G. p \<in> ext_pins" unfolding l by (auto simp: ext_pins_def)
  have m: "irqwake_intmask ?f = irqwake_intmask s" "irqwake_eintmask ?f = irqwake_eintmask s" by (simp_all only: fold_pin_frame)
  note F = fold_pins [OF p(1) l(3) assms, of "\<lambda>p. p - S3C2410_GPF0" s, unfolded l]
  note G = fold_pins [OF p(2) l(4) assms, of "\<lambda>p. p - S3C2410_GPG0 + 8" ?f, unfolded l m]
  show ?thesis
  proof (cases "q < 192")
    case True
    then have "q \<in> {160..<168}" "q \<notin> {192..<200}" using assms by (auto simp: ext_pins_def)
    then show ?thesis using True unfolding configure_extint_def G F by (simp add: S3C2410_GPF0_def)
  next
    case False
    then have "q \<notin> {160..<168}" "q \<in> {192..<200}" using assms by (auto simp: ext_pins_def)
    then show ?thesis using False unfolding configure_extint_def G F by (simp add: S3C2410_GPG0_def)
  qed
qed

section \<open>Waking up\<close>

text \<open>
  C35. Sleeping loses no setting of the interrupts. Whatever becomes of the registers between the
  suspend and the resume, afterwards the triggers and the filters of the external lines and the
  three masks are what they were, and nothing else has been touched.
\<close>

theorem resume_restores:
  fixes s t :: "'a pmboard_scheme"
  assumes "save_extint t = save_extint (s3c24xx_irq_suspend s)" "save_eintflt t = save_eintflt (s3c24xx_irq_suspend s)"
    "save_regs t = save_regs (s3c24xx_irq_suspend s)" "save_eintmask t = save_eintmask (s3c24xx_irq_suspend s)"
  shows "let r = s3c24xx_irq_resume t in
    (\<forall>i < 3. extint r i = extint s i) \<and> (\<forall>i < 4. eintflt r i = eintflt s i) \<and>
    intmsk r = intmsk s \<and> intsubmsk r = intsubmsk s \<and> eintmask r = eintmask s \<and>
    srcpnd r = srcpnd t \<and> intpnd r = intpnd t \<and> eintpend r = eintpend t \<and> subsrcpnd r = subsrcpnd t \<and> descs r = descs t"
proof -
  have up: "[0..<3] = [0, 1, 2 :: nat]" "[0..<4] = [0, 1, 2, 3 :: nat]" by (simp_all add: upt_rec)
  have l3: "i = 0 \<or> i = 1 \<or> i = 2" if "i < 3" for i :: nat using that by auto
  have l4: "i = 0 \<or> i = 1 \<or> i = 2 \<or> i = 3" if "i < 4" for i :: nat using that by auto
  have sv: "save_extint t 0 = extint s 0" "save_extint t 1 = extint s 1" "save_extint t 2 = extint s 2"
    "save_eintflt t 0 = eintflt s 0" "save_eintflt t 1 = eintflt s 1" "save_eintflt t 2 = eintflt s 2" "save_eintflt t 3 = eintflt s 3"
    "save_regs t = [intmsk s, intsubmsk s]" "save_eintmask t = eintmask s"
    unfolding assms by (simp_all add: s3c24xx_irq_suspend_def pm_do_save_def irq_save_def reg_readl_def Let_def up)
  show ?thesis
    by (auto simp: s3c24xx_irq_resume_def pm_do_restore_def irq_save_def reg_writel_def printk_def Let_def sv sv [unfolded One_nat_def] up dest!: l3 l4)
qed

definition pm_board :: pmboard where
  "pm_board = s3cboard.extend (irqboard.extend irq_board
     (s3cboard.fields (\<lambda>_. NoIrqChip) 0 0 0 0xffffffff 0 0xfffff0 0 0x7fff (\<lambda>_. 0) 0))
     (pmboard.fields (\<lambda>_. 0) 0xffffffff 0xffffffff [] (\<lambda>_. 0) (\<lambda>_. 0) 0 (\<lambda>_. 0))"

lemma pm_board_simps:
  "line_chip pm_board = (\<lambda>_. NoIrqChip)" "chip_ops pm_board = []" "wake_depth pm_board = (\<lambda>_. 0)"
  "irqwake_intmask pm_board = 0xffffffff" "irqwake_eintmask pm_board = 0xffffffff" "intmsk pm_board = 0xffffffff"
  "eintmask pm_board = 0xfffff0"
  by (simp_all add: pm_board_def irq_board_def irqboard.extend_def s3cboard.fields_def s3cboard.extend_def pmboard.fields_def)

text \<open>The fourth key cannot wake the board, the second can.\<close>

lemma sleep_needs_wakeup_witness:
  "fst (pm_fall_asleep True (set_wakes [(63, True), (18, True), (18, True), (18, False)] (board_irqs pm_board))) = 0 \<and>
   fst (pm_fall_asleep True (set_wakes [(63, True), (18, True), (18, False)] (board_irqs pm_board))) \<noteq> 0"
proof -
  have s: "fst (pm_fall_asleep True (set_wakes cs (board_irqs pm_board))) = 0 \<longleftrightarrow> (\<exists>l \<in> wake_lines. 0 < wakeups cs l)"
    if "length cs < 4294967296" for cs
    using sleep_needs_wakeup [of pm_board cs] that by (simp add: pm_board_simps Let_def)
  have "18 \<in> wake_lines" "63 \<notin> wake_lines" by (simp_all add: wake_lines_def)
  moreover have "wakeups [(63, True), (18, True), (18, True), (18, False)] 18 = 1"
    "wakeups [(63, True), (18, True), (18, False)] l = (if l = 63 then 1 else 0)" for l by (simp_all add: wakeups_def)
  ultimately show ?thesis by (auto simp: s intro!: bexI [of _ 18])
qed

lemma resume_restores_witness:
  "intmsk (s3c24xx_irq_resume ((s3c24xx_irq_suspend pm_board)\<lparr>intmsk := 0, eintmask := 0\<rparr>)) = 0xffffffff \<and>
   eintmask (s3c24xx_irq_resume ((s3c24xx_irq_suspend pm_board)\<lparr>intmsk := 0, eintmask := 0\<rparr>)) = 0xfffff0"
  using resume_restores [of "(s3c24xx_irq_suspend pm_board)\<lparr>intmsk := 0, eintmask := 0\<rparr>" pm_board]
  by (simp add: pm_board_simps Let_def)

end
