(* ===== verification/MutexDemo.thy ===== *)
theory MutexDemo
  imports Main
begin

text \<open>
  The mutex demonstration (wen/mutex/mutex1.c): two threads increment a global variable a hundred
  times each, reading it, sleeping and writing it back under a mutex, and \<open>main\<close> prints it when
  both have ended. The program is a relation of steps of its three threads, interleaved in any
  order; a step is the code between two points at which the scheduler can switch. A thread at
  \<open>pthread_mutex_lock\<close> or \<open>pthread_join\<close> has no step while it must wait.
\<close>

section \<open>The program\<close>

text \<open>Where a thread is, with its local variables \<open>i\<close> and \<open>t\<close>.\<close>

datatype tpc = TIdle | TStart | TLock nat | TLoad nat | TSleep nat int | TStore nat int
  | TSleep2 nat | TUnlock nat | TDone

datatype mpc = MCreate nat | MJoin nat | MPrint | MDone

record mutex_state =
  gValue :: int
  gMutex :: "nat option"
  tpcs :: "nat \<Rightarrow> tpc"
  mainpc :: mpc
  printed :: "int list"

definition goes :: "nat \<Rightarrow> tpc \<Rightarrow> mutex_state \<Rightarrow> mutex_state" where
  "goes tid pc s = s\<lparr>tpcs := (tpcs s)(tid := pc)\<rparr>"

definition thread_step :: "nat \<Rightarrow> mutex_state \<Rightarrow> mutex_state option" where
  "thread_step tid s =
     (case tpcs s tid of
        TIdle \<Rightarrow> None
      | TStart \<Rightarrow> Some (goes tid (TLock 0) s)
      | TLock i \<Rightarrow> (if i < 100
                     then (if gMutex s = None then Some (goes tid (TLoad i) (s\<lparr>gMutex := Some tid\<rparr>)) else None)
                     else Some (goes tid TDone s))
      | TLoad i \<Rightarrow> Some (goes tid (TSleep i (gValue s)) s)
      | TSleep i t \<Rightarrow> Some (goes tid (TStore i t) s)
      | TStore i t \<Rightarrow> Some (goes tid (TSleep2 i) (s\<lparr>gValue := t + 1\<rparr>))
      | TSleep2 i \<Rightarrow> Some (goes tid (TUnlock i) s)
      | TUnlock i \<Rightarrow> Some (goes tid (TLock (Suc i)) (s\<lparr>gMutex := None\<rparr>))
      | TDone \<Rightarrow> None)"

definition main_step :: "mutex_state \<Rightarrow> mutex_state option" where
  "main_step s =
     (case mainpc s of
        MCreate i \<Rightarrow> (if i < 2 then Some (goes i TStart (s\<lparr>mainpc := MCreate (Suc i)\<rparr>))
                       else Some (s\<lparr>mainpc := MJoin 0\<rparr>))
      | MJoin i \<Rightarrow> (if i < 2 then (if tpcs s i = TDone then Some (s\<lparr>mainpc := MJoin (Suc i)\<rparr>) else None)
                     else Some (s\<lparr>mainpc := MPrint\<rparr>))
      | MPrint \<Rightarrow> Some (s\<lparr>mainpc := MDone, printed := printed s @ [gValue s]\<rparr>)
      | MDone \<Rightarrow> None)"

inductive mstep :: "mutex_state \<Rightarrow> mutex_state \<Rightarrow> bool" where
  thread: "tid < 2 \<Longrightarrow> thread_step tid s = Some s' \<Longrightarrow> mstep s s'"
| main: "main_step s = Some s' \<Longrightarrow> mstep s s'"

definition mutex_init :: mutex_state where
  "mutex_init = \<lparr>gValue = 0, gMutex = None, tpcs = (\<lambda>_. TIdle), mainpc = MCreate 0, printed = []\<rparr>"

inductive reachable :: "mutex_state \<Rightarrow> bool" where
  init: "reachable mutex_init"
| step: "reachable s \<Longrightarrow> mstep s s' \<Longrightarrow> reachable s'"

section \<open>The invariant\<close>

fun inside :: "tpc \<Rightarrow> bool" where
  "inside (TLoad i) = True"
| "inside (TSleep i t) = True"
| "inside (TStore i t) = True"
| "inside (TSleep2 i) = True"
| "inside (TUnlock i) = True"
| "inside pc = False"

text \<open>How many increments a thread has written.\<close>

fun increments :: "tpc \<Rightarrow> nat" where
  "increments (TLock i) = i"
| "increments (TLoad i) = i"
| "increments (TSleep i t) = i"
| "increments (TStore i t) = i"
| "increments (TSleep2 i) = Suc i"
| "increments (TUnlock i) = Suc i"
| "increments TDone = 100"
| "increments pc = 0"

fun pc_ok :: "int \<Rightarrow> tpc \<Rightarrow> bool" where
  "pc_ok g (TLock i) = (i \<le> 100)"
| "pc_ok g (TLoad i) = (i < 100)"
| "pc_ok g (TSleep i t) = (i < 100 \<and> t = g)"
| "pc_ok g (TStore i t) = (i < 100 \<and> t = g)"
| "pc_ok g (TSleep2 i) = (i < 100)"
| "pc_ok g (TUnlock i) = (i < 100)"
| "pc_ok g pc = True"

fun created :: "mpc \<Rightarrow> nat" where
  "created (MCreate i) = i"
| "created pc = 2"

fun joined :: "mpc \<Rightarrow> nat" where
  "joined (MCreate i) = 0"
| "joined (MJoin i) = i"
| "joined pc = 2"

text \<open>What holds of one thread, given the global variable, the mutex, and how far \<open>main\<close> is.\<close>

definition tpc_ok :: "int \<Rightarrow> nat option \<Rightarrow> nat \<Rightarrow> nat \<Rightarrow> nat \<Rightarrow> tpc \<Rightarrow> bool" where
  "tpc_ok g m cr jo tid pc \<longleftrightarrow> pc_ok g pc \<and> (inside pc \<longleftrightarrow> m = Some tid) \<and> (pc = TIdle \<longleftrightarrow> cr \<le> tid) \<and>
     (tid < jo \<longrightarrow> pc = TDone)"

definition minv :: "mutex_state \<Rightarrow> bool" where
  "minv s \<longleftrightarrow> gValue s = int (increments (tpcs s 0) + increments (tpcs s 1)) \<and>
     (\<forall>tid < 2. tpc_ok (gValue s) (gMutex s) (created (mainpc s)) (joined (mainpc s)) tid (tpcs s tid)) \<and>
     (\<forall>tid. gMutex s = Some tid \<longrightarrow> tid < 2) \<and> created (mainpc s) \<le> 2 \<and> joined (mainpc s) \<le> 2 \<and>
     printed s = (if mainpc s = MDone then [200] else [])"

lemma minvD:
  assumes "minv s"
  shows "u < 2 \<Longrightarrow> tpc_ok (gValue s) (gMutex s) (created (mainpc s)) (joined (mainpc s)) u (tpcs s u)"
    "gValue s = int (increments (tpcs s 0) + increments (tpcs s 1))"
    "gMutex s = Some u \<Longrightarrow> u < 2" "created (mainpc s) \<le> 2" "joined (mainpc s) \<le> 2"
    "printed s = (if mainpc s = MDone then [200] else [])"
  using assms unfolding minv_def by blast+

lemma minv_init: "minv mutex_init"
  by (simp add: minv_def mutex_init_def tpc_ok_def)

text \<open>The effect of a step of thread \<open>tid\<close> on itself and on what the other thread sees.\<close>

lemma thread_step_effect:
  assumes "thread_step tid s = Some s'" "tpc_ok (gValue s) (gMutex s) cr jo tid (tpcs s tid)"
  shows "tpc_ok (gValue s') (gMutex s') cr jo tid (tpcs s' tid)"
    "(gMutex s' = gMutex s \<and> gValue s' = gValue s) \<or> (gMutex s = None \<and> gMutex s' = Some tid \<and> gValue s' = gValue s) \<or>
     (gMutex s = Some tid \<and> gMutex s' \<in> {None, Some tid})"
    "gValue s' - int (increments (tpcs s' tid)) = gValue s - int (increments (tpcs s tid))"
    "u \<noteq> tid \<Longrightarrow> tpcs s' u = tpcs s u" "mainpc s' = mainpc s" "printed s' = printed s"
    "gMutex s' \<in> {gMutex s, None, Some tid}"
  using assms
  by (cases "tpcs s tid"; simp add: thread_step_def goes_def tpc_ok_def split: if_splits; fastforce)+

lemma pc_ok_outside: "\<not> inside pc \<Longrightarrow> pc_ok g pc \<Longrightarrow> pc_ok g' pc"
  by (cases pc) auto

lemma tpc_ok_other:
  assumes "tpc_ok g m cr jo u pc" "u \<noteq> tid"
    "(m' = m \<and> g' = g) \<or> (m = None \<and> m' = Some tid \<and> g' = g) \<or> (m = Some tid \<and> m' \<in> {None, Some tid})"
  shows "tpc_ok g' m' cr jo u pc"
  using assms pc_ok_outside [of pc g g'] by (auto simp: tpc_ok_def)

lemma minv_thread:
  assumes i: "minv s" and t: "tid < 2" and st: "thread_step tid s = Some s'"
  shows "minv s'"
proof -
  let ?cr = "created (mainpc s)" and ?jo = "joined (mainpc s)"
  note ok = minvD(1) [OF i]
  note e = thread_step_effect [OF st ok [OF t]]
  have "tpc_ok (gValue s') (gMutex s') ?cr ?jo u (tpcs s' u)" if "u < 2" for u
    using e(1) tpc_ok_other [OF ok [OF that] _ e(2)] e(4) by (cases "u = tid") auto
  moreover have "gValue s' = int (increments (tpcs s' 0) + increments (tpcs s' 1))"
  proof -
    have "tid = 0 \<or> tid = 1" using t by auto
    then show ?thesis using minvD(2) [OF i] e(3) e(4) [of 0] e(4) [of 1] by auto
  qed
  moreover have "\<forall>u. gMutex s' = Some u \<longrightarrow> u < 2" using e(7) minvD(3) [OF i] t by auto
  ultimately show ?thesis using minvD(4-6) [OF i] e(5,6) unfolding minv_def by metis
qed

lemma minv_main:
  assumes i: "minv s" and st: "main_step s = Some s'"
  shows "minv s'"
proof -
  note ok = minvD(1) [OF i]
  note g = minvD(2) [OF i]
  show ?thesis
  proof (cases "mainpc s")
    case (MCreate k)
    show ?thesis
    proof (cases "k < 2")
      case True
      have s': "s' = goes k TStart (s\<lparr>mainpc := MCreate (Suc k)\<rparr>)" using st MCreate True by (simp add: main_step_def)
      have idle: "tpcs s k = TIdle" using ok [OF True] MCreate by (simp add: tpc_ok_def)
      have "tpc_ok (gValue s') (gMutex s') (created (mainpc s')) (joined (mainpc s')) u (tpcs s' u)" if "u < 2" for u
        using ok [OF that] MCreate idle by (auto simp: s' goes_def tpc_ok_def)
      moreover have "k = 0 \<or> k = 1" using True by auto
      ultimately show ?thesis using i g idle MCreate by (auto simp: minv_def s' goes_def)
    next
      case False
      then show ?thesis using i st MCreate by (auto simp: main_step_def minv_def)
    qed
  next
    case (MJoin k)
    show ?thesis
    proof (cases "k < 2")
      case True
      have s': "s' = s\<lparr>mainpc := MJoin (Suc k)\<rparr>" and d: "tpcs s k = TDone"
        using st MJoin True by (auto simp: main_step_def split: if_splits)
      have "tpc_ok (gValue s') (gMutex s') (created (mainpc s')) (joined (mainpc s')) u (tpcs s' u)" if "u < 2" for u
        using ok [OF that] MJoin d by (auto simp: s' tpc_ok_def less_Suc_eq)
      then show ?thesis using i MJoin True by (auto simp: minv_def s')
    next
      case False
      then have "k = 2" using i MJoin by (simp add: minv_def)
      then show ?thesis using i st MJoin by (auto simp: main_step_def minv_def)
    qed
  next
    case MPrint
    then have "tpcs s 0 = TDone" "tpcs s 1 = TDone" using ok [of 0] ok [of 1] by (simp_all add: tpc_ok_def)
    then show ?thesis using i st MPrint by (auto simp: main_step_def minv_def)
  next
    case MDone
    then show ?thesis using st by (simp add: main_step_def)
  qed
qed

lemma minv_reachable: "reachable s \<Longrightarrow> minv s"
proof (induction rule: reachable.induct)
  case init
  show ?case by (rule minv_init)
next
  case (step s s')
  from step.hyps(2) show ?case
    by cases (use step.IH minv_thread minv_main in blast)+
qed

text \<open>
  The mutex protects the counter, whatever the interleaving. In every reachable state at most
  one thread is between lock and unlock, the global variable is the number of increments written
  so far, and when \<open>main\<close> has printed anything it has printed 200, once.
\<close>

theorem mutex_protects:
  assumes "reachable s"
  shows "\<not> (inside (tpcs s 0) \<and> inside (tpcs s 1)) \<and>
    gValue s = int (increments (tpcs s 0) + increments (tpcs s 1)) \<and> 0 \<le> gValue s \<and> gValue s \<le> 200 \<and>
    printed s = (if mainpc s = MDone then [200] else [])"
proof -
  have i: "minv s" by (rule minv_reachable [OF assms])
  have b: "pc_ok g pc \<Longrightarrow> increments pc \<le> 100" for g pc by (cases pc) auto
  note ok = minvD(1) [OF i]
  have "increments (tpcs s 0) \<le> 100" "increments (tpcs s 1) \<le> 100"
    using ok [of 0] ok [of 1] b by (auto simp: tpc_ok_def)
  moreover have "\<not> (inside (tpcs s 0) \<and> inside (tpcs s 1))" using ok [of 0] ok [of 1] by (auto simp: tpc_ok_def)
  ultimately show ?thesis using i by (simp add: minv_def)
qed

section \<open>The program ends\<close>

fun tsteps :: "tpc \<Rightarrow> nat" where
  "tsteps TIdle = 603"
| "tsteps TStart = 602"
| "tsteps (TLock i) = 601 - 6 * i"
| "tsteps (TLoad i) = 600 - 6 * i"
| "tsteps (TSleep i t) = 599 - 6 * i"
| "tsteps (TStore i t) = 598 - 6 * i"
| "tsteps (TSleep2 i) = 597 - 6 * i"
| "tsteps (TUnlock i) = 596 - 6 * i"
| "tsteps TDone = 0"

fun msteps :: "mpc \<Rightarrow> nat" where
  "msteps (MCreate i) = 9 - i"
| "msteps (MJoin i) = 5 - i"
| "msteps MPrint = 1"
| "msteps MDone = 0"

definition steps_left :: "mutex_state \<Rightarrow> nat" where
  "steps_left s = tsteps (tpcs s 0) + tsteps (tpcs s 1) + msteps (mainpc s)"

lemma thread_step_decreases:
  assumes "thread_step tid s = Some s'" "pc_ok g (tpcs s tid)"
  shows "tsteps (tpcs s' tid) < tsteps (tpcs s tid)"
  using assms by (cases "tpcs s tid"; simp add: thread_step_def goes_def split: if_splits; fastforce)

lemma mstep_decreases:
  assumes i: "minv s" and st: "mstep s s'"
  shows "steps_left s' < steps_left s"
proof -
  note ok = minvD(1) [OF i]
  from st show ?thesis
  proof cases
    case (thread tid)
    note e = thread_step_effect [OF thread(2) ok [OF thread(1)]]
    have "tsteps (tpcs s' tid) < tsteps (tpcs s tid)"
      using thread_step_decreases [OF thread(2)] ok [OF thread(1)] unfolding tpc_ok_def by blast
    moreover have "tid = 0 \<or> tid = 1" using thread(1) by auto
    ultimately show ?thesis using e(4) [of 0] e(4) [of 1] e(5) by (auto simp: steps_left_def)
  next
    case main
    have idle: "tpcs s k = TIdle" if "mainpc s = MCreate k" "k < 2" for k
      using ok [OF that(2)] that(1) by (simp add: tpc_ok_def)
    have "k \<le> 2" if "mainpc s = MCreate k \<or> mainpc s = MJoin k" for k
      using i that by (auto simp: minv_def)
    then show ?thesis
      using main idle
      by (cases "mainpc s"; simp add: main_step_def goes_def steps_left_def split: if_splits)
         (auto simp: less_2_cases_iff)
  qed
qed

text \<open>Somebody can always go on until \<open>main\<close> has ended.\<close>

lemma mutex_progress:
  assumes "minv s" "mainpc s \<noteq> MDone"
  shows "\<exists>s'. mstep s s'"
proof (rule ccontr)
  assume stuck: "\<nexists>s'. mstep s s'"
  note ok = minvD(1) [OF assms(1)]
  have t: "thread_step tid s = None" if "tid < 2" for tid
    using stuck mstep.thread [OF that] by (cases "thread_step tid s") auto
  have m: "main_step s = None" using stuck mstep.main by (cases "main_step s") auto
  then obtain i where j: "mainpc s = MJoin i" "i < 2" "tpcs s i \<noteq> TDone"
    using assms(2) m by (auto simp: main_step_def split: mpc.splits if_splits)
  have idle: "tpcs s tid \<noteq> TIdle" if "tid < 2" for tid using ok [OF that] j(1) that by (simp add: tpc_ok_def)
  have w: "tpcs s tid = TDone \<or> (\<exists>k. tpcs s tid = TLock k \<and> gMutex s \<noteq> None)" if "tid < 2" for tid
  proof -
    from t [OF that] idle [OF that] show ?thesis by (auto simp: thread_step_def split: tpc.splits if_splits)
  qed
  then obtain k where "tpcs s i = TLock k" "gMutex s \<noteq> None" using j by blast
  then obtain tid where "gMutex s = Some tid" "tid < 2" using assms(1) by (auto simp: minv_def)
  then have "inside (tpcs s tid)" using ok by (auto simp: tpc_ok_def)
  then show False using w [OF \<open>tid < 2\<close>] by auto
qed

text \<open>
  C15. The program always ends, under every scheduler. Every step makes the number of steps left
  smaller, at most 1215 from the start; and no reachable state is stuck before \<open>main\<close> has ended,
  so each run that goes on as long as it can ends with 200 printed.
\<close>

theorem mutex_terminates:
  assumes "reachable s"
  shows "(\<forall>s'. mstep s s' \<longrightarrow> steps_left s' < steps_left s) \<and> steps_left mutex_init = 1215 \<and>
    ((\<nexists>s'. mstep s s') \<longrightarrow> mainpc s = MDone \<and> printed s = [200])"
proof -
  have i: "minv s" by (rule minv_reachable [OF assms])
  have "steps_left mutex_init = 1215" by (simp add: steps_left_def mutex_init_def)
  moreover have "mainpc s = MDone \<and> printed s = [200]" if "\<nexists>s'. mstep s s'"
    using mutex_progress [OF i] that i by (auto simp: minv_def)
  ultimately show ?thesis using mstep_decreases [OF i] by blast
qed

lemma mutex_protects_witness: "gValue mutex_init \<le> 200"
  using mutex_protects [OF reachable.init] by simp

lemma mutex_terminates_witness:
  "mstep mutex_init (goes 0 TStart (mutex_init\<lparr>mainpc := MCreate 1\<rparr>)) \<and>
   steps_left (goes 0 TStart (mutex_init\<lparr>mainpc := MCreate 1\<rparr>)) < steps_left mutex_init"
proof -
  have "main_step mutex_init = Some (goes 0 TStart (mutex_init\<lparr>mainpc := MCreate 1\<rparr>))"
    by (simp add: main_step_def mutex_init_def)
  then have "mstep mutex_init (goes 0 TStart (mutex_init\<lparr>mainpc := MCreate 1\<rparr>))" by (rule mstep.main)
  then show ?thesis using mutex_terminates [OF reachable.init] by blast
qed

section \<open>The abstract program\<close>

text \<open>
  What the program promises: a counter that two threads increment at once, a hundred times each,
  with nothing between a read and the write that belongs to it. The state is the value and how
  often each thread has incremented it.
\<close>

inductive counter_step :: "int \<times> nat \<times> nat \<Rightarrow> int \<times> nat \<times> nat \<Rightarrow> bool" where
  first: "a < 100 \<Longrightarrow> counter_step (g, a, b) (g + 1, Suc a, b)"
| second: "b < 100 \<Longrightarrow> counter_step (g, a, b) (g + 1, a, Suc b)"

definition counter_of :: "mutex_state \<Rightarrow> int \<times> nat \<times> nat" where
  "counter_of s = (gValue s, increments (tpcs s 0), increments (tpcs s 1))"

inductive_simps counter_step_first [simp]: "counter_step (g, a, b) (g', Suc a, b)"
inductive_simps counter_step_second [simp]: "counter_step (g, a, b) (g', a, Suc b)"

lemma counter_thread:
  assumes i: "minv s" and tid: "tid < 2" and st: "thread_step tid s = Some s'"
  shows "counter_of s' = counter_of s \<or> counter_step (counter_of s) (counter_of s')"
proof -
  have ok: "pc_ok (gValue s) (tpcs s tid)" using minvD(1) [OF i tid] by (simp add: tpc_ok_def)
  show ?thesis
  proof (cases "\<exists>k t. tpcs s tid = TStore k t")
    case True
    then obtain k t where pc: "tpcs s tid = TStore k t" by blast
    have s': "s' = goes tid (TSleep2 k) (s\<lparr>gValue := t + 1\<rparr>)" using st pc by (simp add: thread_step_def)
    have k: "k < 100" "t = gValue s" using ok pc by simp_all
    show ?thesis
    proof (cases "tid = 0")
      case True
      then show ?thesis using k pc by (simp add: s' goes_def counter_of_def)
    next
      case False
      then have "tid = 1" using tid by simp
      then show ?thesis using k pc by (simp add: s' goes_def counter_of_def)
    qed
  next
    case False
    have "increments (tpcs s' u) = increments (tpcs s u) \<and> gValue s' = gValue s" for u
      using False st ok by (cases "tpcs s tid") (auto simp: thread_step_def goes_def split: if_splits)
    then show ?thesis by (simp add: counter_of_def)
  qed
qed

lemma counter_main:
  assumes i: "minv s" and st: "main_step s = Some s'"
  shows "counter_of s' = counter_of s"
proof (cases "mainpc s")
  case (MCreate k)
  show ?thesis
  proof (cases "k < 2")
    case True
    then have "tpcs s k = TIdle" using minvD(1) [OF i True] MCreate by (simp add: tpc_ok_def)
    moreover have "k = 0 \<or> k = 1" using True by auto
    ultimately show ?thesis using st MCreate by (auto simp: main_step_def counter_of_def goes_def)
  qed (use st MCreate in \<open>auto simp: main_step_def counter_of_def\<close>)
qed (use st in \<open>auto simp: main_step_def counter_of_def split: if_splits\<close>)

text \<open>
  C6. The program with its mutex implements the atomic counter: every step of every interleaving
  either changes nothing of the counter or is one whole increment by one thread, never a write of
  a value that the other thread has changed since it was read.
\<close>

theorem mutex_refines_counter:
  assumes "reachable s" "mstep s s'"
  shows "counter_of mutex_init = (0, 0, 0) \<and>
    (counter_of s' = counter_of s \<or> counter_step (counter_of s) (counter_of s'))"
proof -
  have i: "minv s" by (rule minv_reachable [OF assms(1)])
  have "counter_of mutex_init = (0, 0, 0)" by (simp add: counter_of_def mutex_init_def)
  moreover from assms(2) have "counter_of s' = counter_of s \<or> counter_step (counter_of s) (counter_of s')"
    by cases (use counter_thread [OF i] counter_main [OF i] in blast)+
  ultimately show ?thesis ..
qed

lemma mutex_refines_counter_witness:
  "mstep mutex_init (goes 0 TStart (mutex_init\<lparr>mainpc := MCreate 1\<rparr>)) \<and>
   (counter_of (goes 0 TStart (mutex_init\<lparr>mainpc := MCreate 1\<rparr>)) = (0, 0, 0) \<or>
    counter_step (0, 0, 0) (counter_of (goes 0 TStart (mutex_init\<lparr>mainpc := MCreate 1\<rparr>))))"
proof -
  have "main_step mutex_init = Some (goes 0 TStart (mutex_init\<lparr>mainpc := MCreate 1\<rparr>))"
    by (simp add: main_step_def mutex_init_def)
  then have "mstep mutex_init (goes 0 TStart (mutex_init\<lparr>mainpc := MCreate 1\<rparr>))" by (rule mstep.main)
  then show ?thesis using mutex_refines_counter [OF reachable.init] by metis
qed

end
