(* ===== verification/Talk.thy ===== *)
theory Talk
  imports Sockets
begin

text \<open>
  The talk programs: client and server for two (wen/talk/talk_client_err.c and
  talk_server_err.c), the server with a thread per client of thu/talk_thread
  (talk_server_without_thread.c), and the chat room of fri/homework (client.c, server.c), whose
  server sends every message to all other users. The client of thu/talk_thread uses an undeclared
  array and does not compile.
\<close>

section \<open>Talking to one\<close>

definition SIGQUIT :: int where "SIGQUIT = 3"

definition send_line :: "fd \<Rightarrow> string \<Rightarrow> nat \<Rightarrow> unit prog" where
  "send_line connSock sbuf n =
     pbind (sys_ret (Write connSock (take n sbuf))) (\<lambda>r.
     if r \<noteq> int n then printf ''Talk Server fail in sending\<newline>'' [] else pret ())"

text \<open>
  \<open>do_keyboard\<close>: what follows \<open>exit\<close> differs between the programs. \<open>pid\<close> is the global variable,
  in the server never assigned (its \<open>main\<close> has a variable of the same name).
\<close>

definition keyboard_iter :: "unit prog \<Rightarrow> fd \<Rightarrow> string \<Rightarrow> (string, unit) iter prog" where
  "keyboard_iter on_exit connSock sbuf =
     pbind (rread 0 BUFSIZ) (\<lambda>(n, d).
     if n \<le> 0 then pret (Stop ()) else
     pbind (deliver sbuf 0 d) (\<lambda>sbuf.
     pseq (send_line connSock sbuf (nat n))
    (if strncmp_eq sbuf ''exit'' 4 then pseq on_exit (pret (Stop ())) else pret (Next sbuf))))"

definition do_keyboard :: "int \<Rightarrow> fd \<Rightarrow> string \<Rightarrow> unit prog" where
  "do_keyboard pid connSock junk = loop (keyboard_iter (emit (Kill pid SIGQUIT)) connSock) junk"

definition socket_iter :: "int \<Rightarrow> fd \<Rightarrow> string \<Rightarrow> (string, unit) iter prog" where
  "socket_iter ppid connSock rbuf =
     pbind (rread connSock BUFSIZ) (\<lambda>(n, d).
     if n > 0 then
       pbind (deliver rbuf 0 d) (\<lambda>rbuf.
       pbind (store rbuf n NUL) (\<lambda>rbuf.
       pbind (cstring rbuf) (\<lambda>text.
       pseq (printf ''%s'' [S text])
      (if strncmp_eq rbuf ''exit'' 4 then pseq (emit (Kill ppid SIGQUIT)) (pret (Stop ()))
       else pret (Next rbuf)))))
     else pret (Next rbuf))"

definition do_socket :: "int \<Rightarrow> fd \<Rightarrow> string \<Rightarrow> unit prog" where
  "do_socket ppid connSock junk = loop (socket_iter ppid connSock) junk"

definition talk_client_main :: "int \<Rightarrow> string \<Rightarrow> string list \<Rightarrow> int prog" where
  "talk_client_main ppid junk argv =
     (if length argv \<noteq> 3 then pseq (printf ''Usage:  talk_client server_ip port_num '' []) (pret (-1)) else
      pbind (sys_ret (Socket 2 1 0)) (\<lambda>connSock.
      if connSock < 0 then pseq (printf ''Talk Client Can't open socket\<newline>'' []) (pret (-1)) else
      pbind (sys_ret (Connect connSock (sock_addr (atoi (argv ! 2)) (inet_addr (argv ! 1))))) (\<lambda>r.
      if r < 0 then pseq (printf ''talk Client Can't connect \<newline>'' []) (pret (-1)) else
      pseq (printf ''Talk Client connect to Talk server \<newline>'' [])
     (pbind (sys_ret Fork) (\<lambda>pid.
      pseq (if pid < 0 then pret () else if pid = 0 then do_socket ppid connSock junk
            else do_keyboard pid connSock junk)
     (pseq (emit (Close connSock)) (pret 0)))))))"

definition talk_server_main :: "int \<Rightarrow> string \<Rightarrow> string list \<Rightarrow> int prog" where
  "talk_server_main ppid junk argv =
     (if length argv < 2 then pseq (printf ''Usage:  talkServer port_num '' []) (pret (-1)) else
      pbind (sys_ret (Socket 2 1 0)) (\<lambda>listenSock.
      if listenSock < 0 then pseq (printf ''Server: Can't open socket\<newline>'' []) (pret (-1)) else
      pbind (sys_ret (Bind listenSock (sock_addr (atoi (argv ! 1)) (htonl INADDR_ANY)))) (\<lambda>r.
      if r < 0 then pseq (printf ''talk Server Can't bind \<newline>'' []) (pret (-1)) else
      pseq (sys_do (Listen listenSock 1))
     (pbind (sys_ret (Accept listenSock)) (\<lambda>connSock.
      if connSock < 0 then pseq (printf ''Talk Server failed in accepting\<newline>'' []) (pret (-1)) else
      pbind (sys_ret Fork) (\<lambda>pid.
      pseq (if pid < 0 then pret () else if pid > 0 then do_keyboard 0 connSock junk
            else do_socket ppid connSock junk)
     (pseq (printf ''Talk Server accept new request\<newline>'' [])
     (pseq (emit (Close listenSock)) (pseq (emit (Close connSock)) (pret 0))))))))))"

section \<open>A thread per client\<close>

definition room_read_iter :: "(fd \<Rightarrow> string \<Rightarrow> nat \<Rightarrow> unit prog) \<Rightarrow> fd \<Rightarrow> string \<Rightarrow> (string, unit) iter prog" where
  "room_read_iter forward c_socket rcvBuffer =
     pbind (rread c_socket BUFSIZ) (\<lambda>(n, d).
     if n = 0 then pret (Stop ()) else
     pbind (deliver rcvBuffer 0 d) (\<lambda>rcvBuffer.
     pbind (store rcvBuffer n NUL) (\<lambda>rcvBuffer.
     pbind (cstring rcvBuffer) (\<lambda>text.
     pseq (printf ''%s'' [S text])
    (pseq (if strncmp_eq rcvBuffer ''quit'' 4 then printf ''quit\<newline>'' [] else pret ())
    (pseq (forward c_socket rcvBuffer (nat n))
     (pret (Next rcvBuffer))))))))"

definition talk_do_socket :: "fd \<Rightarrow> string \<Rightarrow> unit prog" where
  "talk_do_socket c_socket junk =
     pseq (printf ''Talk Server accept new request : %d\<newline>'' [I c_socket])
     (loop (room_read_iter (\<lambda>_ _ _. pret ()) c_socket) junk)"

definition talk_do_keyboard :: "fd \<Rightarrow> string \<Rightarrow> unit prog" where
  "talk_do_keyboard connSock junk = loop (keyboard_iter (pret ()) connSock) junk"

text \<open>The array of thread identifiers has three places and is on the stack.\<close>

definition talk_accept_iter :: "fd \<Rightarrow> nat \<Rightarrow> (nat, int) iter prog" where
  "talk_accept_iter listenSock thr_id =
     pbind (sys_ret (Accept listenSock)) (\<lambda>connSock.
     if connSock < 0 then pseq (printf ''Talk Server failed in accepting\<newline>'' []) (pret (Stop (-1))) else
     pseq (printf ''Talk Server accept new request : %d\<newline>'' [I connSock])
    (if thr_id \<ge> 3 then pfault OutOfBounds else
     pbind (sys (ThreadCreate connSock) (\<lambda>r. (r_ret r, r_errno r))) (\<lambda>(status, tid).
     if status \<noteq> 0 then pseq (perror ''thread create error\<newline>'') (pexit 1) else
     pseq (printf ''thread %x is create \<newline>'' [I tid])
    (pseq (sys_do (Sleep 3))
     (pret (Next (Suc thr_id)))))))"

definition talk_listen :: "string \<Rightarrow> int \<Rightarrow> (fd \<Rightarrow> int prog) \<Rightarrow> int prog" where
  "talk_listen port backlog serve =
     pbind (sys_ret (Socket 2 1 0)) (\<lambda>listenSock.
     if listenSock < 0 then pseq (printf ''Server: Can't open socket\<newline>'' []) (pret (-1)) else
     pbind (sys_ret (Bind listenSock (sock_addr (atoi port) (htonl INADDR_ANY)))) (\<lambda>r.
     if r < 0 then pseq (printf ''talk Server Can't bind \<newline>'' []) (pret (-1)) else
     pseq (sys_do (Listen listenSock backlog)) (serve listenSock)))"

definition talk_thread_server_main :: "string list \<Rightarrow> int prog" where
  "talk_thread_server_main argv =
     (if length argv < 2 then pseq (printf ''Usage:  talk_server port_num '' []) (pret (-1)) else
      talk_listen (argv ! 1) 1 (\<lambda>l. loop (talk_accept_iter l) 0))"

section \<open>The chat room\<close>

text \<open>The shared table of connections, and how many are in use.\<close>

record room =
  sock_connect :: "int list"
  user_cnt :: nat

definition room_init :: room where
  "room_init = \<lparr>sock_connect = replicate 10 0, user_cnt = 0\<rparr>"

definition room_send :: "room \<Rightarrow> fd \<Rightarrow> string \<Rightarrow> nat \<Rightarrow> nat \<Rightarrow> unit prog" where
  "room_send rm me buf len i =
     (if i \<ge> length (sock_connect rm) then pfault OutOfBounds else
      if me = sock_connect rm ! i then pret () else
      pseq (printf ''send to user[%d]\<newline>'' [I (int i + 1)])
     (pbind (sys_ret (Write (sock_connect rm ! i) (take len buf))) (\<lambda>r.
      if r \<noteq> int len then printf ''Talk Server fail in sending\<newline>'' [] else pret ())))"

definition writeSock :: "room \<Rightarrow> fd \<Rightarrow> string \<Rightarrow> nat \<Rightarrow> unit prog" where
  "writeSock rm me buf len = pfor [0..<user_cnt rm] (\<lambda>i _. room_send rm me buf len i) ()"

text \<open>One round of \<open>readSock\<close> with the table as it is then.\<close>

definition readSock_iter :: "room \<Rightarrow> fd \<Rightarrow> string \<Rightarrow> (string, unit) iter prog" where
  "readSock_iter rm = room_read_iter (writeSock rm)"

definition readSock :: "room \<Rightarrow> fd \<Rightarrow> string \<Rightarrow> unit prog" where
  "readSock rm c_socket junk =
     pseq (printf ''Talk Server accept new request : %d\<newline>'' [I c_socket])
     (loop (readSock_iter rm c_socket) junk)"

text \<open>
  A new user. In the call of \<open>pthread_create\<close> the count is incremented in one argument and used as
  an index in another; \<open>late\<close> says whether the compiler evaluates the increment first. The thread
  is created for the descriptor found.
\<close>

definition room_accept_iter :: "bool \<Rightarrow> fd \<Rightarrow> room \<Rightarrow> (room, int) iter prog" where
  "room_accept_iter late sock_listen rm =
     pbind (sys_ret (Accept sock_listen)) (\<lambda>c.
      if user_cnt rm \<ge> 10 then pfault OutOfBounds else
      let rm = rm\<lparr>sock_connect := (sock_connect rm)[user_cnt rm := c]\<rparr> in
      if c < 0 then pseq (printf ''Talk Server failed in accepting\<newline>'' []) (pret (Stop (-1))) else
      pseq (printf ''Talk Server accept new request : %d\<newline>'' [])
     (let i = (if late then user_cnt rm + 1 else user_cnt rm); rm = rm\<lparr>user_cnt := user_cnt rm + 1\<rparr> in
      if i \<ge> length (sock_connect rm) then pfault OutOfBounds else
      pbind (sys (ThreadCreate (sock_connect rm ! i)) (\<lambda>r. (r_ret r, r_errno r))) (\<lambda>(status, tid).
      if status \<noteq> 0 then pseq (perror ''thread create error\<newline>'') (pexit 1) else
      pseq (printf ''thread %x is create \<newline>'' [I tid])
     (pseq (sys_do (Sleep 3))
      (pret (Next rm))))))"

definition room_server_main :: "bool \<Rightarrow> string list \<Rightarrow> int prog" where
  "room_server_main late argv =
     (if length argv < 2 then pseq (printf ''Usage:  talk_server port_num '' []) (pret (-1)) else
      talk_listen (argv ! 1) 10 (\<lambda>l. loop (room_accept_iter late l) room_init))"

text \<open>The client of the room has the keyboard function of thu/talk_thread, and a reader.\<close>

definition room_client_read_iter :: "fd \<Rightarrow> string \<Rightarrow> (string, unit) iter prog" where
  "room_client_read_iter c_socket rcvBuffer =
     pbind (rread c_socket BUFSIZ) (\<lambda>(n, d).
     if n = 0 then pret (Stop ()) else
     pbind (deliver rcvBuffer 0 d) (\<lambda>rcvBuffer.
     pbind (store rcvBuffer n NUL) (\<lambda>rcvBuffer.
     pbind (cstring rcvBuffer) (\<lambda>text.
     pseq (printf ''%s'' [S text])
     (pret (Next rcvBuffer))))))"

definition room_client_keyboard :: "fd \<Rightarrow> string \<Rightarrow> unit prog" where
  "room_client_keyboard connSock junk = loop (keyboard_iter (pret ()) connSock) junk"

definition sleep_forever :: "unit \<Rightarrow> (unit, int) iter prog" where
  "sleep_forever _ = pseq (sys_do (Sleep 3)) (pret (Next ()))"

definition room_client_main :: "string list \<Rightarrow> int prog" where
  "room_client_main argv =
     (if length argv \<noteq> 3 then pseq (printf ''Usage:  talk_client server_ip port_num '' []) (pret (-1)) else
      pbind (sys_ret (Socket 2 1 0)) (\<lambda>connSock.
      if connSock < 0 then pseq (printf ''Talk Client Can't open socket\<newline>'' []) (pret (-1)) else
      pbind (sys_ret (Connect connSock (sock_addr (atoi (argv ! 2)) (inet_addr (argv ! 1))))) (\<lambda>r.
      if r < 0 then pseq (printf ''talk Client Can't connect \<newline>'' []) (pret (-1)) else
      pseq (printf ''Talk Client connect to Talk server \<newline>'' [])
     (pbind (sys_ret (ThreadCreate connSock)) (\<lambda>status.
      if status \<noteq> 0 then pseq (perror ''thread create error\<newline>'') (pret (-1)) else
      pbind (sys_ret (ThreadCreate connSock)) (\<lambda>status.
      if status \<noteq> 0 then pseq (perror ''thread create error\<newline>'') (pret (-1)) else
      loop sleep_forever ()))))))"

section \<open>Who hears what\<close>

lemma room_send_self:
  "i < length (sock_connect rm) \<Longrightarrow> sock_connect rm ! i = me \<Longrightarrow> room_send rm me buf len i = pret ()"
  by (simp add: room_send_def)

lemma room_send_other:
  "i < length (sock_connect rm) \<Longrightarrow> sock_connect rm ! i \<noteq> me \<Longrightarrow>
   room_send rm me buf len i (st (rc (int len) # rs) tr fs) =
     (Val (), st rs (tr @ [Printf ''send to user[%d]\<newline>'' [I (int i + 1)], Write (sock_connect rm ! i) (take len buf)]) fs)"
  by (simp add: room_send_def)

lemma pfor_room_send:
  assumes "\<forall>i \<in> set ks. i < length (sock_connect rm)"
  shows "\<exists>tr'. pfor ks (\<lambda>i _. room_send rm me buf len i) ()
      (st (map (\<lambda>_. rc (int len)) (filter (\<lambda>i. sock_connect rm ! i \<noteq> me) ks) @ rs) tr fs) = (Val (), st rs (tr @ tr') fs) \<and>
    (\<forall>u. wrote u tr' = concat (map (\<lambda>i. if sock_connect rm ! i = u \<and> u \<noteq> me then take len buf else []) ks))"
  using assms
proof (induction ks arbitrary: tr)
  case (Cons i js)
  let ?u = "sock_connect rm ! i"
  have i: "i < length (sock_connect rm)" and js: "\<forall>i \<in> set js. i < length (sock_connect rm)"
    using Cons.prems by simp_all
  show ?case
  proof (cases "?u = me")
    case True
    with Cons.IH [OF js, of tr] show ?thesis by (auto simp: room_send_self [OF i])
  next
    case False
    let ?p = "[Printf ''send to user[%d]\<newline>'' [I (int i + 1)], Write ?u (take len buf)]"
    obtain tr' where tr': "pfor js (\<lambda>i _. room_send rm me buf len i) ()
        (st (map (\<lambda>_. rc (int len)) (filter (\<lambda>i. sock_connect rm ! i \<noteq> me) js) @ rs) (tr @ ?p) fs) = (Val (), st rs ((tr @ ?p) @ tr') fs)"
      "\<forall>u. wrote u tr' = concat (map (\<lambda>i. if sock_connect rm ! i = u \<and> u \<noteq> me then take len buf else []) js)"
      using Cons.IH [OF js, of "tr @ ?p"] by blast
    have run: "pfor (i # js) (\<lambda>i _. room_send rm me buf len i) ()
        (st (map (\<lambda>_. rc (int len)) (filter (\<lambda>i. sock_connect rm ! i \<noteq> me) (i # js)) @ rs) tr fs) = (Val (), st rs (tr @ ?p @ tr') fs)"
      using tr'(1) False
      by (simp add: pbind_Val [where m = "room_send rm me buf len i", OF room_send_other [OF i False, where len = len]])
    show ?thesis
      using run tr'(2) False by (intro exI [of _ "?p @ tr'"]) auto
  qed
qed (auto intro: exI [of _ "[]"])

lemma concat_once:
  assumes "distinct xs" "j < length xs"
  shows "concat (map (\<lambda>i. if xs ! i = xs ! j then t else []) [0..<length xs]) = t"
proof -
  have c: "xs ! i = xs ! j \<longleftrightarrow> i = j" if "i < length xs" for i using assms that by (simp add: nth_eq_iff_index_eq)
  have "concat (map (\<lambda>i. if xs ! i = xs ! j then t else []) [0..<length xs]) =
      concat (map (\<lambda>i. if i = j then t else []) [0..<length xs])"
    by (rule arg_cong [where f = concat], rule map_cong) (simp_all add: c)
  also have "concat (map (\<lambda>i. if i = j then t else []) [0..<n]) = (if j < n then t else [])" for n
    by (induction n) auto
  finally show ?thesis using assms(2) by simp
qed

lemma filter_users:
  assumes "\<And>i. i < length users \<Longrightarrow> tab ! i = users ! i"
  shows "map (\<lambda>_. r) (filter (\<lambda>i. tab ! i \<noteq> me) [0..<length users]) = map (\<lambda>_. r) (filter (\<lambda>u. u \<noteq> me) users)"
proof -
  have "filter (\<lambda>u. u \<noteq> me) users = filter (\<lambda>u. u \<noteq> me) (map (\<lambda>i. users ! i) [0..<length users])"
    by (simp only: map_nth)
  also have "\<dots> = map (\<lambda>i. users ! i) (filter (\<lambda>i. users ! i \<noteq> me) [0..<length users])"
    by (simp only: filter_map comp_def)
  also have "filter (\<lambda>i. users ! i \<noteq> me) [0..<length users] = filter (\<lambda>i. tab ! i \<noteq> me) [0..<length users]"
    by (rule filter_cong) (simp_all add: assms)
  finally show ?thesis by (simp add: comp_def)
qed

text \<open>The table of a room with these users.\<close>

definition room_of :: "fd list \<Rightarrow> room" where
  "room_of users = \<lparr>sock_connect = users @ replicate (10 - length users) 0, user_cnt = length users\<rparr>"

lemma writeSock_room:
  assumes "distinct users" "length users \<le> 10"
  shows "\<exists>tr'. writeSock (room_of users) me buf len
      (st (map (\<lambda>_. rc (int len)) (filter (\<lambda>u. u \<noteq> me) users) @ rs) tr fs) = (Val (), st rs (tr @ tr') fs) \<and>
    (\<forall>u \<in> set users. wrote u tr' = (if u = me then [] else take len buf))"
proof -
  let ?rm = "room_of users"
  have nth: "sock_connect ?rm ! i = users ! i" if "i < length users" for i
    using that by (simp add: room_of_def nth_append)
  have bound: "\<forall>i \<in> set [0..<length users]. i < length (sock_connect ?rm)"
    using assms(2) by (auto simp: room_of_def)
  have fl: "map (\<lambda>_. r) (filter (\<lambda>i. sock_connect ?rm ! i \<noteq> me) [0..<length users]) =
      map (\<lambda>_. r) (filter (\<lambda>u. u \<noteq> me) users)" for r :: reply
    by (rule filter_users) (rule nth)
  obtain tr' where w: "pfor [0..<length users] (\<lambda>i _. room_send ?rm me buf len i) ()
      (st (map (\<lambda>_. rc (int len)) (filter (\<lambda>u. u \<noteq> me) users) @ rs) tr fs) = (Val (), st rs (tr @ tr') fs)"
    and wr: "\<forall>u. wrote u tr' = concat (map (\<lambda>i. if sock_connect ?rm ! i = u \<and> u \<noteq> me then take len buf else []) [0..<length users])"
    using pfor_room_send [OF bound, of me buf len rs tr fs] unfolding fl by (elim exE conjE) (rule that)
  have "wrote u tr' = (if u = me then [] else take len buf)" if u: "u \<in> set users" for u
  proof -
    obtain j where j: "j < length users" "users ! j = u" using u by (auto simp: in_set_conv_nth)
    have "map (\<lambda>i. if sock_connect ?rm ! i = u \<and> u \<noteq> me then take len buf else []) [0..<length users] =
        map (\<lambda>i. if users ! i = users ! j then (if u = me then [] else take len buf) else []) [0..<length users]"
      by (rule map_cong) (auto simp: nth j(2))
    then show ?thesis unfolding wr [rule_format] by (simp only: concat_once [OF assms(1) j(1)])
  qed
  moreover have "writeSock ?rm me buf len = pfor [0..<length users] (\<lambda>i _. room_send ?rm me buf len i) ()"
    by (simp add: writeSock_def room_of_def)
  ultimately show ?thesis using w by (intro exI [of _ tr']) simp
qed

lemma deliver_terminated:
  assumes "length t < length buf"
  shows "(overlay buf 0 t)[length t := NUL] = t @ NUL # drop (Suc (length t)) buf"
  using assms by (simp add: overlay_0 list_update_append Cons_nth_drop_Suc [OF assms, symmetric])

lemma room_read_iter_text:
  assumes "t \<noteq> []" "NUL \<notin> set t" "length t < BUFSIZ" "length buf = BUFSIZ"
  defines "b \<equiv> t @ NUL # drop (Suc (length t)) buf"
  shows "room_read_iter forward me buf (st (data t # rs) [] fs) =
    pseq (forward me b (length t)) (pret (Next b))
      (st rs ([Read me BUFSIZ, Printf ''%s'' [S t]] @ (if strncmp_eq b ''quit'' 4 then [Printf ''quit\<newline>'' []] else [])) fs)"
proof -
  have "(overlay buf 0 t)[length t := NUL] = b" using deliver_terminated [of t buf] assms(3-5) by simp
  moreover have "cstring b = pret t" using assms(2) by (simp add: b_def)
  ultimately show ?thesis using assms(1,3,4) by (cases "strncmp_eq b ''quit'' 4") (simp_all add: room_read_iter_def)
qed

text \<open>
  C11. What one says in the chat room, all others hear. When the thread of user \<open>me\<close> reads a
  message, it writes exactly this message once to every other connection of the room, nothing back
  to its own, prints it, and goes on.
\<close>

theorem room_broadcast:
  assumes "distinct users" "length users \<le> 10"
    and "t \<noteq> []" "NUL \<notin> set t" "length t < BUFSIZ" "length buf = BUFSIZ"
  shows "\<exists>buf' tr. readSock_iter (room_of users) me buf
      (st (data t # map (\<lambda>_. rc (int (length t))) (filter (\<lambda>u. u \<noteq> me) users) @ rs) [] fs) =
      (Val (Next buf'), st rs tr fs) \<and>
    (\<forall>u \<in> set users. wrote u tr = (if u = me then [] else t)) \<and> Printf ''%s'' [S t] \<in> set tr"
proof -
  let ?buf = "t @ NUL # drop (Suc (length t)) buf"
  let ?q = "if strncmp_eq ?buf ''quit'' 4 then [Printf ''quit\<newline>'' []] else []"
  let ?p = "[Read me BUFSIZ, Printf ''%s'' [S t]] @ ?q"
  obtain tr' where w: "writeSock (room_of users) me ?buf (length t)
      (st (map (\<lambda>_. rc (int (length t))) (filter (\<lambda>u. u \<noteq> me) users) @ rs) ?p fs) = (Val (), st rs (?p @ tr') fs)"
    and wr: "\<forall>u \<in> set users. wrote u tr' = (if u = me then [] else t)"
    using writeSock_room [OF assms(1,2), of me ?buf "length t" rs ?p fs] by auto
  have "readSock_iter (room_of users) me buf (st (data t # map (\<lambda>_. rc (int (length t))) (filter (\<lambda>u. u \<noteq> me) users) @ rs) [] fs) =
      (Val (Next ?buf), st rs (?p @ tr') fs)"
    unfolding readSock_iter_def room_read_iter_text [OF assms(3-6)] pseq_Val [where m = "writeSock (room_of users) me ?buf (length t)", OF w] by simp
  then show ?thesis using wr by (intro exI [of _ ?buf] exI [of _ "?p @ tr'"]) auto
qed

text \<open>
  A new user of the chat room: the connection is entered in the table as the last one in use.
  One thread is started; it reads from the new connection, or, when the compiler evaluates
  \<open>user_cnt++\<close> before the index in the same call, from descriptor \<open>0\<close>, the keyboard of the server.
\<close>

theorem room_accept_thread:
  assumes "length users < 9" "c \<ge> 0"
  shows "\<exists>tr. room_accept_iter late l (room_of users) (st (rc c # rc 0 # rc 0 # rs) [] fs) =
      (Val (Next (room_of (users @ [c]))), st rs tr fs) \<and>
    filter (\<lambda>k. \<exists>d. k = ThreadCreate d) tr = [ThreadCreate (if late then 0 else c)]"
proof -
  define n where "n = length users"
  have tab: "(users @ replicate (10 - n) 0)[n := c] = (users @ [c]) @ replicate (9 - n) 0"
    using assms(1) by (cases "10 - n") (auto simp: n_def list_update_append)
  have at: "((users @ [c]) @ replicate (9 - n) 0) ! n = c" "((users @ [c]) @ replicate (9 - n) 0) ! Suc n = 0"
    using assms(1) by (simp_all add: n_def nth_append)
  have rm: "(room_of users)\<lparr>sock_connect := (users @ [c]) @ replicate (9 - n) 0, user_cnt := Suc n\<rparr> = room_of (users @ [c])"
    by (simp add: room_of_def n_def)
  show ?thesis
    using assms at rm by (simp add: room_accept_iter_def room_of_def Let_def tab flip: n_def)
qed

theorem room_accept_thread_witness:
  "\<exists>tr. room_accept_iter True 3 (room_of [4]) (st [rc 5, rc 0, rc 0] [] Map.empty) =
      (Val (Next (room_of [4, 5])), st [] tr Map.empty) \<and>
    filter (\<lambda>k. \<exists>d. k = ThreadCreate d) tr = [ThreadCreate 0]"
  using room_accept_thread [of "[4]" 5 True 3 "[]" Map.empty] by simp

theorem room_broadcast_witness:
  "\<exists>buf' tr. readSock_iter (room_of [4, 5, 6]) 5 (replicate BUFSIZ NUL) (st [data ''hi'', rc 2, rc 2] [] Map.empty) =
      (Val (Next buf'), st [] tr Map.empty) \<and> wrote 4 tr = ''hi'' \<and> wrote 5 tr = [] \<and> wrote 6 tr = ''hi''"
  using room_broadcast [of "[4, 5, 6]" "''hi''" "replicate BUFSIZ NUL" 5 "[]" Map.empty]
  by (auto simp: BUFSIZ_def)

section \<open>A line of the conversation\<close>

lemma starts_with_exit: "strncmp_eq xs ''exit'' 4 \<longleftrightarrow> take 4 xs = ''exit''"
  by (simp add: strncmp_eq_take)

text \<open>What an array holds behind a line does not matter for the comparison: the line feed differs.\<close>

lemma line_exit:
  assumes "t = line @ [CHR 0x0A]"
  shows "strncmp_eq (t @ junk) ''exit'' 4 \<longleftrightarrow> take 4 t = ''exit''"
proof (cases "length t < 4")
  case True
  have "take (length t) (take 4 (t @ junk)) = t" using True by simp
  moreover have "CHR 0x0A \<notin> set ''exit''" "CHR 0x0A \<in> set t" by (simp_all add: assms)
  ultimately have "take 4 (t @ junk) \<noteq> ''exit''" by (metis in_set_takeD)
  then show ?thesis using True by (auto simp: starts_with_exit)
qed (simp add: starts_with_exit)

text \<open>
  A line typed on one side of the conversation is shown on the other. The keyboard process
  writes the line as it is, the reading process at the other end prints exactly it; a line that
  starts with \<open>exit\<close> ends both, each having signalled its partner, any other line lets both go on.
\<close>

theorem talk_line_shown:
  assumes "t = line @ [CHR 0x0A]" "NUL \<notin> set line" "length t < BUFSIZ" "length sbuf = BUFSIZ" "length rbuf = BUFSIZ"
  shows "\<exists>s' r'. keyboard_iter (emit (Kill pid SIGQUIT)) c sbuf (st (data t # rc (int (length t)) # rs) [] fs) =
      (if take 4 t = ''exit'' then (Val (Stop ()), st rs [Read 0 BUFSIZ, Write c t, Kill pid SIGQUIT] fs)
       else (Val (Next s'), st rs [Read 0 BUFSIZ, Write c t] fs)) \<and>
    socket_iter ppid d rbuf (st (data t # rs') [] fs') =
      (if take 4 t = ''exit'' then (Val (Stop ()), st rs' [Read d BUFSIZ, Printf ''%s'' [S t], Kill ppid SIGQUIT] fs')
       else (Val (Next r'), st rs' [Read d BUFSIZ, Printf ''%s'' [S t]] fs'))"
proof -
  have s: "overlay sbuf 0 t = t @ drop (length t) sbuf" by (simp add: overlay_0)
  have r: "(overlay rbuf 0 t)[length t := NUL] = t @ NUL # drop (Suc (length t)) rbuf"
    using deliver_terminated [of t rbuf] assms(3,5) by simp
  have c: "cstring (t @ NUL # drop (Suc (length t)) rbuf) = pret t"
    using cstring_append_NUL [of t] assms(1,2) by auto
  have e: "strncmp_eq (t @ junk) ''exit'' 4 = (take 4 t = ''exit'')" for junk by (rule line_exit [OF assms(1)])
  have t: "t \<noteq> []" using assms(1) by simp
  have "keyboard_iter (emit (Kill pid SIGQUIT)) c sbuf (st (data t # rc (int (length t)) # rs) [] fs) =
      (if take 4 t = ''exit'' then (Val (Stop ()), st rs [Read 0 BUFSIZ, Write c t, Kill pid SIGQUIT] fs)
       else (Val (Next (t @ drop (length t) sbuf)), st rs [Read 0 BUFSIZ, Write c t] fs))"
    using assms(3,4) t by (simp add: keyboard_iter_def send_line_def s e run_simps)
  moreover have "socket_iter ppid d rbuf (st (data t # rs') [] fs') =
      (if take 4 t = ''exit'' then (Val (Stop ()), st rs' [Read d BUFSIZ, Printf ''%s'' [S t], Kill ppid SIGQUIT] fs')
       else (Val (Next (t @ NUL # drop (Suc (length t)) rbuf)), st rs' [Read d BUFSIZ, Printf ''%s'' [S t]] fs'))"
    using assms(3,5) t by (simp add: socket_iter_def r c e run_simps)
  ultimately show ?thesis by blast
qed

theorem talk_line_shown_witness:
  "keyboard_iter (emit (Kill 9 SIGQUIT)) 4 (replicate BUFSIZ NUL) (st [data ''exit\<newline>'', rc 5] [] Map.empty) =
      (Val (Stop ()), st [] [Read 0 BUFSIZ, Write 4 ''exit\<newline>'', Kill 9 SIGQUIT] Map.empty)"
  using talk_line_shown [of "''exit\<newline>''" "''exit''" "replicate BUFSIZ NUL" "replicate BUFSIZ NUL" 9 4 "[]" Map.empty 1 4 "[]" Map.empty]
  by (simp add: BUFSIZ_def)

end
