(* ===== verification/TimerWheel.thy ===== *)
theory TimerWheel
  imports Irq Checksum
begin

unbundle bit_operations_syntax

text \<open>
  The kernel's timers (kernel/timer.c, include/linux/timer.h), which the driver of fri/kernelTimer
  uses: a wheel of lists of pending timers in five levels, \<open>tv1\<close> with one list for each of the next
  256 ticks and \<open>tv2\<close> to \<open>tv5\<close> with 64 coarser lists each, from which timers move to the level
  below (\<open>cascade\<close>) when their time comes near. One processor, 32 bits, the sizes of a
  configuration without \<open>CONFIG_BASE_SMALL\<close>; the lock of the wheel, which serializes what is
  modelled here, is left out.
\<close>

section \<open>The wheel\<close>

text \<open>
  The list heads: \<open>Tv1 i\<close> is \<open>tv1.vec + i\<close>, \<open>Tv n i\<close> is \<open>tv2.vec + i\<close> to \<open>tv5.vec + i\<close> for
  \<open>n\<close> from 0 to 3, the argument of the macro \<open>INDEX\<close>; \<open>Work\<close> is the local \<open>work_list\<close>.
\<close>

datatype head = Tv1 nat | Tv nat nat | Work

text \<open>
  A timer. Its callback is the address of a function, 0 when it is not set; it is pending when
  \<open>entry.next\<close> is not null, whether or not it is linked in a list.
\<close>

record timer_list =
  texpires :: u32
  tfunction :: nat
  tdata :: u32
  tpending :: bool

record timerboard = irqboard +
  timer_jiffies :: u32
  vec :: "head \<Rightarrow> nat list"
  timers :: "nat \<Rightarrow> timer_list"

text \<open>\<open>BUG_ON\<close>, and a timer that is linked a second time, which ruins both lists.\<close>

datatype timer_error = BugOn | ListCorrupt | WorkGrows | OutOfFuel

definition all_heads :: "head list" where
  "all_heads = map Tv1 [0..<256] @ concat (map (\<lambda>n. map (Tv n) [0..<64]) [0..<4]) @ [Work]"

definition linked :: "nat \<Rightarrow> 'a timerboard_scheme \<Rightarrow> bool" where
  "linked x s = list_ex (\<lambda>h. x \<in> set (vec s h)) all_heads"

definition timer_pending :: "nat \<Rightarrow> 'a timerboard_scheme \<Rightarrow> bool" where
  "timer_pending x s = tpending (timers s x)"

definition init_timer :: "nat \<Rightarrow> 'a timerboard_scheme \<Rightarrow> 'a timerboard_scheme" where
  "init_timer x s = s\<lparr>timers := (timers s)(x := (timers s x)\<lparr>tpending := False\<rparr>)\<rparr>"

definition list_add_tail :: "nat \<Rightarrow> head \<Rightarrow> 'a timerboard_scheme \<Rightarrow> 'a timerboard_scheme" where
  "list_add_tail x h s = s\<lparr>vec := (vec s)(h := vec s h @ [x]),
     timers := (timers s)(x := (timers s x)\<lparr>tpending := True\<rparr>)\<rparr>"

text \<open>The list for an expiry; on 32 bits \<open>idx > 0xffffffffUL\<close> is never true.\<close>

definition timer_vec :: "u32 \<Rightarrow> u32 \<Rightarrow> head" where
  "timer_vec base_jiffies e =
     (let idx = e - base_jiffies in
      if idx < 256 then Tv1 (unat (e AND 255))
      else if idx < 0x4000 then Tv 0 (unat (drop_bit 8 e AND 63))
      else if idx < 0x100000 then Tv 1 (unat (drop_bit 14 e AND 63))
      else if idx < 0x4000000 then Tv 2 (unat (drop_bit 20 e AND 63))
      else if sint idx < 0 then Tv1 (unat (base_jiffies AND 255))
      else Tv 3 (unat (drop_bit 26 e AND 63)))"

definition internal_add_timer :: "nat \<Rightarrow> 'a timerboard_scheme \<Rightarrow> 'a timerboard_scheme" where
  "internal_add_timer x s = list_add_tail x (timer_vec (timer_jiffies s) (texpires (timers s x))) s"

definition detach_timer :: "nat \<Rightarrow> bool \<Rightarrow> 'a timerboard_scheme \<Rightarrow> 'a timerboard_scheme" where
  "detach_timer x clear_pending s =
     (let s = s\<lparr>vec := \<lambda>h. filter (\<lambda>y. y \<noteq> x) (vec s h)\<rparr> in
      if clear_pending then s\<lparr>timers := (timers s)(x := (timers s x)\<lparr>tpending := False\<rparr>)\<rparr> else s)"

text \<open>\<open>__mod_timer\<close>, \<open>mod_timer\<close>, \<open>add_timer\<close> and \<open>del_timer\<close>; the first two say whether the timer was pending.\<close>

definition do_mod_timer :: "nat \<Rightarrow> u32 \<Rightarrow> 'a timerboard_scheme \<Rightarrow> timer_error + bool \<times> 'a timerboard_scheme" where
  "do_mod_timer x e s =
     (if tfunction (timers s x) = 0 then Inl BugOn else
      let ret = timer_pending x s; s = (if ret then detach_timer x False s else s) in
      if linked x s then Inl ListCorrupt else
      Inr (ret, internal_add_timer x (s\<lparr>timers := (timers s)(x := (timers s x)\<lparr>texpires := e\<rparr>)\<rparr>)))"

definition mod_timer :: "nat \<Rightarrow> u32 \<Rightarrow> 'a timerboard_scheme \<Rightarrow> timer_error + bool \<times> 'a timerboard_scheme" where
  "mod_timer x e s =
     (if tfunction (timers s x) = 0 then Inl BugOn else
      if texpires (timers s x) = e \<and> timer_pending x s then Inr (True, s) else do_mod_timer x e s)"

definition add_timer :: "nat \<Rightarrow> 'a timerboard_scheme \<Rightarrow> timer_error + 'a timerboard_scheme" where
  "add_timer x s =
     (if timer_pending x s then Inl BugOn else map_sum (\<lambda>e. e) snd (do_mod_timer x (texpires (timers s x)) s))"

definition del_timer :: "nat \<Rightarrow> 'a timerboard_scheme \<Rightarrow> bool \<times> 'a timerboard_scheme" where
  "del_timer x s = (if timer_pending x s then (True, detach_timer x True s) else (False, s))"

section \<open>Time passes\<close>

text \<open>\<open>cascade\<close> empties a list and adds its timers again; it returns the index.\<close>

definition cascade :: "nat \<Rightarrow> nat \<Rightarrow> 'a timerboard_scheme \<Rightarrow> nat \<times> 'a timerboard_scheme" where
  "cascade n index s = (index, fold internal_add_timer (vec s (Tv n index)) (s\<lparr>vec := (vec s)(Tv n index := [])\<rparr>))"

definition INDEX :: "nat \<Rightarrow> 'a timerboard_scheme \<Rightarrow> nat" where
  "INDEX n s = unat (drop_bit (8 + n * 6) (timer_jiffies s) AND 63)"

definition cascades :: "nat \<Rightarrow> 'a timerboard_scheme \<Rightarrow> 'a timerboard_scheme" where
  "cascades index s =
     (if index \<noteq> 0 then s else
      case cascade 0 (INDEX 0 s) s of (i, s) \<Rightarrow> if i \<noteq> 0 then s else
      case cascade 1 (INDEX 1 s) s of (i, s) \<Rightarrow> if i \<noteq> 0 then s else
      case cascade 2 (INDEX 2 s) s of (i, s) \<Rightarrow> if i \<noteq> 0 then s else
      snd (cascade 3 (INDEX 3 s) s))"

text \<open>One tick of \<open>__run_timers\<close>: up to the list of the timers to run, and running them.\<close>

definition collect :: "'a timerboard_scheme \<Rightarrow> 'a timerboard_scheme" where
  "collect s =
     (let index = unat (timer_jiffies s AND 255); s = cascades index s;
          s = s\<lparr>timer_jiffies := timer_jiffies s + 1\<rparr>
      in s\<lparr>vec := (vec s)(Work := vec s (Tv1 index), Tv1 index := [])\<rparr>)"

text \<open>
  A callback may change anything the kernel holds, but the list of timers to run is local to
  \<open>__run_timers\<close>: it can only lose timers (\<open>del_timer\<close>), which is why the inner loop ends.
\<close>

type_synonym 's callback = "nat \<Rightarrow> u32 \<Rightarrow> 's \<Rightarrow> timer_error + 's"

function run_work :: "'a timerboard_scheme callback \<Rightarrow> 'a timerboard_scheme \<Rightarrow> timer_error + 'a timerboard_scheme" where
  "run_work call s =
     (case vec s Work of
        [] \<Rightarrow> Inr s
      | x # _ \<Rightarrow>
          (case call (tfunction (timers s x)) (tdata (timers s x)) (detach_timer x True s) of
             Inl e \<Rightarrow> Inl e
           | Inr s' \<Rightarrow> if length (vec s' Work) < length (vec s Work) then run_work call s' else Inl WorkGrows))"
  by pat_completeness auto
termination
  by (relation "measure (\<lambda>(call, s). length (vec s Work))") auto

declare run_work.simps [simp del]

definition time_after_eq :: "u32 \<Rightarrow> u32 \<Rightarrow> bool" where
  "time_after_eq a b \<longleftrightarrow> 0 \<le> sint (a - b)"

fun run_timers :: "nat \<Rightarrow> 'a timerboard_scheme callback \<Rightarrow> 'a timerboard_scheme \<Rightarrow> timer_error + 'a timerboard_scheme" where
  "run_timers n call s =
     (if time_after_eq (jiffies s) (timer_jiffies s)
      then (case n of 0 \<Rightarrow> Inl OutOfFuel
            | Suc n \<Rightarrow> (case run_work call (collect s) of Inl e \<Rightarrow> Inl e | Inr s \<Rightarrow> run_timers n call s))
      else Inr s)"

declare run_timers.simps [simp del]

text \<open>The timer interrupt: \<open>jiffies\<close> counts, and the soft interrupt runs the timers.\<close>

definition timer_tick :: "nat \<Rightarrow> 'a timerboard_scheme callback \<Rightarrow> 'a timerboard_scheme \<Rightarrow> timer_error + 'a timerboard_scheme" where
  "timer_tick n call s = run_timers n call (s\<lparr>jiffies := jiffies s + 1\<rparr>)"

section \<open>Arithmetic of the levels\<close>

lemma unat_and_255: "unat ((w::u32) AND 255) = unat w mod 256"
proof -
  have "w AND 255 = take_bit 8 w" by (simp add: take_bit_eq_mask mask_eq_exp_minus_1)
  then show ?thesis by (simp only: unsigned_take_bit_eq) (simp add: take_bit_eq_mod)
qed

lemma unat_index: "unat (drop_bit b (w::u32) AND 63) = unat w div 2 ^ b mod 64"
proof -
  have "drop_bit b w AND 63 = take_bit 6 (drop_bit b w)" by (simp add: take_bit_eq_mask mask_eq_exp_minus_1)
  then show ?thesis by (simp only: unsigned_take_bit_eq unat_drop_bit_eq) (simp add: take_bit_eq_mod drop_bit_eq_div)
qed

text \<open>The ticks that one list of level \<open>n\<close> covers.\<close>

definition unit_of :: "nat \<Rightarrow> nat" where
  "unit_of n = 2 ^ (8 + n * 6)"

lemma unit_of_simps: "unit_of 0 = 256" "unit_of 1 = 16384" "unit_of (Suc 0) = 16384" "unit_of 2 = 1048576" "unit_of 3 = 67108864"
  by (simp_all add: unit_of_def)

lemma unit_of_pos [simp]: "0 < unit_of n"
  by (simp add: unit_of_def)

lemma unit_of_dvd: "n < 4 \<Longrightarrow> 64 * unit_of n dvd 4294967296"
proof -
  assume "n < 4"
  then consider "n = 0" | "n = 1" | "n = 2" | "n = 3" by linarith
  then show ?thesis by cases (simp_all only: unit_of_simps, simp_all)
qed

lemma unat_sum_u32: "\<exists>q. unat (t + d :: u32) + q * 4294967296 = unat t + unat d"
proof (intro exI)
  show "unat (t + d) + (unat t + unat d) div 4294967296 * 4294967296 = unat t + unat d"
    by (simp add: unat_word_ariths mod_div_mult_eq)
qed

text \<open>Where a timer with expiry \<open>e\<close> is, at time \<open>t\<close>, in list \<open>i\<close> of level \<open>n\<close>: the list is moved down at the
  last multiple of the unit before \<open>e\<close>, which is not past, and for the first time.\<close>

definition left :: "u32 \<Rightarrow> u32 \<Rightarrow> nat" where
  "left e t = unat (e - t)"

definition on_level :: "nat \<Rightarrow> u32 \<Rightarrow> nat \<Rightarrow> u32 \<Rightarrow> bool" where
  "on_level n e i t \<longleftrightarrow> n < 4 \<and> i = unat e div unit_of n mod 64 \<and> unat e mod unit_of n \<le> left e t \<and>
     left e t < unat e mod unit_of n + 64 * unit_of n"

definition above :: "nat \<Rightarrow> u32 \<Rightarrow> u32 \<Rightarrow> bool" where
  "above n e t \<longleftrightarrow> unat e mod unit_of n < left e t"

lemma left_mod:
  assumes "m dvd 4294967296"
  shows "(unat t + left e t) mod m = unat e mod m"
proof -
  obtain q where "unat (t + (e - t)) + q * 4294967296 = unat t + unat (e - t)" using unat_sum_u32 by blast
  then have "unat t + left e t = unat e + q * 4294967296" by (simp add: left_def)
  moreover obtain k where "4294967296 = k * m" using assms by (metis dvdE mult.commute)
  ultimately have "unat t + left e t = unat e + q * k * m" by (simp add: mult.assoc)
  then show ?thesis by (simp only: mod_mult_self1)
qed

lemma left_step: "0 < left e t \<Longrightarrow> left e (t + 1) = left e t - 1"
proof -
  assume "0 < left e t"
  then have "e - t \<noteq> 0" by (auto simp: left_def)
  then have "unat (e - t - 1) = unat (e - t) - 1" by (rule unat_minus_one)
  then show ?thesis by (simp add: left_def algebra_simps)
qed

lemma left_0: "left e t = 0 \<longleftrightarrow> e = t"
  by (simp add: left_def unat_eq_0)

text \<open>The list of the current time holds exactly the timers that must move now.\<close>

lemma must_move:
  assumes "on_level n e i t" "\<not> above n e t"
  shows "unat t mod unit_of n = 0 \<and> i = unat t div unit_of n mod 64"
proof -
  let ?u = "unit_of n" and ?E = "unat e"
  have n: "n < 4" and i: "i = ?E div ?u mod 64" and l: "left e t = ?E mod ?u"
    using assms by (auto simp: on_level_def above_def)
  obtain q where "unat (t + (e - t)) + q * 4294967296 = unat t + unat (e - t)" using unat_sum_u32 by blast
  then have "?E + q * 4294967296 = unat t + ?E mod ?u" using l by (simp add: left_def)
  moreover have "unat t < 4294967296" "?E mod ?u \<le> ?E" using unsigned_less [of t] by simp_all
  ultimately have "q = 0" by (cases q) auto
  then have "unat t = ?E - ?E mod ?u" using \<open>?E + q * 4294967296 = unat t + ?E mod ?u\<close> by simp
  then have "unat t = ?E div ?u * ?u" by (simp add: minus_mod_eq_div_mult)
  then show ?thesis using i by simp
qed

lemma moves_now:
  assumes "on_level n e i t" "unat t mod unit_of n = 0" "i = unat t div unit_of n mod 64"
  shows "left e t = unat e mod unit_of n"
proof -
  let ?u = "unit_of n" and ?E = "unat e"
  define a where "a = left e t - ?E mod ?u"
  have n: "n < 4" and i: "i = ?E div ?u mod 64" and a: "left e t = a + ?E mod ?u" "a < 64 * ?u"
    using assms(1) by (auto simp: on_level_def a_def)
  let ?M = "64 * ?u" and ?x = "?E div ?u * ?u" and ?t = "unat t div ?u * ?u" and ?r = "?E mod ?u"
  have t: "unat t = ?t" using div_mult_mod_eq [of "unat t" ?u] assms(2) by simp
  have x: "?E = ?x + ?r" by simp
  have "?x mod ?M = ?t mod ?M" using assms(3) i by (metis mod_mult_mult2)
  then have "(?x + (a + ?r)) mod ?M = (?t + (a + ?r)) mod ?M" by (rule mod_add_cong) simp
  also have "\<dots> = (?x + ?r) mod ?M"
    using left_mod [OF unit_of_dvd [OF n], of t e] t x a(1) by simp
  finally have "?M dvd a" by (simp add: mod_eq_dvd_iff_nat)
  then show ?thesis using a by (metis add_0 dvd_imp_le leD neq0_conv)
qed

lemma sint_neg_u32: "sint (w::u32) < 0 \<longleftrightarrow> 2147483648 \<le> unat w"
proof -
  have "bit w 31 \<longleftrightarrow> 2147483648 \<le> unat w"
    using top_bit_nat [of w] and_exp_eq_0_iff_not_bit [of w 31] by simp
  moreover have "sint w < 0 \<longleftrightarrow> bit w 31" using bit_last_iff [of w] by simp
  ultimately show ?thesis by simp
qed

lemma mod_cancel_le: "(x + b) mod m = (x + a) mod (m::nat) \<Longrightarrow> a \<le> b \<Longrightarrow> b < m \<Longrightarrow> a = b"
proof -
  assume e: "(x + b) mod m = (x + a) mod m" and ab: "a \<le> b" "b < m"
  then have "m dvd b - a" by (simp add: mod_eq_dvd_iff_nat)
  then have "b - a = 0" using ab by (metis dvd_imp_le leD less_imp_diff_less neq0_conv)
  then show "a = b" using ab by simp
qed

lemma mod_256_cancel: "(x + a) mod 256 = (x + b) mod (256::nat) \<Longrightarrow> a < 256 \<Longrightarrow> b < 256 \<Longrightarrow> a = b"
  using mod_cancel_le [of x a 256 b] mod_cancel_le [of x b 256 a] by (cases "a \<le> b") auto

lemma tv1_unique:
  assumes "left a t < 256" "left b t < 256" "unat a mod 256 = unat b mod 256"
  shows "a = b"
proof -
  have "(unat t + left a t) mod 256 = (unat t + left b t) mod 256"
    using left_mod [of 256 t a] left_mod [of 256 t b] assms(3) by simp
  then have "left a t = left b t" using mod_256_cancel assms(1,2) by blast
  then have "a - t = b - t" unfolding left_def by (rule word_unat_eq_iff [THEN iffD2])
  then show ?thesis by simp
qed

section \<open>What the wheel promises\<close>

text \<open>When a timer that is added at time \<open>t\<close> runs: at its expiry, or at once if that is past.\<close>

definition due_time :: "u32 \<Rightarrow> u32 \<Rightarrow> u32" where
  "due_time t e = (if sint (e - t) < 0 then t else e)"

lemma timer_vec_place:
  "(\<exists>i < 256. timer_vec t e = Tv1 i \<and> left (due_time t e) t < 256 \<and> unat (due_time t e) mod 256 = i) \<or>
   (\<exists>n i. timer_vec t e = Tv n i \<and> on_level n e i t \<and> above n e t \<and> due_time t e = e \<and> unit_of n \<le> left e t)"
proof -
  have lv: "on_level n e (unat (drop_bit (8 + n * 6) e AND 63)) t \<and> above n e t"
    if "n < 4" "unit_of n \<le> left e t" "left e t < 64 * unit_of n" for n
  proof -
    have "unat e mod unit_of n < left e t" by (rule less_le_trans [OF mod_less_divisor [OF unit_of_pos] that(2)])
    then show ?thesis using that by (simp add: on_level_def above_def unat_index flip: unit_of_def)
  qed
  have idx: "e - t < 256 \<longleftrightarrow> left e t < 256" "e - t < 0x4000 \<longleftrightarrow> left e t < 16384" "e - t < 0x100000 \<longleftrightarrow> left e t < 1048576"
    "e - t < 0x4000000 \<longleftrightarrow> left e t < 67108864" "sint (e - t) < 0 \<longleftrightarrow> 2147483648 \<le> left e t"
    by (simp_all add: left_def word_less_nat_alt sint_neg_u32)
  consider "left e t < 256" | "256 \<le> left e t" "left e t < 16384" | "16384 \<le> left e t" "left e t < 1048576"
    | "1048576 \<le> left e t" "left e t < 67108864" | "67108864 \<le> left e t" "left e t < 2147483648"
    | "2147483648 \<le> left e t" by linarith
  then show ?thesis
  proof cases
    case 1
    then show ?thesis by (simp add: timer_vec_def Let_def idx unat_and_255 due_time_def)
  next
    case 2
    with lv [of 0] show ?thesis by (auto simp: timer_vec_def Let_def idx due_time_def unit_of_simps)
  next
    case 3
    with lv [of 1] show ?thesis by (auto simp: timer_vec_def Let_def idx due_time_def unit_of_simps)
  next
    case 4
    with lv [of 2] show ?thesis by (auto simp: timer_vec_def Let_def idx due_time_def unit_of_simps)
  next
    case 5
    with lv [of 3] show ?thesis by (auto simp: timer_vec_def Let_def idx due_time_def unit_of_simps)
  next
    case 6
    then show ?thesis by (simp add: timer_vec_def Let_def idx unat_and_255 due_time_def) (simp add: left_def)
  qed
qed

text \<open>
  The wheel in order: no timer is linked twice, and every timer is in a list from which it will be
  moved or run in time. \<open>settled\<close>: the list of the current time has been moved down from this level.
\<close>

definition slots_ok :: "'a timerboard_scheme \<Rightarrow> bool" where
  "slots_ok s \<longleftrightarrow> (\<forall>h. distinct (vec s h)) \<and> (\<forall>h g x. x \<in> set (vec s h) \<longrightarrow> x \<in> set (vec s g) \<longrightarrow> h = g) \<and>
     (\<forall>i x. x \<in> set (vec s (Tv1 i)) \<longrightarrow> i < 256) \<and>
     (\<forall>n i x. x \<in> set (vec s (Tv n i)) \<longrightarrow> on_level n (texpires (timers s x)) i (timer_jiffies s))"

definition settled :: "nat \<Rightarrow> 'a timerboard_scheme \<Rightarrow> bool" where
  "settled n s \<longleftrightarrow> (\<forall>i x. x \<in> set (vec s (Tv n i)) \<longrightarrow> above n (texpires (timers s x)) (timer_jiffies s))"

definition in_lists :: "'a timerboard_scheme \<Rightarrow> nat set" where
  "in_lists s = (\<Union>h. set (vec s h))"

text \<open>The abstract state of the wheel: which timers will run, and at which tick.\<close>

definition due :: "'a timerboard_scheme \<Rightarrow> (nat \<times> u32) set" where
  "due s = {(x, \<tau>). (\<exists>i. x \<in> set (vec s (Tv1 i)) \<and> left \<tau> (timer_jiffies s) < 256 \<and> unat \<tau> mod 256 = i) \<or>
     (\<exists>n i. x \<in> set (vec s (Tv n i)) \<and> \<tau> = texpires (timers s x))}"

lemma slots_okD:
  assumes "slots_ok s"
  shows "distinct (vec s h)" "x \<in> set (vec s h) \<Longrightarrow> x \<in> set (vec s g) \<Longrightarrow> h = g"
    "x \<in> set (vec s (Tv1 i)) \<Longrightarrow> i < 256"
    "x \<in> set (vec s (Tv n i)) \<Longrightarrow> on_level n (texpires (timers s x)) i (timer_jiffies s)"
  using assms unfolding slots_ok_def by blast+

lemma in_listsI: "x \<in> set (vec s h) \<Longrightarrow> x \<in> in_lists s"
  by (auto simp: in_lists_def)

lemma due_in_lists: "(x, \<tau>) \<in> due s \<Longrightarrow> x \<in> in_lists s"
  by (auto simp: due_def in_lists_def)

lemma list_add_tail_simps [simp]:
  "vec (list_add_tail x h s) = (vec s)(h := vec s h @ [x])" "timer_jiffies (list_add_tail x h s) = timer_jiffies s"
  "texpires (timers (list_add_tail x h s) y) = texpires (timers s y)"
  "tfunction (timers (list_add_tail x h s) y) = tfunction (timers s y)"
  "tdata (timers (list_add_tail x h s) y) = tdata (timers s y)"
  "tpending (timers (list_add_tail x h s) y) = (y = x \<or> tpending (timers s y))" "jiffies (list_add_tail x h s) = jiffies s"
  by (simp_all add: list_add_tail_def)

lemma in_lists_add [simp]: "in_lists (list_add_tail x h s) = insert x (in_lists s)"
  by (auto simp: in_lists_def split: if_splits)

lemma slots_ok_add:
  assumes "slots_ok s" "x \<notin> in_lists s"
    and "\<And>i. h = Tv1 i \<Longrightarrow> i < 256" "\<And>n i. h = Tv n i \<Longrightarrow> on_level n (texpires (timers s x)) i (timer_jiffies s)"
  shows "slots_ok (list_add_tail x h s)"
proof -
  note ok = slots_okD [OF assms(1)]
  have x: "x \<notin> set (vec s g)" for g using assms(2) in_listsI by blast
  show ?thesis unfolding slots_ok_def
  proof (intro conjI allI impI)
    show "distinct (vec (list_add_tail x h s) g)" for g using ok(1) x by simp
    show "g = k" if "y \<in> set (vec (list_add_tail x h s) g)" "y \<in> set (vec (list_add_tail x h s) k)" for g k y
      using that x ok(2) by (auto split: if_splits)
    show "i < 256" if "y \<in> set (vec (list_add_tail x h s) (Tv1 i))" for i y
      using that ok(3) assms(3) by (auto split: if_splits)
    show "on_level n (texpires (timers (list_add_tail x h s) y)) i (timer_jiffies (list_add_tail x h s))"
      if "y \<in> set (vec (list_add_tail x h s) (Tv n i))" for n i y
      using that ok(4) assms(4) by (auto split: if_splits)
  qed
qed

lemma due_add:
  assumes "x \<notin> in_lists s"
    and "(\<exists>i. h = Tv1 i \<and> left \<tau> (timer_jiffies s) < 256 \<and> unat \<tau> mod 256 = i) \<or> (\<exists>n i. h = Tv n i \<and> texpires (timers s x) = \<tau>)"
  shows "due (list_add_tail x h s) = insert (x, \<tau>) (due s)"
proof -
  have x: "x \<notin> set (vec s g)" for g using assms(1) in_listsI by blast
  show ?thesis
  proof (intro set_eqI iffI)
    fix p assume p: "p \<in> due (list_add_tail x h s)"
    obtain y \<sigma> where yp: "p = (y, \<sigma>)" by (cases p)
    show "p \<in> insert (x, \<tau>) (due s)"
    proof (cases "y = x")
      case True
      then have "\<sigma> = \<tau>" using p yp assms(2) x tv1_unique by (auto simp: due_def split: if_splits)
      then show ?thesis using True yp by simp
    next
      case False
      then show ?thesis using p yp by (auto simp: due_def split: if_splits)
    qed
  next
    fix p assume "p \<in> insert (x, \<tau>) (due s)"
    then show "p \<in> due (list_add_tail x h s)"
    proof
      assume "p = (x, \<tau>)"
      then show ?thesis using assms(2) by (auto simp: due_def)
    next
      assume "p \<in> due s"
      then show ?thesis by (auto simp: due_def)
    qed
  qed
qed

lemma internal_add_timer_due:
  assumes "slots_ok s" "x \<notin> in_lists s"
  shows "slots_ok (internal_add_timer x s)" "due (internal_add_timer x s) = insert (x, due_time (timer_jiffies s) (texpires (timers s x))) (due s)"
    "settled n s \<Longrightarrow> settled n (internal_add_timer x s)" "vec (internal_add_timer x s) Work = vec s Work"
proof -
  let ?e = "texpires (timers s x)" and ?t = "timer_jiffies s"
  let ?h = "timer_vec ?t ?e"
  have p: "(\<exists>i < 256. ?h = Tv1 i \<and> left (due_time ?t ?e) ?t < 256 \<and> unat (due_time ?t ?e) mod 256 = i) \<or>
   (\<exists>n i. ?h = Tv n i \<and> on_level n ?e i ?t \<and> above n ?e ?t \<and> due_time ?t ?e = ?e \<and> unit_of n \<le> left ?e ?t)"
    by (rule timer_vec_place)
  show "slots_ok (internal_add_timer x s)"
    unfolding internal_add_timer_def by (rule slots_ok_add [OF assms]) (use p in auto)
  show "due (internal_add_timer x s) = insert (x, due_time ?t ?e) (due s)"
    unfolding internal_add_timer_def by (rule due_add [OF assms(2)]) (use p in auto)
  have x: "x \<notin> set (vec s g)" for g using assms(2) in_listsI by blast
  show "settled n (internal_add_timer x s)" if "settled n s"
    using that p x by (auto simp: settled_def internal_add_timer_def split: if_splits)
  show "vec (internal_add_timer x s) Work = vec s Work"
    using p by (auto simp: internal_add_timer_def)
qed

section \<open>Cascading\<close>

lemma internal_add_timer_simps [simp]:
  "timer_jiffies (internal_add_timer x s) = timer_jiffies s" "jiffies (internal_add_timer x s) = jiffies s"
  "texpires (timers (internal_add_timer x s) y) = texpires (timers s y)"
  "tfunction (timers (internal_add_timer x s) y) = tfunction (timers s y)"
  "tdata (timers (internal_add_timer x s) y) = tdata (timers s y)"
  "tpending (timers (internal_add_timer x s) y) = (y = x \<or> tpending (timers s y))"
  "in_lists (internal_add_timer x s) = insert x (in_lists s)"
  by (simp_all add: internal_add_timer_def)

lemma internal_add_timer_frame: "\<exists>v tm. internal_add_timer x s = s\<lparr>vec := v, timers := tm\<rparr>"
  unfolding internal_add_timer_def list_add_tail_def by blast

lemma fold_add_simps [simp]:
  "timer_jiffies (fold internal_add_timer xs s) = timer_jiffies s"
  "texpires (timers (fold internal_add_timer xs s) y) = texpires (timers s y)"
  "tfunction (timers (fold internal_add_timer xs s) y) = tfunction (timers s y)"
  "tdata (timers (fold internal_add_timer xs s) y) = tdata (timers s y)"
  "tpending (timers (fold internal_add_timer xs s) y) = (y \<in> set xs \<or> tpending (timers s y))"
  "in_lists (fold internal_add_timer xs s) = in_lists s \<union> set xs"
  by (induction xs arbitrary: s) auto

lemma fold_add_frame: "\<exists>v tm. fold internal_add_timer xs s = s\<lparr>vec := v, timers := tm\<rparr>"
proof (induction xs arbitrary: s)
  case Nil
  have "s = s\<lparr>vec := vec s, timers := timers s\<rparr>" by simp
  then show ?case by (metis fold_simps(1))
next
  case (Cons x xs)
  obtain v tm where 1: "internal_add_timer x s = s\<lparr>vec := v, timers := tm\<rparr>" using internal_add_timer_frame by blast
  obtain v' tm' where "fold internal_add_timer xs (internal_add_timer x s) = (internal_add_timer x s)\<lparr>vec := v', timers := tm'\<rparr>"
    using Cons.IH by blast
  then have "fold internal_add_timer (x # xs) s = s\<lparr>vec := v', timers := tm'\<rparr>" by (simp add: 1)
  then show ?case by blast
qed

lemma fold_add:
  assumes "slots_ok s" "distinct xs" "set xs \<inter> in_lists s = {}"
  shows "slots_ok (fold internal_add_timer xs s) \<and>
    due (fold internal_add_timer xs s) = due s \<union> (\<lambda>x. (x, due_time (timer_jiffies s) (texpires (timers s x)))) ` set xs \<and>
    (\<forall>n. settled n s \<longrightarrow> settled n (fold internal_add_timer xs s)) \<and>
    vec (fold internal_add_timer xs s) Work = vec s Work"
  using assms
proof (induction xs arbitrary: s)
  case (Cons x xs)
  have x: "x \<notin> in_lists s" using Cons.prems(3) by auto
  note add = internal_add_timer_due [OF Cons.prems(1) x]
  have "set xs \<inter> in_lists (internal_add_timer x s) = {}" using Cons.prems(2,3) by auto
  note IH = Cons.IH [OF add(1) _ this]
  show ?case
    using IH Cons.prems(2) add(2-4) by (simp add: insert_commute)
qed simp

text \<open>What moving timers down leaves: the same timers, due when they were due, and the rest of the state.\<close>

definition moved :: "'a timerboard_scheme \<Rightarrow> 'a timerboard_scheme \<Rightarrow> bool" where
  "moved s s' \<longleftrightarrow> slots_ok s' \<and> due s' = due s \<and> in_lists s' = in_lists s \<and> vec s' Work = vec s Work \<and>
     (\<forall>x. texpires (timers s' x) = texpires (timers s x) \<and> tfunction (timers s' x) = tfunction (timers s x) \<and>
       tdata (timers s' x) = tdata (timers s x) \<and> (tpending (timers s' x) \<longleftrightarrow> tpending (timers s x))) \<and>
     (\<exists>v tm. s' = s\<lparr>vec := v, timers := tm\<rparr>)"

lemma moved_refl: "slots_ok s \<Longrightarrow> moved s s"
proof -
  have "s = s\<lparr>vec := vec s, timers := timers s\<rparr>" by simp
  then show "slots_ok s \<Longrightarrow> moved s s" unfolding moved_def by metis
qed

lemma moved_trans: "moved s s1 \<Longrightarrow> moved s1 s2 \<Longrightarrow> moved s s2"
  unfolding moved_def by (elim conjE exE) (intro conjI, simp_all, metis)

lemma moved_jiffies: "moved s s' \<Longrightarrow> timer_jiffies s' = timer_jiffies s"
  by (auto simp: moved_def)

text \<open>Timers are linked when they are pending.\<close>

definition pending_ok :: "'a timerboard_scheme \<Rightarrow> bool" where
  "pending_ok s \<longleftrightarrow> (\<forall>x. tpending (timers s x) \<longleftrightarrow> x \<in> in_lists s)"

text \<open>A list is emptied.\<close>

definition emptied :: "head \<Rightarrow> 'a timerboard_scheme \<Rightarrow> 'a timerboard_scheme" where
  "emptied h s = s\<lparr>vec := (vec s)(h := [])\<rparr>"

lemma emptied_simps [simp]:
  "vec (emptied h s) = (vec s)(h := [])" "timers (emptied h s) = timers s" "timer_jiffies (emptied h s) = timer_jiffies s"
  by (simp_all add: emptied_def)

lemma in_emptied: "x \<in> set (vec (emptied h s) g) \<longleftrightarrow> g \<noteq> h \<and> x \<in> set (vec s g)"
  by simp

lemma in_lists_emptied:
  assumes "slots_ok s"
  shows "in_lists (emptied h s) = in_lists s - set (vec s h)"
proof (intro set_eqI iffI)
  fix x assume "x \<in> in_lists (emptied h s)"
  then obtain g where "x \<in> set (vec (emptied h s) g)" unfolding in_lists_def by blast
  then have "g \<noteq> h" "x \<in> set (vec s g)" unfolding in_emptied by blast+
  then show "x \<in> in_lists s - set (vec s h)" using slots_okD(2) [OF assms, of x g h] by (auto simp: in_lists_def)
next
  fix x assume "x \<in> in_lists s - set (vec s h)"
  then have h: "x \<in> in_lists s" "x \<notin> set (vec s h)" by simp_all
  then obtain g where "x \<in> set (vec s g)" unfolding in_lists_def by blast
  then have "g \<noteq> h" "x \<in> set (vec s g)" using h(2) by auto
  then show "x \<in> in_lists (emptied h s)" unfolding in_lists_def using in_emptied by blast
qed

lemma slots_ok_emptied: "slots_ok s \<Longrightarrow> slots_ok (emptied h s)"
  unfolding slots_ok_def in_emptied by (auto simp: distinct.simps(1))

lemma settled_emptied: "settled m s \<Longrightarrow> settled m (emptied h s)"
  unfolding settled_def in_emptied by auto

lemma due_emptied:
  "due s = due (emptied (Tv n i) s) \<union> (\<lambda>x. (x, texpires (timers s x))) ` set (vec s (Tv n i))"
proof (intro set_eqI iffI)
  fix p assume "p \<in> due s"
  then show "p \<in> due (emptied (Tv n i) s) \<union> (\<lambda>x. (x, texpires (timers s x))) ` set (vec s (Tv n i))"
  proof (cases "\<exists>x. p = (x, texpires (timers s x)) \<and> x \<in> set (vec s (Tv n i))")
    case True
    then show ?thesis by auto
  next
    case False
    then show ?thesis using \<open>p \<in> due s\<close> unfolding due_def in_emptied by (cases p) fastforce
  qed
next
  fix p assume "p \<in> due (emptied (Tv n i) s) \<union> (\<lambda>x. (x, texpires (timers s x))) ` set (vec s (Tv n i))"
  then show "p \<in> due s" unfolding due_def in_emptied by auto
qed

lemma INDEX_div: "INDEX n s = unat (timer_jiffies s) div unit_of n mod 64"
  by (simp add: INDEX_def unat_index unit_of_def)

lemma due_time_cascade:
  assumes "slots_ok s" "n < 4" "unat (timer_jiffies s) mod unit_of n = 0" "x \<in> set (vec s (Tv n (INDEX n s)))"
  shows "due_time (timer_jiffies s) (texpires (timers s x)) = texpires (timers s x)"
proof -
  have "left (texpires (timers s x)) (timer_jiffies s) = unat (texpires (timers s x)) mod unit_of n"
    by (rule moves_now [OF slots_okD(4) [OF assms(1,4)] assms(3) INDEX_div])
  also have "\<dots> < unit_of n" by (rule mod_less_divisor [OF unit_of_pos])
  also have "unit_of n \<le> unit_of 3" unfolding unit_of_def by (rule power_increasing) (use assms(2) in auto)
  finally show ?thesis by (simp add: due_time_def sint_neg_u32 left_def unit_of_simps)
qed

lemma settled_cascade:
  assumes "slots_ok s"
  shows "settled n (emptied (Tv n (INDEX n s)) s)"
  unfolding settled_def in_emptied
proof (intro allI impI, elim conjE)
  fix j x assume x: "Tv n j \<noteq> Tv n (INDEX n s)" "x \<in> set (vec s (Tv n j))"
  show "above n (texpires (timers (emptied (Tv n (INDEX n s)) s) x)) (timer_jiffies (emptied (Tv n (INDEX n s)) s))"
    using must_move [OF slots_okD(4) [OF assms x(2)]] x(1) by (auto simp: INDEX_div)
qed

lemma cascade_moves:
  assumes ok: "slots_ok s" "pending_ok s" and n: "n < 4" "unat (timer_jiffies s) mod unit_of n = 0"
  shows "moved s (snd (cascade n (INDEX n s) s))" "settled n (snd (cascade n (INDEX n s) s))"
    "settled m s \<Longrightarrow> settled m (snd (cascade n (INDEX n s) s))"
proof -
  define xs where "xs = vec s (Tv n (INDEX n s))"
  define s0 where "s0 = emptied (Tv n (INDEX n s)) s"
  define s' where "s' = fold internal_add_timer xs s0"
  have s': "snd (cascade n (INDEX n s) s) = s'" by (simp add: cascade_def xs_def s0_def s'_def emptied_def)
  have t0: "timers s0 = timers s" "timer_jiffies s0 = timer_jiffies s" "vec s0 Work = vec s Work" by (simp_all add: s0_def)
  have lists0: "in_lists s0 = in_lists s - set xs" unfolding s0_def xs_def by (rule in_lists_emptied [OF ok(1)])
  have dis: "distinct xs" "set xs \<inter> in_lists s0 = {}" using slots_okD(1) [OF ok(1)] lists0 by (auto simp: xs_def)
  have xl: "set xs \<subseteq> in_lists s" by (auto simp: xs_def in_lists_def)
  note f = fold_add [OF slots_ok_emptied [OF ok(1)] dis [unfolded s0_def], folded s0_def s'_def]
  have im: "(\<lambda>x. (x, due_time (timer_jiffies s0) (texpires (timers s0 x)))) ` set xs = (\<lambda>x. (x, texpires (timers s x))) ` set xs"
    unfolding t0 xs_def by (intro image_cong refl) (simp add: due_time_cascade [OF ok(1) n])
  have due: "due s' = due s"
    using f im due_emptied [of s n "INDEX n s"] by (simp add: s0_def [symmetric] xs_def [symmetric])
  obtain v tm where "s' = s0\<lparr>vec := v, timers := tm\<rparr>" using fold_add_frame [of xs s0] unfolding s'_def by blast
  then have fr: "\<exists>v tm. s' = s\<lparr>vec := v, timers := tm\<rparr>" by (auto simp: s0_def emptied_def)
  have lists: "in_lists s' = in_lists s" using lists0 xl unfolding s'_def fold_add_simps by blast
  have pend: "tpending (timers s' x) = tpending (timers s x)" for x
    using ok(2) xl unfolding s'_def fold_add_simps t0 pending_ok_def by blast
  show "moved s (snd (cascade n (INDEX n s) s))"
    unfolding s' moved_def using f due fr lists pend t0(3) by (simp add: s'_def t0(1))
  show "settled n (snd (cascade n (INDEX n s) s))"
    unfolding s' using f settled_cascade [OF ok(1)] unfolding s0_def by blast
  show "settled m (snd (cascade n (INDEX n s) s))" if "settled m s"
    unfolding s' using f settled_emptied [OF that] unfolding s0_def by blast
qed

lemma moved_pending: "moved s s' \<Longrightarrow> pending_ok s \<Longrightarrow> pending_ok s'"
  unfolding moved_def pending_ok_def by simp

lemma moved_ok: "moved s s' \<Longrightarrow> slots_ok s'"
  unfolding moved_def by simp

text \<open>The macro \<open>INDEX\<close> is 0 exactly when the next level must be moved too.\<close>

lemma unit_of_Suc: "T mod unit_of (Suc n) = 0 \<longleftrightarrow> T mod unit_of n = 0 \<and> T div unit_of n mod 64 = 0"
proof -
  have "unit_of (Suc n) = unit_of n * 64" by (simp add: unit_of_def power_add)
  then have e: "T mod unit_of (Suc n) = unit_of n * (T div unit_of n mod 64) + T mod unit_of n"
    by (simp add: mod_mult2_eq)
  have "unit_of n \<noteq> 0" using unit_of_pos [of n] by linarith
  then show ?thesis unfolding e by auto
qed

lemma mod_unit_mono: "m \<le> n \<Longrightarrow> T mod unit_of n = 0 \<Longrightarrow> T mod unit_of m = 0"
proof (induction n rule: dec_induct)
  case (step n)
  then show ?case using unit_of_Suc [of T n] by simp
qed

lemma settled_not_yet:
  assumes "slots_ok s" "unat (timer_jiffies s) mod unit_of n \<noteq> 0"
  shows "settled n s"
  unfolding settled_def
proof (intro allI impI)
  fix i x assume "x \<in> set (vec s (Tv n i))"
  then have "on_level n (texpires (timers s x)) i (timer_jiffies s)" by (rule slots_okD(4) [OF assms(1)])
  then show "above n (texpires (timers s x)) (timer_jiffies s)" using must_move assms(2) by metis
qed

lemma settled_high: "slots_ok s \<Longrightarrow> 4 \<le> n \<Longrightarrow> settled n s"
  unfolding settled_def using slots_okD(4) by (fastforce simp: on_level_def)

lemma cascade_step:
  assumes s: "moved s s1" "pending_ok s" and n: "n < 4" "unat (timer_jiffies s) mod unit_of n = 0"
    and low: "\<forall>m < n. settled m s1"
  defines "s2 \<equiv> snd (cascade n (INDEX n s1) s1)"
  shows "fst (cascade n (INDEX n s1) s1) = INDEX n s" "moved s s2" "\<forall>m < Suc n. settled m s2"
    "INDEX n s \<noteq> 0 \<Longrightarrow> \<forall>m. settled m s2" "INDEX n s = 0 \<Longrightarrow> unat (timer_jiffies s) mod unit_of (Suc n) = 0"
proof -
  have t: "timer_jiffies s1 = timer_jiffies s" by (rule moved_jiffies [OF s(1)])
  note c = cascade_moves [OF moved_ok [OF s(1)] moved_pending [OF s] n(1), unfolded t, OF n(2), folded s2_def]
  show "fst (cascade n (INDEX n s1) s1) = INDEX n s" by (simp add: cascade_def INDEX_def t)
  show m2: "moved s s2" by (rule moved_trans [OF s(1) c(1)])
  show low2: "\<forall>m < Suc n. settled m s2" using c(2,3) low less_Suc_eq by auto
  show "INDEX n s = 0 \<Longrightarrow> unat (timer_jiffies s) mod unit_of (Suc n) = 0"
    using n(2) by (simp add: unit_of_Suc INDEX_div)
  assume "INDEX n s \<noteq> 0"
  then have "unat (timer_jiffies s2) mod unit_of m \<noteq> 0" if "Suc n \<le> m" for m
    using mod_unit_mono [OF that, of "unat (timer_jiffies s)"] moved_jiffies [OF m2] by (auto simp: unit_of_Suc INDEX_div)
  then show "\<forall>m. settled m s2"
    using low2 settled_not_yet [OF moved_ok [OF m2]] by (meson not_less)
qed

lemma cascades_moves:
  assumes ok: "slots_ok s" "pending_ok s"
  shows "moved s (cascades (unat (timer_jiffies s AND 255)) s) \<and> (\<forall>n. settled n (cascades (unat (timer_jiffies s AND 255)) s))"
proof (cases "unat (timer_jiffies s) mod unit_of 0 = 0")
  case False
  then have "unat (timer_jiffies s) mod unit_of n \<noteq> 0" for n
    using mod_unit_mono [OF le0] by metis
  then have "settled n s" for n by (rule settled_not_yet [OF ok(1)])
  then show ?thesis using False moved_refl [OF ok(1)] by (simp add: cascades_def unat_and_255 unit_of_simps)
next
  case z0: True
  define s1 where "s1 = snd (cascade 0 (INDEX 0 s) s)"
  define s2 where "s2 = snd (cascade 1 (INDEX 1 s1) s1)"
  define s3 where "s3 = snd (cascade 2 (INDEX 2 s2) s2)"
  define s4 where "s4 = snd (cascade 3 (INDEX 3 s3) s3)"
  note c0 = cascade_step [OF moved_refl [OF ok(1)] ok(2) _ z0, folded s1_def, simplified]
  have run: "cascades (unat (timer_jiffies s AND 255)) s =
      (if INDEX 0 s \<noteq> 0 then s1 else if fst (cascade 1 (INDEX 1 s1) s1) \<noteq> 0 then s2
       else if fst (cascade 2 (INDEX 2 s2) s2) \<noteq> 0 then s3 else s4)"
    using z0 unfolding cascades_def unat_and_255 unit_of_simps s1_def s2_def s3_def s4_def
    by (simp add: cascade_def split: prod.split)
  show ?thesis
  proof (cases "INDEX 0 s = 0")
    case False
    then show ?thesis using c0 run by simp
  next
    case i0: True
    note c1 = cascade_step [of s s1 1, folded s2_def, simplified, OF c0(2) ok(2)]
    have z1: "unat (timer_jiffies s) mod unit_of (Suc 0) = 0" using c0(5) i0 by simp
    have l1: "settled 0 s1" using c0(3) by simp
    note c1 = c1 [OF z1 l1]
    show ?thesis
    proof (cases "INDEX 1 s = 0")
      case False
      then show ?thesis using c1 run i0 by simp
    next
      case i1: True
      have z2: "unat (timer_jiffies s) mod unit_of 2 = 0" using c1(5) i1 by (simp add: numeral_2_eq_2)
      have l2: "\<forall>m < 2. settled m s2" using c1(3) by (simp add: numeral_2_eq_2)
      note c2 = cascade_step [OF c1(2) ok(2) _ z2 l2, folded s3_def, simplified]
      show ?thesis
      proof (cases "INDEX 2 s = 0")
        case False
        then show ?thesis using c1 c2 run i0 i1 by simp
      next
        case i2: True
        have z3: "unat (timer_jiffies s) mod unit_of 3 = 0" using c2(5) i2 by (simp add: numeral_3_eq_3 numeral_2_eq_2)
        have l3: "\<forall>m < 3. settled m s3" using c2(3) by (simp add: numeral_3_eq_3 numeral_2_eq_2)
        note c3 = cascade_step [OF c2(2) ok(2) _ z3 l3, folded s4_def, simplified]
        have "settled m s4" for m
          using c3(3) settled_high [OF moved_ok [OF c3(2)], of m] by (cases "m < 4") (auto simp: eval_nat_numeral)
        then show ?thesis using c1 c2 c3(2) run i0 i1 i2 by simp
      qed
    qed
  qed
qed

section \<open>One tick\<close>

lemma tv1_step:
  assumes "unat \<tau> mod 256 = i" "i \<noteq> unat t mod 256"
  shows "left \<tau> (t + 1) < 256 \<longleftrightarrow> left \<tau> t < 256"
proof -
  have "\<tau> \<noteq> t" using assms by auto
  then have step: "left \<tau> (t + 1) = left \<tau> t - 1" and pos: "0 < left \<tau> t"
    using left_step [of \<tau> t] left_0 [of \<tau> t] by simp_all
  have "(unat t + left \<tau> t) mod 256 = unat \<tau> mod 256" by (rule left_mod) simp
  then have "left \<tau> t \<noteq> 256" using assms by auto
  then show ?thesis using step pos by linarith
qed

lemma on_level_step:
  assumes "on_level n e i t" "above n e t"
  shows "on_level n e i (t + 1)" "e \<noteq> t"
proof -
  have "0 < left e t" using assms(2) by (simp add: above_def)
  then show "on_level n e i (t + 1)" "e \<noteq> t"
    using assms left_step [of e t] left_0 [of e t] by (auto simp: on_level_def above_def)
qed

lemma tv1_now: "left \<tau> t < 256 \<and> unat \<tau> mod 256 = unat t mod 256 \<longleftrightarrow> \<tau> = t"
  using tv1_unique [of \<tau> t t] left_0 [of t t] left_0 [of \<tau> t] by auto

text \<open>The tick and the lists after the timers of the tick have been taken.\<close>

definition taken :: "nat \<Rightarrow> 'a timerboard_scheme \<Rightarrow> 'a timerboard_scheme" where
  "taken index s = (let s = s\<lparr>timer_jiffies := timer_jiffies s + 1\<rparr>
     in s\<lparr>vec := (vec s)(Work := vec s (Tv1 index), Tv1 index := [])\<rparr>)"

lemma collect_taken: "collect s = taken (unat (timer_jiffies s AND 255)) (cascades (unat (timer_jiffies s AND 255)) s)"
  by (simp add: collect_def taken_def Let_def)

lemma taken_simps [simp]:
  "vec (taken i s) = (vec s)(Work := vec s (Tv1 i), Tv1 i := [])" "timer_jiffies (taken i s) = timer_jiffies s + 1"
  "timers (taken i s) = timers s" "jiffies (taken i s) = jiffies s"
  by (simp_all add: taken_def Let_def)

lemma in_lists_taken:
  assumes "vec s Work = []"
  shows "in_lists (taken i s) = in_lists s"
proof (intro set_eqI iffI)
  fix x assume "x \<in> in_lists (taken i s)"
  then obtain h where "x \<in> set (vec (taken i s) h)" unfolding in_lists_def by blast
  then have "x \<in> set (vec s (Tv1 i)) \<or> x \<in> set (vec s h)" by (simp split: if_splits)
  then show "x \<in> in_lists s" using in_listsI by blast
next
  fix x assume "x \<in> in_lists s"
  then obtain h where h: "x \<in> set (vec s h)" unfolding in_lists_def by blast
  then have "h \<noteq> Work" using assms by auto
  then have "x \<in> set (vec (taken i s) (if h = Tv1 i then Work else h))" using h by (cases "h = Tv1 i") simp_all
  then show "x \<in> in_lists (taken i s)" by (rule in_listsI)
qed

lemma slots_ok_taken:
  assumes "slots_ok s" "\<forall>n. settled n s"
  shows "slots_ok (taken i s)"
  unfolding slots_ok_def
proof (intro conjI allI impI)
  note ok = slots_okD [OF assms(1)]
  show "distinct (vec (taken i s) h)" for h using ok(1) by simp
  show "h = g" if "x \<in> set (vec (taken i s) h)" "x \<in> set (vec (taken i s) g)" for h g x
    using that ok(2) [of x] by (auto split: if_splits)
  show "j < 256" if "x \<in> set (vec (taken i s) (Tv1 j))" for j x
    using that ok(3) by (auto split: if_splits)
  show "on_level n (texpires (timers (taken i s) x)) j (timer_jiffies (taken i s))" if "x \<in> set (vec (taken i s) (Tv n j))" for n j x
  proof -
    have x: "x \<in> set (vec s (Tv n j))" using that by simp
    then have "above n (texpires (timers s x)) (timer_jiffies s)" using assms(2) by (auto simp: settled_def)
    then show ?thesis using on_level_step(1) [OF ok(4) [OF x]] by simp
  qed
qed

lemma due_taken:
  assumes "slots_ok s" "\<forall>n. settled n s"
  defines "t \<equiv> timer_jiffies s"
  shows "due (taken (unat t mod 256) s) = {(x, \<tau>) \<in> due s. \<tau> \<noteq> t}" (is "?l = ?r")
    and "set (vec (taken (unat t mod 256) s) Work) = {x. (x, t) \<in> due s}"
proof -
  let ?i = "unat t mod 256"
  have far: "texpires (timers s x) \<noteq> t" if "x \<in> set (vec s (Tv n j))" for n j x
  proof (rule on_level_step(2))
    show "on_level n (texpires (timers s x)) j t" unfolding t_def by (rule slots_okD(4) [OF assms(1) that])
    show "above n (texpires (timers s x)) t" unfolding t_def using assms(2) that by (auto simp: settled_def)
  qed
  have l: "(x, \<tau>) \<in> ?l \<longleftrightarrow> (\<exists>j. j \<noteq> ?i \<and> x \<in> set (vec s (Tv1 j)) \<and> left \<tau> (t + 1) < 256 \<and> unat \<tau> mod 256 = j) \<or>
      (\<exists>n j. x \<in> set (vec s (Tv n j)) \<and> \<tau> = texpires (timers s x))" for x \<tau>
    by (auto simp: due_def t_def split: if_splits)
  have d: "(x, \<tau>) \<in> due s \<longleftrightarrow> (\<exists>j. x \<in> set (vec s (Tv1 j)) \<and> left \<tau> t < 256 \<and> unat \<tau> mod 256 = j) \<or>
      (\<exists>n j. x \<in> set (vec s (Tv n j)) \<and> \<tau> = texpires (timers s x))" for x \<tau>
    by (simp add: due_def t_def)
  have "(x, \<tau>) \<in> ?l \<longleftrightarrow> (x, \<tau>) \<in> due s \<and> \<tau> \<noteq> t" for x \<tau>
  proof (cases "unat \<tau> mod 256 = ?i")
    case True
    then have "left \<tau> t < 256 \<longleftrightarrow> \<tau> = t" using tv1_now by blast
    then show ?thesis unfolding l d using True far by auto
  next
    case False
    then show ?thesis unfolding l d using tv1_step [OF refl False] far by auto
  qed
  then show "?l = ?r" by auto
  have "set (vec (taken ?i s) Work) = set (vec s (Tv1 ?i))" by simp
  moreover have "x \<in> set (vec s (Tv1 ?i)) \<longleftrightarrow> (x, t) \<in> due s" for x
    unfolding d using far left_0 [of t t] by auto
  ultimately show "set (vec (taken ?i s) Work) = {x. (x, t) \<in> due s}" by auto
qed

text \<open>
  The wheel between two ticks, the invariant of the timers: the lists in order, exactly the
  pending timers linked, and nothing left to run.
\<close>

definition wheel_ok :: "'a timerboard_scheme \<Rightarrow> bool" where
  "wheel_ok s \<longleftrightarrow> slots_ok s \<and> pending_ok s \<and> vec s Work = []"

lemma collect_due:
  assumes "wheel_ok s"
  shows "slots_ok (collect s)" "pending_ok (collect s)" "due (collect s) = {(x, \<tau>) \<in> due s. \<tau> \<noteq> timer_jiffies s}"
    "set (vec (collect s) Work) = {x. (x, timer_jiffies s) \<in> due s}" "distinct (vec (collect s) Work)"
    "timer_jiffies (collect s) = timer_jiffies s + 1"
    "\<exists>v tm. collect s = s\<lparr>timer_jiffies := timer_jiffies s + 1, vec := v, timers := tm\<rparr>"
    "texpires (timers (collect s) x) = texpires (timers s x)" "tfunction (timers (collect s) x) = tfunction (timers s x)"
    "tdata (timers (collect s) x) = tdata (timers s x)" "tpending (timers (collect s) x) = tpending (timers s x)"
proof -
  have ok: "slots_ok s" "pending_ok s" and w: "vec s Work = []" using assms by (simp_all add: wheel_ok_def)
  define c where "c = cascades (unat (timer_jiffies s AND 255)) s"
  let ?i = "unat (timer_jiffies s) mod 256"
  have c: "moved s c" "\<forall>n. settled n c" using cascades_moves [OF ok] by (simp_all add: c_def)
  have cs: "collect s = taken ?i c" by (simp add: collect_taken c_def unat_and_255)
  have t: "timer_jiffies c = timer_jiffies s" by (rule moved_jiffies [OF c(1)])
  have m: "slots_ok c" "due c = due s" "in_lists c = in_lists s" "vec c Work = []" using c(1) w by (simp_all add: moved_def)
  show sl: "slots_ok (collect s)" unfolding cs by (rule slots_ok_taken [OF m(1) c(2)])
  show "due (collect s) = {(x, \<tau>) \<in> due s. \<tau> \<noteq> timer_jiffies s}"
    "set (vec (collect s) Work) = {x. (x, timer_jiffies s) \<in> due s}"
    unfolding cs using due_taken [OF m(1) c(2)] by (simp_all add: t m(2))
  show "distinct (vec (collect s) Work)" by (rule slots_okD(1) [OF sl])
  show "timer_jiffies (collect s) = timer_jiffies s + 1" by (simp add: cs t)
  obtain v tm where "c = s\<lparr>vec := v, timers := tm\<rparr>" using c(1) by (auto simp: moved_def)
  then show "\<exists>v tm. collect s = s\<lparr>timer_jiffies := timer_jiffies s + 1, vec := v, timers := tm\<rparr>"
    unfolding cs taken_def Let_def by (intro exI [of _ "vec (taken ?i c)"] exI [of _ tm]) simp
  have "in_lists (taken ?i c) = in_lists c" by (rule in_lists_taken [of c, OF m(4)])
  then show "pending_ok (collect s)" using moved_pending [OF c(1) ok(2)] by (simp add: cs pending_ok_def)
  show "texpires (timers (collect s) x) = texpires (timers s x)" "tfunction (timers (collect s) x) = tfunction (timers s x)"
    "tdata (timers (collect s) x) = tdata (timers s x)" "tpending (timers (collect s) x) = tpending (timers s x)"
    using c(1) by (simp_all add: cs moved_def)
qed

section \<open>The operations\<close>

lemma linked_iff: "slots_ok s \<Longrightarrow> linked x s \<longleftrightarrow> x \<in> in_lists s"
proof -
  assume ok: "slots_ok s"
  have "h \<in> set all_heads" if h: "x \<in> set (vec s h)" for h
  proof (cases h)
    case (Tv1 i)
    then show ?thesis using slots_okD(3) [OF ok] h by (auto simp: all_heads_def)
  next
    case (Tv n i)
    then have "on_level n (texpires (timers s x)) i (timer_jiffies s)" using slots_okD(4) [OF ok, of x n i] h by simp
    then have "n < 4" "i < 64" by (simp_all add: on_level_def)
    then have "\<exists>m \<in> {0..<4}. Tv n i \<in> Tv m ` {0..<64}" by (intro bexI [of _ n]) auto
    then show ?thesis using Tv by (simp add: all_heads_def)
  qed (simp add: all_heads_def)
  then show "linked x s \<longleftrightarrow> x \<in> in_lists s" by (auto simp: linked_def in_lists_def list_ex_iff)
qed

lemma detach_simps [simp]:
  "vec (detach_timer x c s) h = filter (\<lambda>y. y \<noteq> x) (vec s h)" "timer_jiffies (detach_timer x c s) = timer_jiffies s"
  "jiffies (detach_timer x c s) = jiffies s"
  "texpires (timers (detach_timer x c s) y) = texpires (timers s y)"
  "tfunction (timers (detach_timer x c s) y) = tfunction (timers s y)"
  "tdata (timers (detach_timer x c s) y) = tdata (timers s y)"
  "tpending (timers (detach_timer x c s) y) = (if c \<and> y = x then False else tpending (timers s y))"
  by (auto simp: detach_timer_def Let_def)

lemma in_lists_detach [simp]: "in_lists (detach_timer x c s) = in_lists s - {x}"
  by (auto simp: in_lists_def)

lemma slots_ok_detach: "slots_ok s \<Longrightarrow> slots_ok (detach_timer x c s)"
  unfolding slots_ok_def detach_simps set_filter by (simp only: distinct_filter) blast

lemma due_detach: "due (detach_timer x c s) = {(y, \<tau>) \<in> due s. y \<noteq> x}"
  unfolding due_def by auto

lemma pending_ok_detach: "pending_ok s \<Longrightarrow> pending_ok (detach_timer x True s)"
  by (auto simp: pending_ok_def)

lemma detach_frame: "\<exists>v tm. detach_timer x c s = s\<lparr>vec := v, timers := tm\<rparr>"
proof (intro exI)
  show "detach_timer x c s = s\<lparr>vec := vec (detach_timer x c s), timers := timers (detach_timer x c s)\<rparr>"
    by (simp add: detach_timer_def Let_def)
qed

text \<open>The invariant while timers run.\<close>

definition wheel_inv :: "'a timerboard_scheme \<Rightarrow> bool" where
  "wheel_inv s \<longleftrightarrow> slots_ok s \<and> pending_ok s"

lemma wheel_ok_inv: "wheel_ok s \<longleftrightarrow> wheel_inv s \<and> vec s Work = []"
  by (auto simp: wheel_ok_def wheel_inv_def)

lemma collect_inv: "wheel_ok s \<Longrightarrow> wheel_inv (collect s)"
  by (simp add: wheel_inv_def collect_due(1,2))

lemma del_timer_due:
  assumes "wheel_inv s"
  shows "fst (del_timer x s) = timer_pending x s" "wheel_inv (snd (del_timer x s))"
    "due (snd (del_timer x s)) = {(y, \<tau>) \<in> due s. y \<noteq> x}" "\<not> timer_pending x (snd (del_timer x s))"
    "vec (snd (del_timer x s)) Work = filter (\<lambda>y. y \<noteq> x) (vec s Work)"
proof -
  have ok: "slots_ok s" "pending_ok s" using assms by (simp_all add: wheel_inv_def)
  have n: "x \<notin> in_lists s" if "\<not> timer_pending x s" using that ok(2) by (simp add: timer_pending_def pending_ok_def)
  show "fst (del_timer x s) = timer_pending x s" by (simp add: del_timer_def)
  show "wheel_inv (snd (del_timer x s))"
    using ok by (simp add: del_timer_def wheel_inv_def slots_ok_detach pending_ok_detach)
  show "due (snd (del_timer x s)) = {(y, \<tau>) \<in> due s. y \<noteq> x}"
    using n due_in_lists by (auto simp: del_timer_def due_detach)
  show "\<not> timer_pending x (snd (del_timer x s))" by (simp add: del_timer_def timer_pending_def)
  show "vec (snd (del_timer x s)) Work = filter (\<lambda>y. y \<noteq> x) (vec s Work)"
  proof (cases "timer_pending x s")
    case False
    then have "x \<notin> set (vec s Work)" using n in_listsI by blast
    then have "filter (\<lambda>y. y \<noteq> x) (vec s Work) = vec s Work" by (auto intro!: filter_True)
    then show ?thesis using False by (simp add: del_timer_def)
  qed (simp add: del_timer_def)
qed

lemma do_mod_timer_due:
  assumes "wheel_inv s" "tfunction (timers s x) \<noteq> 0"
  shows "\<exists>s'. do_mod_timer x e s = Inr (timer_pending x s, s') \<and> wheel_inv s' \<and>
    due s' = insert (x, due_time (timer_jiffies s) e) {(y, \<tau>) \<in> due s. y \<noteq> x} \<and>
    vec s' Work = filter (\<lambda>y. y \<noteq> x) (vec s Work) \<and> timer_pending x s' \<and>
    (\<forall>y. tfunction (timers s' y) = tfunction (timers s y) \<and> tdata (timers s' y) = tdata (timers s y) \<and>
       texpires (timers s' y) = (if y = x then e else texpires (timers s y))) \<and>
    (\<exists>v tm. s' = s\<lparr>vec := v, timers := tm\<rparr>)"
proof -
  have ok: "slots_ok s" "pending_ok s" using assms(1) by (simp_all add: wheel_inv_def)
  define s1 where "s1 = (if timer_pending x s then detach_timer x False s else s)"
  have x1: "x \<notin> in_lists s1" using ok(2) by (auto simp: s1_def pending_ok_def timer_pending_def)
  have lists1: "in_lists s1 = in_lists s - {x}" using ok(2) by (auto simp: s1_def pending_ok_def timer_pending_def)
  have ok1: "slots_ok s1" using ok(1) by (simp add: s1_def slots_ok_detach)
  have due1: "due s1 = {(y, \<tau>) \<in> due s. y \<noteq> x}"
  proof (cases "timer_pending x s")
    case False
    then show ?thesis using x1 due_in_lists by (auto simp: s1_def)
  qed (simp add: s1_def due_detach)
  have f1: "timer_jiffies s1 = timer_jiffies s" "tfunction (timers s1 y) = tfunction (timers s y)" "tdata (timers s1 y) = tdata (timers s y)"
    "texpires (timers s1 y) = texpires (timers s y)" "tpending (timers s1 y) = tpending (timers s y)" for y
    by (simp_all add: s1_def)
  have w1: "vec s1 Work = filter (\<lambda>y. y \<noteq> x) (vec s Work)"
  proof (cases "timer_pending x s")
    case False
    then have "x \<notin> set (vec s Work)" using x1 in_listsI by (auto simp: s1_def)
    then have "filter (\<lambda>y. y \<noteq> x) (vec s Work) = vec s Work" by (auto intro!: filter_True)
    then show ?thesis using False by (simp add: s1_def)
  qed (simp add: s1_def)
  define s2 where "s2 = s1\<lparr>timers := (timers s1)(x := (timers s1 x)\<lparr>texpires := e\<rparr>)\<rparr>"
  have l2: "in_lists s2 = in_lists s1" "vec s2 = vec s1" "timer_jiffies s2 = timer_jiffies s" by (simp_all add: s2_def in_lists_def f1)
  have x2: "x \<notin> set (vec s1 h)" for h using x1 in_listsI by blast
  have ok2: "slots_ok s2"
    using ok1 x2 unfolding slots_ok_def by (auto simp: s2_def)
  have e2: "texpires (timers s2 y) = texpires (timers s1 y)" if "y \<in> set (vec s1 h)" for y h
    using that x2 [of h] by (auto simp: s2_def)
  have due2: "due s2 = due s1"
    unfolding due_def l2 f1(1) by (auto simp: e2)
  define s' where "s' = internal_add_timer x s2"
  have x2': "x \<notin> in_lists s2" using x1 l2(1) by simp
  note add = internal_add_timer_due [OF ok2 x2', folded s'_def]
  have run: "do_mod_timer x e s = Inr (timer_pending x s, s')"
    using assms(2) x1 linked_iff [OF ok1, of x]
    by (simp add: do_mod_timer_def Let_def s'_def s2_def flip: s1_def)
  have "tpending (timers s2 y) = tpending (timers s y)" for y by (simp add: s2_def f1)
  then have p: "pending_ok s'" using ok(2) lists1 by (auto simp: pending_ok_def s'_def l2)
  have "\<exists>v tm. s1 = s\<lparr>vec := v, timers := tm\<rparr>"
  proof (cases "timer_pending x s")
    case True
    then show ?thesis using detach_frame [of x False s] by (simp add: s1_def)
  next
    case False
    then have "s1 = s\<lparr>vec := vec s, timers := timers s\<rparr>" by (simp add: s1_def)
    then show ?thesis by blast
  qed
  then obtain v tm where fr1: "s1 = s\<lparr>vec := v, timers := tm\<rparr>" by blast
  obtain v' tm' where fr': "s' = s2\<lparr>vec := v', timers := tm'\<rparr>" using internal_add_timer_frame unfolding s'_def by blast
  have fr: "s' = s\<lparr>vec := v', timers := tm'\<rparr>" by (simp add: fr' s2_def fr1)
  have e: "texpires (timers s2 x) = e" by (simp add: s2_def)
  have due: "due s' = insert (x, due_time (timer_jiffies s) e) {(y, \<tau>) \<in> due s. y \<noteq> x}"
    using add(2) unfolding l2 e due2 due1 .
  have fs: "\<forall>y. tfunction (timers s' y) = tfunction (timers s y) \<and> tdata (timers s' y) = tdata (timers s y) \<and>
       texpires (timers s' y) = (if y = x then e else texpires (timers s y))"
    by (simp add: s'_def s2_def f1)
  have w: "vec s' Work = filter (\<lambda>y. y \<noteq> x) (vec s Work)" using add(4) unfolding l2 w1 .
  have pe: "timer_pending x s'" by (simp add: timer_pending_def s'_def)
  have "wheel_inv s'" using add(1) p by (simp add: wheel_inv_def)
  with run due fs w pe fr show ?thesis by blast
qed

lemma add_timer_due:
  assumes "wheel_inv s" "tfunction (timers s x) \<noteq> 0" "\<not> timer_pending x s"
  shows "\<exists>s'. add_timer x s = Inr s' \<and> wheel_inv s' \<and>
    due s' = insert (x, due_time (timer_jiffies s) (texpires (timers s x))) (due s) \<and>
    vec s' Work = vec s Work \<and> timer_pending x s' \<and>
    (\<forall>y. tfunction (timers s' y) = tfunction (timers s y) \<and> tdata (timers s' y) = tdata (timers s y) \<and>
       texpires (timers s' y) = texpires (timers s y)) \<and>
    (\<exists>v tm. s' = s\<lparr>vec := v, timers := tm\<rparr>)"
proof -
  have x: "x \<notin> in_lists s" using assms(1,3) by (simp add: wheel_inv_def pending_ok_def timer_pending_def)
  have d: "{(y, \<tau>) \<in> due s. y \<noteq> x} = due s" using x due_in_lists by auto
  have w: "filter (\<lambda>y. y \<noteq> x) (vec s Work) = vec s Work" using x in_listsI [of x s Work] by (auto intro!: filter_True)
  obtain s' where s': "do_mod_timer x (texpires (timers s x)) s = Inr (timer_pending x s, s')" "wheel_inv s'"
    "due s' = insert (x, due_time (timer_jiffies s) (texpires (timers s x))) (due s)" "vec s' Work = vec s Work" "timer_pending x s'"
    "\<forall>y. tfunction (timers s' y) = tfunction (timers s y) \<and> tdata (timers s' y) = tdata (timers s y) \<and>
       texpires (timers s' y) = (if y = x then texpires (timers s x) else texpires (timers s y))"
    "\<exists>v tm. s' = s\<lparr>vec := v, timers := tm\<rparr>"
    using do_mod_timer_due [OF assms(1,2), of "texpires (timers s x)"] unfolding d w by blast
  have "\<forall>y. tfunction (timers s' y) = tfunction (timers s y) \<and> tdata (timers s' y) = tdata (timers s y) \<and>
       texpires (timers s' y) = texpires (timers s y)" using s'(6) by (metis (full_types))
  with s' assms(3) show ?thesis by (intro exI [of _ s'] conjI) (simp_all add: add_timer_def)
qed

section \<open>Running the timers\<close>

lemma collect_jiffies: "wheel_ok s \<Longrightarrow> jiffies (collect s) = jiffies s"
proof -
  assume "wheel_ok s"
  then obtain v tm where "collect s = s\<lparr>timer_jiffies := timer_jiffies s + 1, vec := v, timers := tm\<rparr>"
    using collect_due(7) by blast
  then show ?thesis by simp
qed

text \<open>How many ticks the wheel is behind.\<close>

definition lag :: "'a timerboard_scheme \<Rightarrow> nat" where
  "lag s = (if time_after_eq (jiffies s) (timer_jiffies s) then Suc (left (jiffies s) (timer_jiffies s)) else 0)"

lemma time_after_eq_left: "time_after_eq a b \<longleftrightarrow> left a b < 2147483648"
  using sint_neg_u32 [of "a - b"] by (auto simp: time_after_eq_def left_def)

lemma lag_step:
  assumes "time_after_eq (jiffies s) (timer_jiffies s)" "jiffies s' = jiffies s" "timer_jiffies s' = timer_jiffies s + 1"
  shows "lag s = Suc (lag s')" "lag s' = 0 \<Longrightarrow> timer_jiffies s' = jiffies s + 1"
proof -
  have "lag s = Suc (lag s') \<and> (lag s' = 0 \<longrightarrow> timer_jiffies s' = jiffies s + 1)"
  proof (cases "jiffies s = timer_jiffies s")
    case True
    have "left (jiffies s') (timer_jiffies s') = 4294967295" unfolding left_def assms(2,3) True
      by (simp add: unsigned_minus_1_eq_mask mask_eq_exp_minus_1)
    then show ?thesis using True assms by (simp add: lag_def time_after_eq_left left_0 [THEN iffD2])
  next
    case False
    then have "0 < left (jiffies s) (timer_jiffies s)" using left_0 by auto
    then show ?thesis using left_step assms by (auto simp: lag_def time_after_eq_left)
  qed
  then show "lag s = Suc (lag s')" "lag s' = 0 \<Longrightarrow> timer_jiffies s' = jiffies s + 1" by simp_all
qed

text \<open>
  What the wheel relies on in the callbacks of its users: called for a timer that has just been
  taken out, a callback returns, keeps the wheel in order and the time, and takes timers only away
  from those still to be run. \<open>client_ok\<close> is whatever the users themselves rely on.
\<close>

locale timer_callbacks =
  fixes call :: "nat \<Rightarrow> u32 \<Rightarrow> 'a timerboard_scheme \<Rightarrow> timer_error + 'a timerboard_scheme"
    and client_ok :: "'a timerboard_scheme \<Rightarrow> bool"
  assumes callback: "wheel_inv s \<Longrightarrow> client_ok s \<Longrightarrow> vec s Work = x # xs \<Longrightarrow>
      \<exists>s'. call (tfunction (timers s x)) (tdata (timers s x)) (detach_timer x True s) = Inr s' \<and> wheel_inv s' \<and> client_ok s' \<and>
        timer_jiffies s' = timer_jiffies s \<and> jiffies s' = jiffies s \<and> (\<exists>P. vec s' Work = filter P xs)"
begin

lemma run_work_returns:
  "wheel_inv s \<Longrightarrow> client_ok s \<Longrightarrow>
   \<exists>s'. run_work call s = Inr s' \<and> wheel_ok s' \<and> client_ok s' \<and> timer_jiffies s' = timer_jiffies s \<and> jiffies s' = jiffies s"
proof (induction "length (vec s Work)" arbitrary: s rule: less_induct)
  case less
  show ?case
  proof (cases "vec s Work")
    case Nil
    then have "run_work call s = Inr s" by (simp add: run_work.simps)
    then show ?thesis using less.prems Nil by (auto simp: wheel_ok_inv)
  next
    case (Cons x xs)
    obtain s1 P where s1: "call (tfunction (timers s x)) (tdata (timers s x)) (detach_timer x True s) = Inr s1"
      "wheel_inv s1" "client_ok s1" "timer_jiffies s1 = timer_jiffies s" "jiffies s1 = jiffies s" "vec s1 Work = filter P xs"
      using callback [OF less.prems Cons] by blast
    have shorter: "length (vec s1 Work) < length (vec s Work)"
      using Cons s1(6) le_imp_less_Suc [OF length_filter_le] by simp
    have "run_work call s = run_work call s1"
      using shorter s1(1) Cons by (subst run_work.simps) simp
    then show ?thesis using less.hyps [OF shorter s1(2,3)] s1(4,5) by simp
  qed
qed

end

text \<open>Callbacks that also bear the timers being collected; then the loop over the missed ticks ends.\<close>

locale timer_users = timer_callbacks +
  assumes collected: "wheel_ok s \<Longrightarrow> client_ok s \<Longrightarrow> client_ok (collect s)"
begin

lemma tick_returns:
  assumes "wheel_ok s" "client_ok s"
  shows "\<exists>s'. run_work call (collect s) = Inr s' \<and> wheel_ok s' \<and> client_ok s' \<and> timer_jiffies s' = timer_jiffies s + 1 \<and> jiffies s' = jiffies s"
proof -
  show ?thesis
    using run_work_returns [OF collect_inv [OF assms(1)] collected [OF assms]] collect_due(6) [OF assms(1)] collect_jiffies [OF assms(1)] by auto
qed

text \<open>One round for each missed tick is enough fuel, and afterwards the wheel is up to date.\<close>

lemma run_timers_returns:
  "wheel_ok s \<Longrightarrow> client_ok s \<Longrightarrow> lag s \<le> n \<Longrightarrow>
   \<exists>s'. run_timers n call s = Inr s' \<and> wheel_ok s' \<and> client_ok s' \<and> jiffies s' = jiffies s \<and> lag s' = 0 \<and>
     (0 < lag s \<longrightarrow> timer_jiffies s' = jiffies s' + 1)"
proof (induction n arbitrary: s)
  case 0
  then have "\<not> time_after_eq (jiffies s) (timer_jiffies s)" by (simp add: lag_def split: if_splits)
  then show ?case using 0 by (subst run_timers.simps) simp
next
  case (Suc n)
  show ?case
  proof (cases "time_after_eq (jiffies s) (timer_jiffies s)")
    case False
    then show ?thesis using Suc.prems by (subst run_timers.simps) (simp add: lag_def)
  next
    case True
    obtain s1 where s1: "run_work call (collect s) = Inr s1" "wheel_ok s1" "client_ok s1"
      "timer_jiffies s1 = timer_jiffies s + 1" "jiffies s1 = jiffies s"
      using tick_returns [OF Suc.prems(1,2)] by blast
    note l = lag_step [OF True s1(5,4)]
    have "run_timers (Suc n) call s = run_timers n call s1" using True s1(1) by (subst run_timers.simps) simp
    moreover obtain s' where s': "run_timers n call s1 = Inr s'" "wheel_ok s'" "client_ok s'" "jiffies s' = jiffies s1" "lag s' = 0"
      "0 < lag s1 \<longrightarrow> timer_jiffies s' = jiffies s' + 1" using Suc.IH [OF s1(2,3)] l(1) Suc.prems(3) by auto
    moreover have "timer_jiffies s' = jiffies s' + 1"
    proof (cases "lag s1 = 0")
      case True
      then have "\<not> time_after_eq (jiffies s1) (timer_jiffies s1)" by (simp add: lag_def split: if_splits)
      then have "s' = s1" using s'(1) by (subst (asm) run_timers.simps) simp
      then show ?thesis using l(2) True s1(4,5) by simp
    qed (use s'(6) in simp)
    ultimately show ?thesis using s1(5) by auto
  qed
qed

end

text \<open>Callbacks that do nothing to the timers: whatever is pending, the wheel is served to the end.\<close>

definition idle_call :: "nat \<Rightarrow> u32 \<Rightarrow> 'a timerboard_scheme \<Rightarrow> timer_error + 'a timerboard_scheme" where
  "idle_call f d s = Inr s"

lemma idle_callback:
  assumes "wheel_inv s" "vec s Work = x # xs"
  shows "wheel_inv (detach_timer x True s)" "vec (detach_timer x True s) Work = filter (\<lambda>y. y \<noteq> x) xs"
  using assms by (simp_all add: wheel_inv_def slots_ok_detach pending_ok_detach)

interpretation idle: timer_users idle_call "\<lambda>_. True"
proof unfold_locales
  fix s :: "'a timerboard_scheme" and x xs
  assume "wheel_inv s" "vec s Work = x # xs"
  then show "\<exists>s'. idle_call (tfunction (timers s x)) (tdata (timers s x)) (detach_timer x True s) = Inr s' \<and> wheel_inv s' \<and> True \<and>
        timer_jiffies s' = timer_jiffies s \<and> jiffies s' = jiffies s \<and> (\<exists>P. vec s' Work = filter P xs)"
    using idle_callback by (auto simp: idle_call_def)
qed simp

section \<open>Timers run on time\<close>

interpretation agenda: timer_callbacks idle_call "\<lambda>s. due s = D" for D
proof unfold_locales
  fix s :: "'a timerboard_scheme" and x xs
  assume a: "wheel_inv s" "due s = D" "vec s Work = x # xs"
  have "x \<notin> fst ` due s"
  proof
    assume "x \<in> fst ` due s"
    then obtain h where "x \<in> set (vec s h)" "h \<noteq> Work" by (auto simp: due_def)
    moreover have "x \<in> set (vec s Work)" using a(3) by simp
    ultimately show False using a(1) slots_okD(2) by (fastforce simp: wheel_inv_def)
  qed
  then have "due (detach_timer x True s) = D" unfolding due_detach using a(2) by force
  then show "\<exists>s'. idle_call (tfunction (timers s x)) (tdata (timers s x)) (detach_timer x True s) = Inr s' \<and> wheel_inv s' \<and> due s' = D \<and>
        timer_jiffies s' = timer_jiffies s \<and> jiffies s' = jiffies s \<and> (\<exists>P. vec s' Work = filter P xs)"
    using idle_callback [OF a(1,3)] by (auto simp: idle_call_def)
qed

text \<open>A tick in which the callbacks leave the wheel alone, and whether a timer is run in the \<open>i\<close>th tick from now.\<close>

definition idle_tick :: "'a timerboard_scheme \<Rightarrow> 'a timerboard_scheme" where
  "idle_tick s = (case run_work idle_call (collect s) of Inl _ \<Rightarrow> s | Inr s' \<Rightarrow> s')"

definition runs_at :: "nat \<Rightarrow> nat \<Rightarrow> 'a timerboard_scheme \<Rightarrow> bool" where
  "runs_at i x s \<longleftrightarrow> x \<in> set (vec (collect ((idle_tick ^^ i) s)) Work)"

lemma idle_tick_due:
  assumes "wheel_ok s"
  shows "wheel_ok (idle_tick s)" "due (idle_tick s) = {(x, \<tau>) \<in> due s. \<tau> \<noteq> timer_jiffies s}"
    "timer_jiffies (idle_tick s) = timer_jiffies s + 1"
  using agenda.run_work_returns [OF collect_inv [OF assms] refl] collect_due(3,6) [OF assms]
  by (auto simp: idle_tick_def)

lemma idle_ticks_due:
  "wheel_ok s \<Longrightarrow> wheel_ok ((idle_tick ^^ i) s) \<and> timer_jiffies ((idle_tick ^^ i) s) = timer_jiffies s + of_nat i \<and>
   due ((idle_tick ^^ i) s) = {(x, \<tau>) \<in> due s. \<forall>j < i. \<tau> \<noteq> timer_jiffies s + of_nat j}"
proof (induction i)
  case (Suc i)
  then show ?case using idle_tick_due [of "(idle_tick ^^ i) s"] by (auto simp: less_Suc_eq)
qed auto

lemma runs_at_due: "wheel_ok s \<Longrightarrow> runs_at i x s \<longleftrightarrow>
    (x, timer_jiffies s + of_nat i) \<in> due s \<and> (\<forall>j < i. of_nat i \<noteq> (of_nat j :: u32))"
  using idle_ticks_due [of s i] collect_due(4) [of "(idle_tick ^^ i) s"] by (auto simp: runs_at_def)

lemma left_of_nat: "left \<tau> t = i \<longleftrightarrow> \<tau> = t + of_nat i \<and> (\<forall>j < i. of_nat i \<noteq> (of_nat j :: u32))"
proof
  assume l: "left \<tau> t = i"
  have "\<tau> - t = of_nat i" using l unfolding left_def by auto
  then have "\<tau> = t + of_nat i" by (metis add.commute diff_add_cancel)
  moreover have "i < 4294967296" using l unat_u32_bound [of "\<tau> - t"] by (simp add: left_def)
  then have "of_nat i \<noteq> (of_nat j :: u32)" if "j < i" for j
    using that by (simp add: word_unat_eq_iff unsigned_of_nat take_bit_eq_mod)
  ultimately show "\<tau> = t + of_nat i \<and> (\<forall>j < i. of_nat i \<noteq> (of_nat j :: u32))" by blast
next
  assume a: "\<tau> = t + of_nat i \<and> (\<forall>j < i. of_nat i \<noteq> (of_nat j :: u32))"
  have "i < 4294967296"
  proof (rule ccontr)
    assume "\<not> i < 4294967296"
    then have "i mod 4294967296 < i" by (meson mod_less_divisor le_less_trans less_le_trans not_less zero_less_numeral)
    moreover have "(of_nat i :: u32) = of_nat (i mod 4294967296)" by (simp add: word_unat_eq_iff unsigned_of_nat take_bit_eq_mod)
    ultimately show False using a by blast
  qed
  then show "left \<tau> t = i" using a by (simp add: left_def unsigned_of_nat take_bit_eq_mod)
qed


text \<open>
  A timer that is initialized while it is pending ruins the wheel. \<open>init_timer\<close> forgets that
  the timer is linked, so \<open>add_timer\<close>, whose check for this is passed, links it a second time.
\<close>

theorem init_pending_corrupts:
  assumes "wheel_ok s" "timer_pending x s" "tfunction (timers s x) \<noteq> 0"
  shows "add_timer x s = Inl BugOn \<and> add_timer x (init_timer x s) = Inl ListCorrupt"
proof

  show "add_timer x s = Inl BugOn" using assms(2) by (simp add: add_timer_def)
  have "x \<in> in_lists s" using assms(1,2) by (simp add: wheel_ok_def pending_ok_def timer_pending_def)
  then have l: "linked x s" using assms(1) linked_iff by (auto simp: wheel_ok_def)
  have "linked x (init_timer x s)" using l by (simp add: linked_def init_timer_def)
  then show "add_timer x (init_timer x s) = Inl ListCorrupt"
    using assms(3) by (simp add: add_timer_def do_mod_timer_def timer_pending_def init_timer_def linked_def)
qed

text \<open>A board on which nothing is pending.\<close>

definition idle_timer :: timer_list where
  "idle_timer = \<lparr>texpires = 0, tfunction = 1, tdata = 0, tpending = False\<rparr>"

definition timer_board :: timerboard where
  "timer_board = irqboard.extend irq_board (timerboard.fields 1 (\<lambda>_. []) (\<lambda>_. idle_timer))"

lemma timer_board_ok: "wheel_ok timer_board" "tfunction (timers timer_board x) = 1" "timer_jiffies timer_board = 1"
  "timer_pending x timer_board = False"
  by (simp_all add: wheel_ok_def slots_ok_def pending_ok_def in_lists_def timer_board_def irqboard.extend_def
      timerboard.fields_def idle_timer_def timer_pending_def)


theorem init_pending_corrupts_witness:
  "\<exists>s'. do_mod_timer 7 20 timer_board = Inr (False, s') \<and> add_timer 7 (init_timer 7 s') = Inl ListCorrupt"
proof -
  obtain s' where s': "do_mod_timer 7 20 timer_board = Inr (False, s')" "wheel_inv s'" "vec s' Work = []" "timer_pending 7 s'"
    "tfunction (timers s' 7) = 1"
    using do_mod_timer_due [of timer_board 7 20] timer_board_ok by (auto simp: wheel_ok_inv)
  then have "wheel_ok s'" by (simp add: wheel_ok_inv)
  then show ?thesis using init_pending_corrupts [of s' 7] s' by auto
qed

section \<open>The wheel keeps its shape\<close>

text \<open>
  What is done to the timers between two ticks and at a tick: a timer is set, added or cancelled,
  the owner of a timer that is not pending writes its fields (\<open>init_timer\<close> is such a write), and
  the timer interrupt runs what is due, calling functions that keep the contract of the callbacks.
\<close>

inductive wheel_step :: "'a timerboard_scheme \<Rightarrow> 'a timerboard_scheme \<Rightarrow> bool" where
  step_mod: "mod_timer x e s = Inr (p, s') \<Longrightarrow> wheel_step s s'"
| step_add: "add_timer x s = Inr s' \<Longrightarrow> wheel_step s s'"
| step_del: "wheel_step s (snd (del_timer x s))"
| step_write: "\<not> timer_pending x s \<Longrightarrow> \<not> tpending t \<Longrightarrow> wheel_step s (s\<lparr>timers := (timers s)(x := t)\<rparr>)"
| step_tick: "timer_users call (\<lambda>_. True) \<Longrightarrow> timer_tick n call s = Inr s' \<Longrightarrow> wheel_step s s'"

inductive wheel_steps :: "'a timerboard_scheme \<Rightarrow> 'a timerboard_scheme \<Rightarrow> bool" where
  steps_none: "wheel_steps s s"
| steps_more: "wheel_steps s s' \<Longrightarrow> wheel_step s' s'' \<Longrightarrow> wheel_steps s s''"

lemma write_ok:
  assumes "wheel_ok s" "\<not> timer_pending x s" "\<not> tpending t"
  shows "wheel_ok (s\<lparr>timers := (timers s)(x := t)\<rparr>)"
proof -
  have x: "x \<notin> set (vec s h)" for h using assms(1,2) by (auto simp: wheel_ok_def pending_ok_def timer_pending_def in_lists_def)
  let ?s = "s\<lparr>timers := (timers s)(x := t)\<rparr>"
  have "y \<in> set (vec s h) \<Longrightarrow> timers ?s y = timers s y" for y h using x by auto
  then have "slots_ok ?s" using assms(1) by (simp add: wheel_ok_def slots_ok_def)
  moreover have "in_lists ?s = in_lists s" by (simp add: in_lists_def)
  then have "pending_ok ?s" using assms(1,3) x by (auto simp: wheel_ok_def pending_ok_def in_lists_def)
  ultimately show ?thesis using assms(1) by (simp add: wheel_ok_def)
qed

lemma do_mod_ok:
  assumes "wheel_ok s" "do_mod_timer x e s = Inr (p, s')"
  shows "wheel_ok s'"
proof -
  have inv: "wheel_inv s" "vec s Work = []" using assms(1) by (simp_all add: wheel_ok_inv)
  have f: "tfunction (timers s x) \<noteq> 0"
  proof
    assume "tfunction (timers s x) = 0"
    then have "do_mod_timer x e s = Inl BugOn" unfolding do_mod_timer_def by (rule if_P)
    then show False using assms(2) by simp
  qed
  obtain s1 where "do_mod_timer x e s = Inr (timer_pending x s, s1)" "wheel_inv s1" "vec s1 Work = filter (\<lambda>y. y \<noteq> x) (vec s Work)"
    using do_mod_timer_due [OF inv(1) f] by blast
  then show ?thesis using assms(2) inv(2) by (simp add: wheel_ok_inv)
qed

lemma jiffies_ok: "wheel_ok (s\<lparr>jiffies := j\<rparr>) = wheel_ok s"
  by (simp add: wheel_ok_def slots_ok_def pending_ok_def in_lists_def)

context timer_users
begin

lemma run_timers_keeps: "wheel_ok s \<Longrightarrow> client_ok s \<Longrightarrow> run_timers n call s = Inr s' \<Longrightarrow> wheel_ok s' \<and> client_ok s'"
proof (induction n arbitrary: s)
  case 0
  then show ?case by (subst (asm) run_timers.simps) (simp split: if_splits)
next
  case (Suc n)
  show ?case
  proof (cases "time_after_eq (jiffies s) (timer_jiffies s)")
    case True
    obtain s1 where s1: "run_work call (collect s) = Inr s1" "wheel_ok s1" "client_ok s1"
      using tick_returns [OF Suc.prems(1,2)] by blast
    then have "run_timers n call s1 = Inr s'" using Suc.prems(3) True by (subst (asm) run_timers.simps) simp
    then show ?thesis by (rule Suc.IH [OF s1(2,3)])
  next
    case False
    then show ?thesis using Suc.prems by (subst (asm) run_timers.simps) simp
  qed
qed

end

lemma mod_timer_ok:
  assumes "wheel_ok s" "mod_timer x e s = Inr (p, s')"
  shows "wheel_ok s'"
proof (cases "texpires (timers s x) = e \<and> timer_pending x s")
  case True
  then have "s' = s" using assms(2) unfolding mod_timer_def by (simp split: if_split_asm)
  then show ?thesis using assms(1) by (simp only:)
next
  case False
  then have "do_mod_timer x e s = Inr (p, s')" using assms(2) unfolding mod_timer_def by (simp split: if_split_asm)
  then show ?thesis by (rule do_mod_ok [OF assms(1)])
qed

lemma add_timer_ok:
  assumes "wheel_ok s" "add_timer x s = Inr s'"
  shows "wheel_ok s'"
proof -
  have "\<not> timer_pending x s"
  proof
    assume "timer_pending x s"
    then have "add_timer x s = Inl BugOn" unfolding add_timer_def by (rule if_P)
    then show False using assms(2) by simp
  qed
  then have run: "map_sum (\<lambda>e. e) snd (do_mod_timer x (texpires (timers s x)) s) = Inr s'"
    using assms(2) unfolding add_timer_def by (simp only: if_False)
  show ?thesis
  proof (cases "do_mod_timer x (texpires (timers s x)) s")
    case (Inl err)
    then show ?thesis using run by simp
  next
    case (Inr r)
    then have "do_mod_timer x (texpires (timers s x)) s = Inr (fst r, s')" using run by (cases r) simp
    then show ?thesis by (rule do_mod_ok [OF assms(1)])
  qed
qed

lemma del_timer_ok:
  assumes "wheel_ok s"
  shows "wheel_ok (snd (del_timer x s))"
proof -
  have inv: "wheel_inv s" "vec s Work = []" using assms by (simp_all add: wheel_ok_inv)
  show ?thesis using del_timer_due(2,5) [OF inv(1)] inv(2) by (simp add: wheel_ok_inv)
qed

lemma timer_tick_ok:
  assumes "wheel_ok s" "timer_users call (\<lambda>_. True)" "timer_tick n call s = Inr s'"
  shows "wheel_ok s'"
  using timer_users.run_timers_keeps [OF assms(2) _ TrueI assms(3) [unfolded timer_tick_def]] assms(1)
  by (simp only: jiffies_ok)

lemma wheel_step_ok:
  assumes "wheel_step s s'" "wheel_ok s"
  shows "wheel_ok s'"
  using assms(1)
proof cases
  case (step_mod x e p)
  show ?thesis by (rule mod_timer_ok [OF assms(2) step_mod])
next
  case (step_add x)
  show ?thesis by (rule add_timer_ok [OF assms(2) step_add])
next
  case (step_del x)
  show ?thesis unfolding step_del by (rule del_timer_ok [OF assms(2)])
next
  case (step_write x t)
  show ?thesis unfolding step_write(1) by (rule write_ok [OF assms(2) step_write(2,3)])
next
  case (step_tick call n)
  show ?thesis by (rule timer_tick_ok [OF assms(2) step_tick])
qed


lemma board_tick: "\<exists>s. timer_tick 3 idle_call timer_board = Inr s"
proof -
  let ?s = "timer_board\<lparr>jiffies := jiffies timer_board + 1\<rparr>"
  have l: "lag ?s \<le> 3"
    by (simp add: lag_def left_def timer_board_def irqboard.extend_def irq_board_def timerboard.fields_def time_after_eq_def)
  have w: "wheel_ok ?s" unfolding jiffies_ok by (rule timer_board_ok)
  show ?thesis unfolding timer_tick_def using idle.run_timers_returns [OF w TrueI l] by (elim exE conjE) (rule exI)
qed


end
