(* ===== verification/TimerDriver.thy ===== *)
theory TimerDriver
  imports TimerWheel KeyButton
begin

unbundle bit_operations_syntax

text \<open>
  The LED driver with a kernel timer (fri/kernelTimer/el2440_led.c) on the timer wheel: a write
  starts a timer that starts itself again every 20 ticks and, every tenth time, signals the
  process whose number was written. Its load, unload, open, release, read and the display of the
  LEDs are those of thu/led, character for character.
\<close>

section \<open>The driver\<close>

text \<open>\<open>id\<close> is \<open>timer_pid\<close> here; the timer and the function are at some address.\<close>

record timer_driver = timerboard +
  timer_pid :: int
  counter :: int
  timer_occur :: int

definition TIMER_INTERVAL :: u32 where "TIMER_INTERVAL = 20"

definition mytimer :: nat where "mytimer = 0xbf000400"
definition mypollingfunction_address :: nat where "mypollingfunction_address = 0xbf000000"

definition set_expires :: "nat \<Rightarrow> u32 \<Rightarrow> 'a timerboard_scheme \<Rightarrow> 'a timerboard_scheme" where
  "set_expires x e s = s\<lparr>timers := (timers s)(x := (timers s x)\<lparr>texpires := e\<rparr>)\<rparr>"

definition set_function :: "nat \<Rightarrow> nat \<Rightarrow> 'a timerboard_scheme \<Rightarrow> 'a timerboard_scheme" where
  "set_function x f s = s\<lparr>timers := (timers s)(x := (timers s x)\<lparr>tfunction := f\<rparr>)\<rparr>"

definition mypollingfunction :: "u32 \<Rightarrow> 'a timer_driver_scheme \<Rightarrow> timer_error + 'a timer_driver_scheme" where
  "mypollingfunction d s =
     (let s = (if counter s = 10 then kill_proc (timer_pid s) SIGUSR1 (s\<lparr>counter := 0\<rparr>) else s);
          s = s\<lparr>counter := counter s + 1, timer_occur := timer_occur s + 1\<rparr>
      in add_timer mytimer (set_expires mytimer (jiffies s + TIMER_INTERVAL) s))"

text \<open>Calling a timer's function by its address; what other timers do does not concern this driver.\<close>

definition timer_call :: "nat \<Rightarrow> u32 \<Rightarrow> 'a timer_driver_scheme \<Rightarrow> timer_error + 'a timer_driver_scheme" where
  "timer_call f d s = (if f = mypollingfunction_address then mypollingfunction d s else Inr s)"

text \<open>\<open>mdelay\<close>, during which the timer interrupt goes on, is an argument.\<close>

definition timer_led_write :: "(nat \<Rightarrow> 'a timer_driver_scheme \<Rightarrow> timer_error + 'a timer_driver_scheme) \<Rightarrow>
    string \<Rightarrow> 'a timer_driver_scheme \<Rightarrow> timer_error + int \<times> 'a timer_driver_scheme" where
  "timer_led_write mdelay buf s =
     (let s = init_timer mytimer s;
          s = set_expires mytimer (jiffies s + TIMER_INTERVAL) s;
          s = set_function mytimer mypollingfunction_address s in
      case add_timer mytimer s of
        Inl e \<Rightarrow> Inl e
      | Inr s \<Rightarrow>
          let s = s\<lparr>timer_pid := get_user_int buf\<rparr>; s = printk ''write id = %d'' [timer_pid s] s in
          (case mdelay 250 (Led_Display 0 s) of
             Inl e \<Rightarrow> Inl e
           | Inr s \<Rightarrow> (case mdelay 250 (Led_Display 1 s) of Inl e \<Rightarrow> Inl e | Inr s \<Rightarrow> Inr (0, s))))"

text \<open>Time passes: timer interrupts, each of which finds the wheel up to date but for the new tick.\<close>

fun ticks :: "nat \<Rightarrow> 'a timerboard_scheme callback \<Rightarrow> 'a timerboard_scheme \<Rightarrow> timer_error + 'a timerboard_scheme" where
  "ticks 0 call s = Inr s"
| "ticks (Suc n) call s = (case timer_tick 1 call s of Inl e \<Rightarrow> Inl e | Inr s \<Rightarrow> ticks n call s)"

section \<open>The driver as a user of the wheel\<close>

definition only_polling :: "'a timerboard_scheme \<Rightarrow> bool" where
  "only_polling s \<longleftrightarrow> (\<forall>x. tfunction (timers s x) = mypollingfunction_address \<longleftrightarrow> x = mytimer)"

type_synonym poll_values = "int \<times> int \<times> (int \<times> int) list"

definition poll_values :: "'a timer_driver_scheme \<Rightarrow> poll_values" where
  "poll_values s = (counter s, timer_occur s, signals s)"

text \<open>What one call of the function does to the counters and the signals.\<close>

definition fire :: "int \<Rightarrow> poll_values \<Rightarrow> poll_values" where
  "fire p = (\<lambda>(c, k, g). (if c = 10 then 1 else c + 1, k + 1, if c = 10 then g @ [(p, SIGUSR1)] else g))"

text \<open>
  While the timers of tick \<open>J\<close> run: either the driver's timer is still to run, and then will be
  due 20 ticks later and change the values from \<open>A\<close> to \<open>B\<close>; or it is due at \<open>\<tau>\<close> with values \<open>B\<close>.
\<close>

definition polled :: "u32 \<Rightarrow> u32 \<Rightarrow> int \<Rightarrow> u32 \<Rightarrow> poll_values \<Rightarrow> poll_values \<Rightarrow> 'a timer_driver_scheme \<Rightarrow> bool" where
  "polled J \<tau> p G A B s \<longleftrightarrow> only_polling s \<and> jiffies s = J \<and> timer_jiffies s = J + 1 \<and> timer_pid s = p \<and> gpfdat s = G \<and>
     (mytimer \<in> set (vec s Work) \<and> poll_values s = A \<and> \<tau> = J + TIMER_INTERVAL \<and> B = fire p A \<or>
      (mytimer, \<tau>) \<in> due s \<and> poll_values s = B)"

lemma work_not_due:
  assumes "slots_ok s" "x \<in> set (vec s Work)"
  shows "(x, \<tau>) \<notin> due s"
proof
  assume "(x, \<tau>) \<in> due s"
  then obtain h where h: "x \<in> set (vec s h)" "h \<noteq> Work" by (auto simp: due_def)
  then show False using slots_okD(2) [OF assms(1) h(1) assms(2)] by simp
qed

lemma due_time_interval: "due_time (J + 1) (J + TIMER_INTERVAL) = J + TIMER_INTERVAL"
  by (simp add: due_time_def TIMER_INTERVAL_def)

lemma mypollingfunction_runs:
  assumes "wheel_inv s" "tfunction (timers s mytimer) \<noteq> 0" "\<not> timer_pending mytimer s" "timer_jiffies s = jiffies s + 1"
  shows "\<exists>s'. mypollingfunction d s = Inr s' \<and> wheel_inv s' \<and> due s' = insert (mytimer, jiffies s + TIMER_INTERVAL) (due s) \<and>
    vec s' Work = vec s Work \<and> poll_values s' = fire (timer_pid s) (poll_values s) \<and>
    (\<forall>y. tfunction (timers s' y) = tfunction (timers s y)) \<and> jiffies s' = jiffies s \<and> timer_jiffies s' = timer_jiffies s \<and>
    timer_pid s' = timer_pid s \<and> gpfdat s' = gpfdat s"
proof -
  define s1 where "s1 = (if counter s = 10 then kill_proc (timer_pid s) SIGUSR1 (s\<lparr>counter := 0\<rparr>) else s)"
  define s2 where "s2 = s1\<lparr>counter := counter s1 + 1, timer_occur := timer_occur s1 + 1\<rparr>"
  define s3 where "s3 = set_expires mytimer (jiffies s2 + TIMER_INTERVAL) s2"
  have f3: "vec s3 = vec s" "timer_jiffies s3 = timer_jiffies s" "jiffies s3 = jiffies s" "timer_pid s3 = timer_pid s" "gpfdat s3 = gpfdat s"
    "timers s3 = (timers s)(mytimer := (timers s mytimer)\<lparr>texpires := jiffies s + TIMER_INTERVAL\<rparr>)"
    "poll_values s3 = fire (timer_pid s) (poll_values s)"
    by (simp_all add: s3_def s2_def s1_def set_expires_def kill_proc_def poll_values_def fire_def)
  have p: "tpending (timers s3 x) = tpending (timers s x)" "tfunction (timers s3 x) = tfunction (timers s x)"
    "x \<noteq> mytimer \<Longrightarrow> texpires (timers s3 x) = texpires (timers s x)" for x by (simp_all add: f3)
  have n: "mytimer \<notin> set (vec s h)" for h
    using assms(1,3) in_listsI by (auto simp: wheel_inv_def pending_ok_def timer_pending_def)
  have e: "texpires (timers s3 x) = texpires (timers s x)" if "x \<in> set (vec s h)" for x h
    using that n by (intro p(3)) auto
  have ok3: "slots_ok s3" using assms(1) unfolding wheel_inv_def slots_ok_def f3(1,2) by (auto simp: e)
  have due3: "due s3 = due s" unfolding due_def f3(1,2) by (auto simp: e)
  have inv3: "wheel_inv s3" using ok3 assms(1) unfolding wheel_inv_def pending_ok_def in_lists_def f3(1) p by simp
  have t3: "texpires (timers s3 mytimer) = jiffies s + TIMER_INTERVAL" by (simp add: f3)
  obtain s' v tm where s': "add_timer mytimer s3 = Inr s'" "wheel_inv s'"
    "due s' = insert (mytimer, due_time (timer_jiffies s3) (texpires (timers s3 mytimer))) (due s3)" "vec s' Work = vec s3 Work"
    "\<forall>y. tfunction (timers s' y) = tfunction (timers s3 y)" "s' = s3\<lparr>vec := v, timers := tm\<rparr>"
    using add_timer_due [OF inv3, of mytimer] assms(2,3) unfolding timer_pending_def p by blast
  have run: "mypollingfunction d s = Inr s'"
    using s'(1) unfolding mypollingfunction_def Let_def s3_def s2_def s1_def by simp
  have "jiffies s' = jiffies s \<and> timer_jiffies s' = timer_jiffies s \<and> timer_pid s' = timer_pid s \<and> gpfdat s' = gpfdat s \<and>
      poll_values s' = poll_values s3" unfolding s'(6) by (simp add: f3 poll_values_def)
  moreover have "due s' = insert (mytimer, jiffies s + TIMER_INTERVAL) (due s)"
    unfolding s'(3) t3 due3 f3(2) assms(4) due_time_interval ..
  ultimately show ?thesis using run s'(2,4,5) f3(1,7) p(2) by (intro exI [of _ s']) simp
qed

interpretation poll: timer_callbacks timer_call "polled J \<tau> p G A B" for J \<tau> p G A B
proof unfold_locales
  fix s :: "'a timer_driver_scheme" and x xs
  assume inv: "wheel_inv s" and cl: "polled J \<tau> p G A B s" and w: "vec s Work = x # xs"
  define s1 where "s1 = detach_timer x True s"
  have inv1: "wheel_inv s1" and w1: "vec s1 Work = filter (\<lambda>y. y \<noteq> x) xs"
    using idle_callback [OF inv w] by (simp_all add: s1_def)
  have x: "x \<in> set (vec s Work)" using w by simp
  have c: "only_polling s" "jiffies s = J" "timer_jiffies s = J + 1" "timer_pid s = p" "gpfdat s = G"
    using cl by (simp_all add: polled_def)
  obtain v tm where fr: "s1 = s\<lparr>vec := v, timers := tm\<rparr>" using detach_frame unfolding s1_def by blast
  have v1: "poll_values s1 = poll_values s" "timer_pid s1 = p" "gpfdat s1 = G"
    using c unfolding fr by (simp_all add: poll_values_def)
  have f1: "jiffies s1 = J" "timer_jiffies s1 = J + 1" "\<And>y. tfunction (timers s1 y) = tfunction (timers s y)"
    using c by (simp_all add: s1_def)
  have due1: "due s1 = due s"
    using work_not_due [OF _ x] inv unfolding s1_def due_detach wheel_inv_def by auto
  show "\<exists>s'. timer_call (tfunction (timers s x)) (tdata (timers s x)) (detach_timer x True s) = Inr s' \<and> wheel_inv s' \<and>
      polled J \<tau> p G A B s' \<and> timer_jiffies s' = timer_jiffies s \<and> jiffies s' = jiffies s \<and> (\<exists>P. vec s' Work = filter P xs)"
  proof (cases "x = mytimer")
    case True
    have "(mytimer, \<tau>) \<notin> due s" using work_not_due x inv True by (auto simp: wheel_inv_def)
    then have A: "poll_values s = A" "\<tau> = J + TIMER_INTERVAL" "B = fire p A" using cl by (auto simp: polled_def)
    have f: "tfunction (timers s mytimer) = mypollingfunction_address" using c(1) by (simp add: only_polling_def)
    have "tfunction (timers s1 mytimer) \<noteq> 0" unfolding f1 f by (simp add: mypollingfunction_address_def)
    moreover have "\<not> timer_pending mytimer s1" by (simp add: s1_def True timer_pending_def)
    ultimately obtain s' where s': "mypollingfunction (tdata (timers s x)) s1 = Inr s'" "wheel_inv s'"
      "due s' = insert (mytimer, jiffies s1 + TIMER_INTERVAL) (due s1)"
      "vec s' Work = vec s1 Work" "poll_values s' = fire (timer_pid s1) (poll_values s1)" "\<forall>y. tfunction (timers s' y) = tfunction (timers s1 y)"
      "jiffies s' = jiffies s1" "timer_jiffies s' = timer_jiffies s1" "timer_pid s' = timer_pid s1" "gpfdat s' = gpfdat s1"
      using mypollingfunction_runs [OF inv1, of "tdata (timers s x)"] f1 by blast
    have "polled J \<tau> p G A B s'" unfolding polled_def using s' c(1) A f1 v1 by (simp add: only_polling_def)
    moreover have "timer_call (tfunction (timers s x)) (tdata (timers s x)) (detach_timer x True s) = Inr s'"
      using s'(1) f True by (simp add: timer_call_def s1_def)
    ultimately show ?thesis using s'(2,4,7,8) w1 c f1 by (intro exI [of _ s']) auto
  next
    case False
    have "tfunction (timers s x) \<noteq> mypollingfunction_address" using c(1) False by (simp add: only_polling_def)
    then have run: "timer_call (tfunction (timers s x)) (tdata (timers s x)) (detach_timer x True s) = Inr s1"
      by (simp add: timer_call_def s1_def)
    have "mytimer \<in> set (vec s1 Work) \<longleftrightarrow> mytimer \<in> set (vec s Work)" using False by (auto simp: w w1)
    then have "polled J \<tau> p G A B s1" using cl unfolding polled_def due1 v1 f1 only_polling_def by simp
    then show ?thesis using run inv1 w1 c f1 by auto
  qed
qed

section \<open>A tick\<close>

text \<open>The driver's timer is armed for \<open>\<tau>\<close>, between two ticks.\<close>

definition armed :: "u32 \<Rightarrow> 'a timer_driver_scheme \<Rightarrow> bool" where
  "armed \<tau> s \<longleftrightarrow> wheel_ok s \<and> only_polling s \<and> timer_jiffies s = jiffies s + 1 \<and> (mytimer, \<tau>) \<in> due s"

lemma tick_runs:
  assumes "armed \<tau> s"
  shows "\<exists>s'. timer_tick 1 timer_call s = Inr s' \<and> armed (if \<tau> = jiffies s + 1 then jiffies s + 1 + TIMER_INTERVAL else \<tau>) s' \<and>
    jiffies s' = jiffies s + 1 \<and> timer_pid s' = timer_pid s \<and> gpfdat s' = gpfdat s \<and>
    poll_values s' = (if \<tau> = jiffies s + 1 then fire (timer_pid s) (poll_values s) else poll_values s)"
proof -
  let ?J = "jiffies s + 1" and ?p = "timer_pid s" and ?A = "poll_values s"
  let ?\<tau> = "if \<tau> = ?J then ?J + TIMER_INTERVAL else \<tau>" and ?B = "if \<tau> = ?J then fire ?p ?A else ?A"
  define s0 where "s0 = s\<lparr>jiffies := ?J\<rparr>"
  have a: "wheel_ok s" "only_polling s" "timer_jiffies s = ?J" "(mytimer, \<tau>) \<in> due s" using assms by (simp_all add: armed_def)
  have f0: "timer_jiffies s0 = ?J" "jiffies s0 = ?J" "timers s0 = timers s" "vec s0 = vec s" "due s0 = due s"
    using a(3) by (simp_all add: s0_def due_def)
  have ok0: "wheel_ok s0" using a(1) by (simp add: s0_def wheel_ok_def slots_ok_def pending_ok_def in_lists_def)
  define c where "c = collect s0"
  note col = collect_due [OF ok0, folded c_def]
  obtain v tm where fr: "c = s0\<lparr>timer_jiffies := timer_jiffies s0 + 1, vec := v, timers := tm\<rparr>" using col(7) by blast
  have cf: "jiffies c = ?J" "timer_jiffies c = ?J + 1" "timer_pid c = ?p" "gpfdat c = gpfdat s" "poll_values c = ?A"
    unfolding fr by (simp_all add: s0_def poll_values_def a(3))
  have fn: "tfunction (timers c x) = tfunction (timers s x)" for x using col(9) f0(3) by simp
  have "polled ?J ?\<tau> ?p (gpfdat s) ?A ?B c"
  proof (cases "\<tau> = ?J")
    case True
    then have "mytimer \<in> set (vec c Work)" using a(4) unfolding col(4) f0 by simp
    then show ?thesis using True a(2) cf fn by (simp add: polled_def only_polling_def)
  next
    case False
    then have "(mytimer, \<tau>) \<in> due c" using a(4) unfolding col(3) f0 by simp
    then show ?thesis using False a(2) cf fn by (simp add: polled_def only_polling_def)
  qed
  from poll.run_work_returns [OF collect_inv [OF ok0, folded c_def] this]
  obtain s' where s': "run_work timer_call c = Inr s'" "wheel_ok s'" "polled ?J ?\<tau> ?p (gpfdat s) ?A ?B s'" by blast
  have w: "vec s' Work = []" using s'(2) by (simp add: wheel_ok_def)
  have p: "only_polling s'" "jiffies s' = ?J" "timer_jiffies s' = ?J + 1" "timer_pid s' = ?p" "gpfdat s' = gpfdat s"
    "(mytimer, ?\<tau>) \<in> due s'" "poll_values s' = ?B" using s'(3) w by (auto simp: polled_def)
  have "time_after_eq (jiffies s0) (timer_jiffies s0)" unfolding f0 by (simp add: time_after_eq_def)
  moreover have "\<not> time_after_eq (jiffies s') (timer_jiffies s')" unfolding p by (simp add: time_after_eq_def)
  ultimately have "timer_tick 1 timer_call s = Inr s'"
    unfolding timer_tick_def s0_def [symmetric]
    using s'(1) by (subst run_timers.simps) (simp add: c_def [symmetric], subst run_timers.simps, simp)
  then show ?thesis using p s'(2) by (auto simp: armed_def)
qed

section \<open>Every two hundred ticks\<close>

text \<open>The values after \<open>m\<close> calls of the function, from a counter that is at most 10.\<close>

lemma fire_many:
  "c \<le> 10 \<Longrightarrow> (fire p ^^ m) (int c, k, g) =
   (if m = 0 then int c else int ((m + c - 1) mod 10) + 1, k + int m, g @ replicate ((m + c - 1) div 10) (p, SIGUSR1))"
proof (induction m)
  case 0
  then show ?case by simp
next
  case (Suc m)
  show ?case
  proof (cases "m = 0")
    case True
    then show ?thesis using Suc.prems by (cases "c = 10") (auto simp: fire_def)
  next
    case False
    define q where "q = m + c - 1"
    have q: "Suc m + c - 1 = Suc q" using False by (simp add: q_def)
    have "(fire p ^^ Suc m) (int c, k, g) = fire p (int (q mod 10) + 1, k + int m, g @ replicate (q div 10) (p, SIGUSR1))"
      using Suc.IH [OF Suc.prems] False by (simp add: q_def)
    also have "\<dots> = (int (Suc q mod 10) + 1, k + int (Suc m), g @ replicate (Suc q div 10) (p, SIGUSR1))"
    proof (cases "q mod 10 = 9")
      case True
      then have "Suc q mod 10 = 0" "Suc q div 10 = Suc (q div 10)" by (simp_all add: mod_Suc div_Suc)
      then show ?thesis using True by (simp add: fire_def replicate_append_same)
    next
      case False
      then have "Suc q mod 10 = Suc (q mod 10)" "Suc q div 10 = q div 10" by (simp_all add: mod_Suc div_Suc)
      moreover have "int (q mod 10) + 1 \<noteq> 10" using False by linarith
      ultimately show ?thesis by (simp add: fire_def)
    qed
    finally show ?thesis unfolding q by simp
  qed
qed

text \<open>The timer is due \<open>20 - r\<close> ticks from now.\<close>

definition phase :: "nat \<Rightarrow> u32 \<Rightarrow> u32" where
  "phase r J = J + of_nat (20 - r mod 20)"

lemma phase_now: "phase r J = J + 1 \<longleftrightarrow> r mod 20 = 19"
proof -
  define a where "a = 20 - r mod 20"
  have "a < 4294967296" by (simp add: a_def)
  then have "unat (of_nat a :: u32) = a" by (simp add: unsigned_of_nat take_bit_eq_mod)
  then have "(of_nat a :: u32) = 1 \<longleftrightarrow> a = 1" by (metis of_nat_1 unsigned_1)
  moreover have "a = 1 \<longleftrightarrow> r mod 20 = 19" unfolding a_def by arith
  ultimately show ?thesis unfolding phase_def a_def [symmetric] by simp
qed

lemma phase_wait: "r mod 20 \<noteq> 19 \<Longrightarrow> phase r J = phase (Suc r) (J + 1)"
proof -
  assume r: "r mod 20 \<noteq> 19"
  then have "20 - r mod 20 = Suc (20 - Suc r mod 20)" using mod_less_divisor [of 20 r] by (simp add: mod_Suc Suc_diff_Suc) 
  then show ?thesis by (simp add: phase_def)
qed

lemma phase_fire: "r mod 20 = 19 \<Longrightarrow> J + 1 + TIMER_INTERVAL = phase (Suc r) (J + 1)"
  by (simp add: phase_def TIMER_INTERVAL_def mod_Suc)

lemma ticks_run:
  "armed (phase r (jiffies s)) s \<Longrightarrow>
   \<exists>s'. ticks n timer_call s = Inr s' \<and> armed (phase (r + n) (jiffies s')) s' \<and> timer_pid s' = timer_pid s \<and> gpfdat s' = gpfdat s \<and>
     poll_values s' = (fire (timer_pid s) ^^ ((r + n) div 20 - r div 20)) (poll_values s)"
proof (induction n arbitrary: s r)
  case (Suc n)
  let ?f = "phase r (jiffies s) = jiffies s + 1"
  obtain s1 where s1: "timer_tick 1 timer_call s = Inr s1" "armed (if ?f then jiffies s + 1 + TIMER_INTERVAL else phase r (jiffies s)) s1"
    "jiffies s1 = jiffies s + 1" "timer_pid s1 = timer_pid s" "gpfdat s1 = gpfdat s"
    "poll_values s1 = (if ?f then fire (timer_pid s) (poll_values s) else poll_values s)"
    using tick_runs [OF Suc.prems] by blast
  have "armed (phase (Suc r) (jiffies s1)) s1"
  proof (cases "r mod 20 = 19")
    case True
    then show ?thesis using s1(2,3) phase_fire [OF True, of "jiffies s"] by (simp add: phase_now)
  next
    case False
    then have "\<not> ?f" by (simp add: phase_now)
    then show ?thesis using s1(2,3) phase_wait [OF False, of "jiffies s"] by simp
  qed
  from Suc.IH [OF this] obtain s' where s': "ticks n timer_call s1 = Inr s'" "armed (phase (Suc r + n) (jiffies s')) s'"
    "timer_pid s' = timer_pid s1" "gpfdat s' = gpfdat s1"
    "poll_values s' = (fire (timer_pid s1) ^^ ((Suc r + n) div 20 - Suc r div 20)) (poll_values s1)" by blast
  have "poll_values s' = (fire (timer_pid s) ^^ ((Suc r + n) div 20 - r div 20)) (poll_values s)"
  proof (cases "r mod 20 = 19")
    case True
    then have d: "Suc r div 20 = Suc (r div 20)" by (simp add: div_Suc mod_Suc)
    have "Suc r div 20 \<le> (Suc r + n) div 20" by (rule div_le_mono) simp
    then have "(Suc r + n) div 20 - r div 20 = Suc ((Suc r + n) div 20 - Suc r div 20)" unfolding d by simp
    then show ?thesis using s'(5) s1(4,6) True by (simp add: phase_now funpow_swap1)
  next
    case False
    then have "Suc r div 20 = r div 20" by (simp add: div_Suc mod_Suc)
    then show ?thesis using s'(5) s1(4,6) False by (simp add: phase_now)
  qed
  then show ?case using s' s1 by (intro exI [of _ s']) simp
qed simp

text \<open>The function is set up while the timer is not pending.\<close>

lemma write_arms:
  assumes "wheel_ok s" "timer_jiffies s = jiffies s + 1" "\<not> timer_pending mytimer s"
    and "\<forall>x. x \<noteq> mytimer \<longrightarrow> tfunction (timers s x) \<noteq> mypollingfunction_address"
  shows "\<exists>s'. add_timer mytimer (set_function mytimer mypollingfunction_address
        (set_expires mytimer (jiffies (init_timer mytimer s) + TIMER_INTERVAL) (init_timer mytimer s))) = Inr s' \<and>
      armed (phase 0 (jiffies s')) s' \<and> poll_values s' = poll_values s \<and> gpfdat s' = gpfdat s"
proof -
  define s1 where "s1 = set_function mytimer mypollingfunction_address
        (set_expires mytimer (jiffies (init_timer mytimer s) + TIMER_INTERVAL) (init_timer mytimer s))"
  have f1: "vec s1 = vec s" "timer_jiffies s1 = timer_jiffies s" "jiffies s1 = jiffies s" "gpfdat s1 = gpfdat s" "poll_values s1 = poll_values s"
    "timers s1 = (timers s)(mytimer := (timers s mytimer)\<lparr>tpending := False, texpires := jiffies s + TIMER_INTERVAL,
       tfunction := mypollingfunction_address\<rparr>)"
    by (simp_all add: s1_def set_function_def set_expires_def init_timer_def poll_values_def fun_eq_iff)
  have n: "mytimer \<notin> set (vec s h)" for h
    using assms(1,3) in_listsI by (auto simp: wheel_ok_def pending_ok_def timer_pending_def)
  have e: "texpires (timers s1 x) = texpires (timers s x)" if "x \<in> set (vec s h)" for x h
    using that n by (cases "x = mytimer") (auto simp: f1)
  have p: "tpending (timers s1 x) = tpending (timers s x)" for x
    using assms(3) by (simp add: f1 timer_pending_def)
  have ok: "slots_ok s1" using assms(1) unfolding wheel_ok_def slots_ok_def f1(1,2) by (auto simp: e)
  have due1: "due s1 = due s" unfolding due_def f1(1,2) by (auto simp: e)
  have inv: "wheel_inv s1" using ok assms(1) unfolding wheel_inv_def wheel_ok_def pending_ok_def in_lists_def f1(1) p by simp
  have fn: "tfunction (timers s1 mytimer) \<noteq> 0" "\<not> timer_pending mytimer s1"
    "texpires (timers s1 mytimer) = jiffies s + TIMER_INTERVAL" by (simp_all add: f1 mypollingfunction_address_def timer_pending_def)
  obtain s' v tm where s': "add_timer mytimer s1 = Inr s'" "wheel_inv s'"
    "due s' = insert (mytimer, due_time (timer_jiffies s1) (texpires (timers s1 mytimer))) (due s1)" "vec s' Work = vec s1 Work"
    "\<forall>y. tfunction (timers s' y) = tfunction (timers s1 y)" "s' = s1\<lparr>vec := v, timers := tm\<rparr>"
    using add_timer_due [OF inv fn(1,2)] by blast
  have g: "jiffies s' = jiffies s" "timer_jiffies s' = timer_jiffies s" "poll_values s' = poll_values s" "gpfdat s' = gpfdat s"
    unfolding s'(6) using f1 by (simp_all add: poll_values_def)
  have "(mytimer, phase 0 (jiffies s')) \<in> due s'"
    unfolding s'(3) fn(3) f1(2) assms(2) due_time_interval g(1) by (simp add: phase_def TIMER_INTERVAL_def)
  moreover have "only_polling s'" using s'(5) assms(4) by (simp add: only_polling_def f1)
  moreover have "vec s' Work = []" using assms(1) unfolding s'(4) f1(1) wheel_ok_def by simp
  ultimately have "armed (phase 0 (jiffies s')) s'" using s'(2) g assms(2) by (simp add: armed_def wheel_ok_inv)
  then show ?thesis using s'(1) g unfolding s1_def [symmetric] by blast
qed

lemma Led_Display_timer [simp]:
  "wheel_ok (Led_Display k s) = wheel_ok s" "only_polling (Led_Display k s) = only_polling s" "due (Led_Display k s) = due s"
  "jiffies (Led_Display k s) = jiffies s" "timer_jiffies (Led_Display k s) = timer_jiffies s"
  "timer_pid (Led_Display k s) = timer_pid s" "poll_values (Led_Display k s) = poll_values s"
  by (simp_all add: Led_Display_def led_display_def printk_def wheel_ok_def slots_ok_def pending_ok_def in_lists_def
      only_polling_def due_def poll_values_def)

lemma armed_Led_Display [simp]: "armed \<tau> (Led_Display k s) = armed \<tau> s"
  by (simp add: armed_def)

lemma armed_pid: "armed \<tau> (printk f a (s\<lparr>timer_pid := p\<rparr>)) = armed \<tau> s"
  by (simp add: armed_def printk_def wheel_ok_def slots_ok_def pending_ok_def in_lists_def only_polling_def due_def)

lemma write_then_ticks:
  assumes "wheel_ok s" "timer_jiffies s = jiffies s + 1" "\<not> timer_pending mytimer s" "counter s = 0"
    and "\<forall>x. x \<noteq> mytimer \<longrightarrow> tfunction (timers s x) \<noteq> mypollingfunction_address"
  shows "\<exists>s1 s2. timer_led_write (\<lambda>ms. ticks D timer_call) buf s = Inr (0, s1) \<and> ticks N timer_call s1 = Inr s2 \<and>
    timer_occur s2 = timer_occur s + int ((2 * D + N) div 20) \<and>
    signals s2 = signals s @ replicate (((2 * D + N) div 20 - 1) div 10) (get_user_int buf, SIGUSR1) \<and>
    gpfdat s2 = gpfdat (Led_Display 1 (Led_Display 0 s)) \<and> armed (phase (D + D + N) (jiffies s2)) s2"
proof -
  let ?p = "get_user_int buf"
  define m where "m = (2 * D + N) div 20"
  obtain s0 where s0: "add_timer mytimer (set_function mytimer mypollingfunction_address
        (set_expires mytimer (jiffies (init_timer mytimer s) + TIMER_INTERVAL) (init_timer mytimer s))) = Inr s0"
      "armed (phase 0 (jiffies s0)) s0" "poll_values s0 = poll_values s" "gpfdat s0 = gpfdat s"
    using write_arms [OF assms(1,2,3,5)] by blast
  define a where "a = Led_Display 0 (printk ''write id = %d'' [?p] (s0\<lparr>timer_pid := ?p\<rparr>))"
  have a: "armed (phase 0 (jiffies a)) a" "timer_pid a = ?p" "poll_values a = poll_values s" "gpfdat a = gpfdat (Led_Display 0 s)"
    using s0 by (simp_all add: a_def armed_pid poll_values_def) (simp_all add: printk_def Led_Display_def led_display_def)
  obtain b where b: "ticks D timer_call a = Inr b" "armed (phase D (jiffies b)) b" "timer_pid b = ?p" "gpfdat b = gpfdat a"
    "poll_values b = (fire ?p ^^ (D div 20)) (poll_values s)"
    using ticks_run [OF a(1), of D] a by auto
  define b' where "b' = Led_Display 1 b"
  have b': "armed (phase D (jiffies b')) b'" "timer_pid b' = ?p" "poll_values b' = poll_values b"
    "gpfdat b' = gpfdat (Led_Display 1 (Led_Display 0 s))"
    using b a by (simp_all add: b'_def) (simp_all add: printk_def Led_Display_def led_display_def)
  obtain s1 where s1: "ticks D timer_call b' = Inr s1" "armed (phase (D + D) (jiffies s1)) s1" "timer_pid s1 = ?p" "gpfdat s1 = gpfdat b'"
    "poll_values s1 = (fire ?p ^^ ((D + D) div 20 - D div 20)) (poll_values b)"
    using ticks_run [OF b'(1), of D] b' by auto
  obtain s2 where s2: "ticks N timer_call s1 = Inr s2" "gpfdat s2 = gpfdat s1" "armed (phase (D + D + N) (jiffies s2)) s2"
    "poll_values s2 = (fire ?p ^^ ((D + D + N) div 20 - (D + D) div 20)) (poll_values s1)"
    using ticks_run [OF s1(2), of N] s1 by auto
  have w: "timer_led_write (\<lambda>ms. ticks D timer_call) buf s = Inr (0, s1)"
    using s0(1) b(1) s1(1) by (simp add: timer_led_write_def Let_def a_def b'_def)
  have m: "m = ((D + D + N) div 20 - (D + D) div 20) + (((D + D) div 20 - D div 20) + D div 20)"
  proof -
    have "D div 20 \<le> (D + D) div 20" "(D + D) div 20 \<le> (D + D + N) div 20" by (rule div_le_mono, simp)+
    then show ?thesis by (simp add: m_def mult_2)
  qed
  have "poll_values s2 = (fire ?p ^^ m) (int 0, timer_occur s, signals s)"
    unfolding s2(4) s1(5) b(5) m funpow_add comp_def using assms(4) by (simp add: poll_values_def)
  then have "timer_occur s2 = timer_occur s + int m \<and> signals s2 = signals s @ replicate ((m - 1) div 10) (?p, SIGUSR1)"
    unfolding fire_many [OF le0] poll_values_def by simp
  then show ?thesis using w s2(1-3) s1(4) b'(4) unfolding m_def by auto
qed

text \<open>
  A process that writes its number to the driver is signalled once a second. If the driver's
  timer is not pending, the write succeeds; then, whatever else is pending in the wheel, however
  many ticks pass during the write (\<open>D\<close> for each pause) and after it (\<open>N\<close>), the function has
  run in every twentieth of them, and at its 11th, 21st, ... run has sent SIGUSR1 to that process,
  once, and nothing else to anybody; and LED 1 is lit.
\<close>

theorem timer_signals:
  assumes "wheel_ok s" "timer_jiffies s = jiffies s + 1" "\<not> timer_pending mytimer s" "counter s = 0"
    and "\<forall>x. x \<noteq> mytimer \<longrightarrow> tfunction (timers s x) \<noteq> mypollingfunction_address"
  shows "\<exists>s1 s2. timer_led_write (\<lambda>ms. ticks D timer_call) buf s = Inr (0, s1) \<and> ticks N timer_call s1 = Inr s2 \<and>
    timer_occur s2 = timer_occur s + int ((2 * D + N) div 20) \<and>
    signals s2 = signals s @ replicate (((2 * D + N) div 20 - 1) div 10) (get_user_int buf, SIGUSR1) \<and>
    gpfdat s2 = gpfdat (Led_Display 1 (Led_Display 0 s))"
  using write_then_ticks [OF assms, of D buf N] by blast

definition timer_driver_board :: timer_driver where
  "timer_driver_board = timerboard.extend timer_board (timer_driver.fields 0 0 0)"

lemma timer_driver_board_ok: "wheel_ok timer_driver_board" "timer_jiffies timer_driver_board = jiffies timer_driver_board + 1"
  "\<not> timer_pending mytimer timer_driver_board" "counter timer_driver_board = 0" "timer_occur timer_driver_board = 0"
  "\<forall>x. x \<noteq> mytimer \<longrightarrow> tfunction (timers timer_driver_board x) \<noteq> mypollingfunction_address" "signals timer_driver_board = []"
  by (simp_all add: timer_driver_board_def timerboard.extend_def timer_driver.fields_def timer_board_def irqboard.extend_def
      timerboard.fields_def irq_board_def wheel_ok_def slots_ok_def pending_ok_def in_lists_def idle_timer_def timer_pending_def
      mypollingfunction_address_def)

text \<open>500 milliseconds of the write and 3900 ticks later, 200 calls have been made and 19 signals sent.\<close>

theorem timer_signals_witness:
  "\<exists>s1 s2. timer_led_write (\<lambda>ms. ticks 50 timer_call) (put_int 4711) timer_driver_board = Inr (0, s1) \<and>
    ticks 3900 timer_call s1 = Inr s2 \<and> timer_occur s2 = 200 \<and> length (signals s2) = 19"
  using timer_signals [where s = timer_driver_board and D = 50 and N = 3900 and buf = "put_int 4711"] timer_driver_board_ok by force

text \<open>
  C38. A second write ruins the timers. While the driver's timer is pending, which it is from the
  first write on, another write initializes and adds it again, and so links it twice.
\<close>

theorem second_write_corrupts:
  assumes "armed \<tau> s"
  shows "timer_led_write mdelay buf s = Inl ListCorrupt"
proof -
  define s1 where "s1 = set_function mytimer mypollingfunction_address
        (set_expires mytimer (jiffies (init_timer mytimer s) + TIMER_INTERVAL) (init_timer mytimer s))"
  have "mytimer \<in> in_lists s" using assms due_in_lists by (auto simp: armed_def)
  then have "linked mytimer s" using assms linked_iff by (auto simp: armed_def wheel_ok_def)
  then have "linked mytimer s1" by (simp add: linked_def s1_def set_function_def set_expires_def init_timer_def)
  moreover have "\<not> timer_pending mytimer s1" "tfunction (timers s1 mytimer) \<noteq> 0"
    by (simp_all add: s1_def set_function_def set_expires_def init_timer_def timer_pending_def mypollingfunction_address_def)
  ultimately have "add_timer mytimer s1 = Inl ListCorrupt" by (simp add: add_timer_def do_mod_timer_def)
  then show ?thesis by (simp add: timer_led_write_def Let_def s1_def)
qed

theorem second_write_corrupts_witness:
  "\<exists>s1 s2. timer_led_write (\<lambda>ms. ticks 50 timer_call) (put_int 4711) timer_driver_board = Inr (0, s1) \<and>
    ticks 7 timer_call s1 = Inr s2 \<and> timer_led_write (\<lambda>ms. ticks 50 timer_call) (put_int 1234) s2 = Inl ListCorrupt"
proof -
  obtain s1 s2 where s: "timer_led_write (\<lambda>ms. ticks 50 timer_call) (put_int 4711) timer_driver_board = Inr (0, s1)"
    "ticks 7 timer_call s1 = Inr s2" "armed (phase (50 + 50 + 7) (jiffies s2)) s2"
    using write_then_ticks [OF timer_driver_board_ok(1-4,6), of 50 "put_int 4711" 7] by blast
  then show ?thesis using second_write_corrupts [OF s(3)] by blast
qed
end
