(* ===== verification/SignalApps.thy ===== *)
theory SignalApps
  imports Sockets TimerDriver
begin

text \<open>
  The programs that the drivers signal: fri/kernelTimer/test.c, which counts the signals of the
  timer driver, and fri/signal_keybutton/sig.c, which forks a process for every key. Both write
  their process number to the device first.
\<close>

section \<open>The counting program\<close>

definition usersignal :: "int \<Rightarrow> int prog" where
  "usersignal signal_count = pseq (printf ''\<newline> [App] : Usersignal = %d'' [I signal_count]) (pret (signal_count + 1))"

text \<open>\<open>main\<close> up to its endless loop, in which it does nothing but handle signals.\<close>

definition timer_app_start :: "int \<Rightarrow> unit prog" where
  "timer_app_start mypid =
     pseq (emit (SigAction SIGUSR1))
    (pseq (printf ''\<newline>[APP] pid = %d'' [I mypid])
    (pbind (sys_ret (Open ''/dev/led'')) (\<lambda>d.
     sys_do (Write d (put_int mypid)))))"

definition timer_app_main :: "int \<Rightarrow> (int \<times> int) list \<Rightarrow> unit prog" where
  "timer_app_main mypid arriving =
     pseq (timer_app_start mypid)
    (pseq (pfor (filter (\<lambda>(p, s). p = mypid \<and> s = SIGUSR1) arriving) (\<lambda>_. usersignal) 0) (pabort Spin))"

section \<open>A process for every key\<close>

text \<open>The handler; the child returns from it and goes on in \<open>main\<close> like its parent.\<close>

definition sig_key_handler :: "int \<Rightarrow> int \<Rightarrow> int \<Rightarrow> unit prog" where
  "sig_key_handler mypid parent signo =
     pseq (perror ''Received Signal'')
    (pbind (sys_ret Fork) (\<lambda>pid.
     if pid = -1 then pseq (perror ''fork'') (pexit 1)
     else if pid = 0 then
       pseq (printf ''child process: MY[%d], PAR[%d]\<newline>'' [I mypid, I parent]) (sys_do (Sleep 3))
     else
       pbind (sys_ret Wait) (\<lambda>r.
       if r = 0 then
         pseq (printf ''Parent process: My[%d[, Child[%d]\<newline>'' [I mypid, I pid]) (sys_do (Sleep 1))
       else pret ())))"

text \<open>
  A signal arrives while the program waits for a character, which it goes on to do afterwards. At
  the end of the input \<open>key\<close> stays what it is; at the start it is whatever was on the stack.
\<close>

definition sig_iter :: "int \<Rightarrow> int \<Rightarrow> char \<Rightarrow> (char, int) iter prog" where
  "sig_iter mypid parent key =
     (if key = CHR ''q'' then pret (Stop 0) else
      pbind (sys Scanf (\<lambda>r. r)) (\<lambda>r.
      if r_ret r < 0 \<and> r_errno r = 4 then pseq (sig_key_handler mypid parent SIGUSR1) (pret (Next key))
      else if r_ret r < 0 \<or> r_data r = [] then pret (Next key)
      else pret (Next (hd (r_data r)))))"

definition sig_main :: "int \<Rightarrow> int \<Rightarrow> char \<Rightarrow> int prog" where
  "sig_main mypid parent key =
     pseq (sys_do (Exec ''mknod'' [''/dev/key'', ''c'', ''240'', ''0'']))
    (pseq (printf ''user PID=%d\<newline>'' [I mypid])
    (pbind (sys_ret (Open ''/dev/key'')) (\<lambda>d.
     pseq (sys_do (Write d (put_int mypid)))
    (pseq (emit (SigAction SIGUSR1))
     (loop (sig_iter mypid parent) key)))))"

section \<open>The timer driver and its program\<close>

lemma usersignals_run:
  "pfor xs (\<lambda>_. usersignal) n (st rs tr fs) =
    (Val (n + int (length xs)), st rs (tr @ map (\<lambda>i. Printf ''\<newline> [App] : Usersignal = %d'' [I (n + int i)]) [0..<length xs]) fs)"
proof (induction xs arbitrary: n tr)
  case (Cons x xs)
  have "map (\<lambda>i. Printf ''\<newline> [App] : Usersignal = %d'' [I (n + int i)]) [0..<length (x # xs)] =
      Printf ''\<newline> [App] : Usersignal = %d'' [I n] # map (\<lambda>i. Printf ''\<newline> [App] : Usersignal = %d'' [I (n + 1 + int i)]) [0..<length xs]"
    unfolding list.size upt_rec [of 0] map_Suc_upt [symmetric] by (simp add: upt_conv_Cons map_Suc_upt [symmetric] comp_def algebra_simps del: upt_Suc)
  then show ?case using Cons.IH [of "n + 1"] by (simp add: usersignal_def pbind_run)
qed simp

text \<open>
  C5. From the kernel's timer to the terminal. The program writes its process number to the timer
  driver; the driver, whose timer was idle, is given these bytes; then \<open>N\<close> ticks after the write
  the program has printed one line, numbered from 0, for each signal the driver has sent it, which
  are as many as the ticks since the start, counted in twenties, less one, make tens.
\<close>

theorem timer_app_end_to_end:
  assumes "wheel_ok s" "timer_jiffies s = jiffies s + 1" "\<not> timer_pending mytimer s" "counter s = 0" "signals s = []"
    and "\<forall>x. x \<noteq> mytimer \<longrightarrow> tfunction (timers s x) \<noteq> mypollingfunction_address"
    and "0 < mypid" "mypid < 2147483648"
  shows "\<exists>s1 s2. timer_led_write (\<lambda>ms. ticks D timer_call) (put_int mypid) s = Inr (0, s1) \<and> ticks N timer_call s1 = Inr s2 \<and>
    timer_app_main mypid (signals s2) (st [rc 3, rc 0] [] fs) =
      (Abort Spin, st [] ([SigAction SIGUSR1, Printf ''\<newline>[APP] pid = %d'' [I mypid], Open ''/dev/led'', Write 3 (put_int mypid)] @
        map (\<lambda>i. Printf ''\<newline> [App] : Usersignal = %d'' [I (int i)]) [0..<((2 * D + N) div 20 - 1) div 10]) fs)"
proof -
  have p: "get_user_int (put_int mypid) = mypid" using assms(7,8) by (simp add: get_user_int_def get_int_put_int)
  obtain s1 s2 where s: "timer_led_write (\<lambda>ms. ticks D timer_call) (put_int mypid) s = Inr (0, s1)" "ticks N timer_call s1 = Inr s2"
    "signals s2 = replicate (((2 * D + N) div 20 - 1) div 10) (mypid, SIGUSR1)"
    using write_then_ticks [OF assms(1-4,6), of D "put_int mypid" N] unfolding p assms(5) by auto
  have "filter (\<lambda>(p, s). p = mypid \<and> s = SIGUSR1) (signals s2) = signals s2" unfolding s(3) by (intro filter_True) auto
  then have "timer_app_main mypid (signals s2) (st [rc 3, rc 0] [] fs) =
      (Abort Spin, st [] ([SigAction SIGUSR1, Printf ''\<newline>[APP] pid = %d'' [I mypid], Open ''/dev/led'', Write 3 (put_int mypid)] @
        map (\<lambda>i. Printf ''\<newline> [App] : Usersignal = %d'' [I (int i)]) [0..<((2 * D + N) div 20 - 1) div 10]) fs)"
    using usersignals_run [of "signals s2" 0]
    by (simp add: timer_app_main_def timer_app_start_def run_simps pseq_def pbind_run s(3))
  then show ?thesis using s(1,2) by blast
qed

theorem timer_app_end_to_end_witness:
  "\<exists>s1 s2 :: timer_driver. timer_led_write (\<lambda>ms. ticks 50 timer_call) (put_int 4711) timer_driver_board = Inr (0, s1) \<and>
    ticks 330 timer_call s1 = Inr s2 \<and>
    timer_app_main 4711 (signals s2) (st [rc 3, rc 0] [] Map.empty) =
      (Abort Spin, st [] [SigAction SIGUSR1, Printf ''\<newline>[APP] pid = %d'' [I 4711], Open ''/dev/led'', Write 3 (put_int 4711),
        Printf ''\<newline> [App] : Usersignal = %d'' [I 0], Printf ''\<newline> [App] : Usersignal = %d'' [I 1]] Map.empty)"
proof -
  have two: "[0..<((2 * 50 + 330) div 20 - 1) div 10] = [0, 1]" by (simp add: upt_rec)
  show ?thesis
    using timer_app_end_to_end [where s = timer_driver_board and D = 50 and N = 330 and mypid = 4711 and fs = Map.empty] timer_driver_board_ok
    unfolding two by simp
qed

end
