(* ===== verification/Pipes.thy ===== *)
theory Pipes
  imports Sockets Checksum
begin

text \<open>
  The UDP echo servers that hand their datagrams to another process: over a pipe
  (fri/pipe/udpserv_pipeecho.c), over a FIFO (fri/fifo/udpserv_fifoecho.c) and over a message
  queue (fri/msgq/msgq_echoserv.c). What is handed over is the memory of a struct of an address
  and 512 characters, byte for byte; the process that answers the messages of the queue is not in
  the repository.
\<close>

section \<open>The struct in memory\<close>

definition MAX_BUFSZ :: nat where "MAX_BUFSZ = 512"

text \<open>\<open>struct sockaddr_in\<close> in 16 bytes; the kernel clears the last 8 when it fills in a sender.\<close>

definition addr_bytes :: "sockaddr_in \<Rightarrow> string" where
  "addr_bytes a = string_of (put16 (word_of_int (sin_family a)) @ put16 (sin_port a) @ put32 (sin_addr a)) @ replicate 8 NUL"

definition addr_of :: "string \<Rightarrow> sockaddr_in" where
  "addr_of m = (case bytes_of (take 8 m) of
       f0 # f1 # p0 # p1 # a \<Rightarrow> \<lparr>sin_family = uint (le16 f0 f1), sin_port = le16 p0 p1, sin_addr = get32 a\<rparr>
     | _ \<Rightarrow> no_addr)"

text \<open>\<open>sizeof(mesg_t)\<close>, and the characters of its second field.\<close>

definition mesg_size :: nat where "mesg_size = 16 + MAX_BUFSZ"

definition mesg_data :: "string \<Rightarrow> string" where
  "mesg_data pmsg = drop 16 pmsg"

section \<open>The parent: from the socket to the pipe\<close>

text \<open>Receiving into the struct, with the terminator behind the data. A failure is not handled here.\<close>

definition recv_mesg :: "fd \<Rightarrow> string \<Rightarrow> (int \<times> string) prog" where
  "recv_mesg sock pmsg =
     pbind (rrecvfrom sock MAX_BUFSZ) (\<lambda>(nbytes, d, from).
     if nbytes < 0 then pret (nbytes, pmsg) else
     pbind (deliver pmsg 0 (addr_bytes from)) (\<lambda>pmsg.
     pbind (deliver pmsg 16 d) (\<lambda>pmsg. pret (nbytes, pmsg))))"

definition pipe_errquit :: "string \<Rightarrow> 'a prog" where
  "pipe_errquit mesg = pseq (perror mesg) (pexit 1)"

definition pipe_parent_iter :: "fd \<Rightarrow> fd \<Rightarrow> string \<Rightarrow> (string, unit) iter prog" where
  "pipe_parent_iter sock pipe_wr pmsg =
     pbind (recv_mesg sock pmsg) (\<lambda>(nbytes, pmsg).
     if nbytes < 0 then pipe_errquit ''recvfrom failed '' else
     pseq (printf ''Parent : %d bytes recv from socket\<newline>'' [I nbytes])
    (pbind (store pmsg (16 + nbytes) NUL) (\<lambda>pmsg.
     pbind (sys_ret (Write pipe_wr pmsg)) (\<lambda>r.
     pseq (if r < 0 then perror ''write fail '' else pret ())
    (pseq (printf ''Parent : write to pipe\<newline>'' [I nbytes])
     (pret (Next pmsg)))))))"

definition pipe_parent_start :: "fd \<Rightarrow> fd \<times> fd \<Rightarrow> string \<Rightarrow> unit prog" where
  "pipe_parent_start sock pipefd junk =
     pseq (emit (Close (fst pipefd)))
    (pseq (printf ''my echo server wait...\<newline>'' [])
     (loop (pipe_parent_iter sock (snd pipefd)) junk))"

text \<open>In the FIFO server the terminator is stored before the message is printed.\<close>

definition fifo_parent_iter :: "fd \<Rightarrow> fd \<Rightarrow> string \<Rightarrow> (string, unit) iter prog" where
  "fifo_parent_iter sock fifowd pmsg =
     pbind (recv_mesg sock pmsg) (\<lambda>(nbytes, pmsg).
     if nbytes < 0 then pipe_errquit ''recvfrom failed '' else
     pbind (store pmsg (16 + nbytes) NUL) (\<lambda>pmsg.
     pseq (printf ''Parent : %d bytes recv from socket\<newline>'' [I nbytes])
    (pbind (sys_ret (Write fifowd pmsg)) (\<lambda>r.
     pseq (if r < 0 then perror ''write fail '' else pret ())
    (pseq (printf ''Parent : write to fifo\<newline>'' [I nbytes])
     (pret (Next pmsg)))))))"

definition fifo_parent_start :: "fd \<Rightarrow> string \<Rightarrow> unit prog" where
  "fifo_parent_start sock junk =
     pbind (sys_ret (Open ''myfifo'')) (\<lambda>fifowd.
     if fifowd = -1 then pipe_errquit ''fifo open fail '' else
     pseq (printf ''my echo server wait...\<newline>'' [])
     (loop (fifo_parent_iter sock fifowd) junk))"

section \<open>The child: from the pipe to the sender\<close>

definition child_iter :: "string \<Rightarrow> fd \<Rightarrow> fd \<Rightarrow> string \<Rightarrow> (string, unit) iter prog" where
  "child_iter msg sock pipe_rd pmsg =
     pbind (rread pipe_rd mesg_size) (\<lambda>(nbytes, d).
     if nbytes < 0 then pipe_errquit ''read failed '' else
     pbind (deliver pmsg 0 d) (\<lambda>pmsg.
     pseq (printf msg [I nbytes])
    (pbind (cstring (mesg_data pmsg)) (\<lambda>text.
     pbind (sys_ret (SendTo sock text (addr_of pmsg))) (\<lambda>nbytes.
     pseq (printf ''Child  : %d bytes echo response\<newline>'' [I nbytes])
    (pseq (printf ''--------------------------------\<newline>'' [])
     (pret (Next pmsg))))))))"

definition pipe_child_start :: "fd \<Rightarrow> fd \<times> fd \<Rightarrow> string \<Rightarrow> unit prog" where
  "pipe_child_start sock pipefd junk =
     pseq (emit (Close (snd pipefd)))
     (loop (child_iter ''Child  : read from pipe\<newline>'' sock (fst pipefd)) junk)"

definition fifo_child_start :: "fd \<Rightarrow> string \<Rightarrow> unit prog" where
  "fifo_child_start sock junk =
     pbind (sys_ret (Open ''myfifo'')) (\<lambda>fiford.
     if fiford = -1 then pipe_errquit ''fifo open fail '' else
     loop (child_iter ''Child  : read from fifo\<newline>'' sock fiford) junk)"

section \<open>The programs\<close>

text \<open>A socket bound to the port; that \<open>bind\<close> fails is not looked at.\<close>

definition pipe_socket :: "string list \<Rightarrow> (fd \<Rightarrow> int prog) \<Rightarrow> int prog" where
  "pipe_socket argv serve =
     (if length argv \<noteq> 2 then pseq (printf ''\<newline> Usage : %s port\<newline>'' [S (hd (argv @ [[]]))]) (pexit 1) else
      pbind (sys_ret (Socket 2 2 0)) (\<lambda>sock.
      if sock < 0 then pseq (perror ''socket failed'') (pexit 1) else
      pseq (sys_do (Bind sock (sock_addr (atoi (argv ! 1)) (htonl INADDR_ANY)))) (serve sock)))"

definition pipe_fork :: "unit prog \<Rightarrow> unit prog \<Rightarrow> int prog" where
  "pipe_fork parent child =
     pbind (sys_ret Fork) (\<lambda>pid.
     if pid < 0 then pipe_errquit ''fork fail''
     else pseq (if pid > 0 then parent else child) (pret 0))"

text \<open>\<open>pipe\<close> delivers the two descriptors.\<close>

definition pipe_main :: "string \<Rightarrow> string list \<Rightarrow> int prog" where
  "pipe_main junk argv =
     pipe_socket argv (\<lambda>sock.
     pbind (sys Pipe (\<lambda>r. (r_ret r, r_fds r))) (\<lambda>(r, fds).
     if r = -1 then pipe_errquit ''pipe fail '' else
     case fds of
       rd # wr # _ \<Rightarrow> pipe_fork (pipe_parent_start sock (rd, wr) junk) (pipe_child_start sock (rd, wr) junk)
     | _ \<Rightarrow> pfault OutOfBounds))"

definition EEXIST :: int where "EEXIST = 17"

definition fifo_main :: "string \<Rightarrow> string list \<Rightarrow> int prog" where
  "fifo_main junk argv =
     pipe_socket argv (\<lambda>sock.
     pbind (sys (MkFifo ''myfifo'') (\<lambda>r. (r_ret r, r_errno r))) (\<lambda>(r, errno).
     if r = -1 \<and> errno \<noteq> EEXIST then pipe_errquit ''mkfifo fail '' else
     pipe_fork (fifo_parent_start sock junk) (fifo_child_start sock junk)))"

section \<open>The message queue\<close>

text \<open>
  \<open>fork_and_exec\<close> returns in the child too when the program cannot be executed, so that it goes on
  as another server.
\<close>

definition fork_and_exec :: "string \<Rightarrow> string \<Rightarrow> unit prog" where
  "fork_and_exec key port =
     pbind (sys_ret Fork) (\<lambda>pid.
     if pid < 0 then pipe_errquit '' fork fail''
     else if pid > 0 then pret ()
     else pseq (sys_do (Exec ''res_send'' [''res_send'', key, port])) (perror ''execlp fail ''))"

text \<open>The message behind its type: the struct of the other servers.\<close>

definition msgq_iter :: "int \<Rightarrow> fd \<Rightarrow> string \<Rightarrow> (string, int) iter prog" where
  "msgq_iter msqid sock pmsg =
     pbind (recv_mesg sock pmsg) (\<lambda>(nbytes, pmsg).
     if nbytes < 0 then pseq (perror ''recvfrom fail '') (pret (Next pmsg)) else
     pbind (store pmsg (16 + nbytes) NUL) (\<lambda>pmsg.
     pbind (sys_ret (MsgSnd msqid pmsg)) (\<lambda>r.
     if r = -1 then pipe_errquit ''msgsnd fail '' else pret (Next pmsg))))"

definition msgq_main :: "string \<Rightarrow> string list \<Rightarrow> int prog" where
  "msgq_main junk argv =
     (if length argv \<noteq> 3 then pseq (printf ''Usage: %s  msgq_key  port\<newline>'' [S (hd (argv @ [[]]))]) (pexit 1) else
      pbind (sys_ret (MsgGet (atoi (argv ! 1)))) (\<lambda>msqid.
      if msqid = -1 then pipe_errquit ''msgget fail '' else
      pbind (sys_ret (Socket 2 2 0)) (\<lambda>sock.
      if sock < 0 then pipe_errquit ''socket fail '' else
      pbind (sys_ret (Bind sock (sock_addr (atoi (argv ! 2)) (htonl INADDR_ANY)))) (\<lambda>r.
      if r < 0 then pipe_errquit ''bind fail '' else
      pseq (fork_and_exec (argv ! 1) (argv ! 2))
     (pseq (fork_and_exec (argv ! 1) (argv ! 2))
     (pseq (fork_and_exec (argv ! 1) (argv ! 2))
     (pseq (printf ''Server starting....\<newline>'' [])
     (loop (msgq_iter msqid sock) junk))))))))"

section \<open>What arrives at the other side\<close>

lemma length_addr_bytes [simp]: "length (addr_bytes a) = 16"
  by (simp add: addr_bytes_def)

lemma addr_of_bytes:
  assumes "0 \<le> sin_family a" "sin_family a < 65536"
  shows "addr_of (addr_bytes a @ m) = a"
proof -
  have f: "uint (word_of_int (sin_family a) :: u16) = sin_family a"
    using assms by (simp add: unsigned_of_int take_bit_int_eq_self)
  have l: "le16 (ucast (w::u16)) (ucast (drop_bit 8 w)) = w" for w
    by (rule le16_put16) (simp add: put16_def)
  have "bytes_of (take 8 (addr_bytes a @ m)) = put16 (word_of_int (sin_family a)) @ put16 (sin_port a) @ put32 (sin_addr a)"
    by (simp add: addr_bytes_def)
  then show ?thesis
    using get32_put32 [of "sin_addr a" "[]"] by (simp add: addr_of_def put16_def l f)
qed

lemma c_str_terminated: "c_str (t @ NUL # m) = takeWhile (\<lambda>c. c \<noteq> NUL) t" "terminated (t @ NUL # m)"
  by (induction t) (auto simp: c_str_def terminated_def)

text \<open>The memory of a received datagram.\<close>

definition mesg_of :: "sockaddr_in \<Rightarrow> string \<Rightarrow> string \<Rightarrow> string" where
  "mesg_of a t pmsg = addr_bytes a @ t @ NUL # drop (17 + length t) pmsg"

lemma recv_mesg_run:
  assumes "length t \<le> 512" "length pmsg = 528"
  shows "recv_mesg sock pmsg (st (dgram t a # rs) tr fs) =
    (Val (int (length t), addr_bytes a @ t @ drop (16 + length t) pmsg), st rs (tr @ [RecvFrom sock 512]) fs)"
  using assms by (simp add: recv_mesg_def rrecvfrom_def MAX_BUFSZ_def overlay_def) (simp add: add.commute)

lemma update_mesg:
  assumes "length t < 512" "length pmsg = 528"
  shows "(addr_bytes a @ t @ drop (16 + length t) pmsg)[nat (16 + int (length t)) := NUL] = mesg_of a t pmsg"
proof -
  have n: "nat (16 + int (length t)) = 16 + length t" by simp
  have "drop (16 + length t) pmsg = pmsg ! (16 + length t) # drop (Suc (16 + length t)) pmsg"
    by (rule Cons_nth_drop_Suc [symmetric]) (use assms in simp)
  then show ?thesis by (simp add: mesg_of_def list_update_append n)
qed

text \<open>
  C39. The pipe carries the datagram and its sender. What the parent receives, up to 511
  characters, it writes to the pipe; when the child reads that message, it sends exactly the
  characters up to the first NUL back to the sender of the datagram, and both go on.
\<close>

theorem pipe_echo:
  assumes "length t < 512" "0 \<le> sin_family a" "sin_family a < 65536" "length pm = 528" "length cm = 528"
  shows "\<exists>m. pipe_parent_iter sock wr pm (st (dgram t a # rc 528 # rs) [] fs) =
      (Val (Next m), st rs [RecvFrom sock 512, Printf ''Parent : %d bytes recv from socket\<newline>'' [I (int (length t))], Write wr m,
        Printf ''Parent : write to pipe\<newline>'' [I (int (length t))]] fs) \<and> length m = 528 \<and>
    child_iter msg sock rd cm (st (data m # rc n # rs') [] fs') =
      (Val (Next m), st rs' [Read rd 528, Printf msg [I 528], SendTo sock (takeWhile (\<lambda>c. c \<noteq> NUL) t) a,
        Printf ''Child  : %d bytes echo response\<newline>'' [I n], Printf ''--------------------------------\<newline>'' []] fs')"
proof -
  let ?m = "mesg_of a t pm"
  have m: "length ?m = 528" using assms(1,4) by (simp add: mesg_of_def)
  have p: "pipe_parent_iter sock wr pm (st (dgram t a # rc 528 # rs) [] fs) =
      (Val (Next ?m), st rs [RecvFrom sock 512, Printf ''Parent : %d bytes recv from socket\<newline>'' [I (int (length t))], Write wr ?m,
        Printf ''Parent : write to pipe\<newline>'' [I (int (length t))]] fs)"
    using assms(1,4)
    by (simp add: pipe_parent_iter_def pbind_Val [where m = "recv_mesg sock pm", OF recv_mesg_run] update_mesg)
  have d: "mesg_data ?m = t @ NUL # drop (17 + length t) pm" by (simp add: mesg_data_def mesg_of_def)
  have a: "addr_of ?m = a" unfolding mesg_of_def by (rule addr_of_bytes [OF assms(2,3)])
  have o: "overlay cm 0 ?m = ?m" using m assms(5) by (simp add: overlay_0)
  have c: "child_iter msg sock rd cm (st (data ?m # rc n # rs') [] fs') =
      (Val (Next ?m), st rs' [Read rd 528, Printf msg [I 528], SendTo sock (takeWhile (\<lambda>c. c \<noteq> NUL) t) a,
        Printf ''Child  : %d bytes echo response\<newline>'' [I n], Printf ''--------------------------------\<newline>'' []] fs')"
    using m assms(5) by (simp add: child_iter_def mesg_size_def MAX_BUFSZ_def o d a c_str_terminated)
  show ?thesis using p c m by blast
qed

theorem pipe_echo_witness:
  "\<exists>m. pipe_parent_iter 3 5 (replicate 528 NUL) (st [dgram ''hello'' (sock_addr 4000 7), rc 528] [] Map.empty) =
      (Val (Next m), st [] [RecvFrom 3 512, Printf ''Parent : %d bytes recv from socket\<newline>'' [I 5], Write 5 m,
        Printf ''Parent : write to pipe\<newline>'' [I 5]] Map.empty)"
  using pipe_echo [where t = "''hello''" and a = "sock_addr 4000 7" and pm = "replicate 528 NUL" and cm = "replicate 528 NUL"
      and sock = 3 and wr = 5 and rs = "[]" and fs = Map.empty and msg = "[]" and rd = 4 and n = 5 and rs' = "[]" and fs' = Map.empty]
  by auto

text \<open>
  A full datagram of 512 characters has no room for the terminator, which is stored behind the
  struct, in all three servers.
\<close>

lemma pipe_overflow:
  assumes "length t = 512" "length pm = 528"
  shows "fst (pipe_parent_iter sock wr pm (st (dgram t a # rs) [] fs)) = Abort (Fault OutOfBounds)"
    "fst (fifo_parent_iter sock wr pm (st (dgram t a # rs) [] fs)) = Abort (Fault OutOfBounds)"
    "fst (msgq_iter wr sock pm (st (dgram t a # rs) [] fs)) = Abort (Fault OutOfBounds)"
  using assms recv_mesg_run [of t pm sock a rs "[]" fs]
  by (simp_all add: pipe_parent_iter_def fifo_parent_iter_def msgq_iter_def pbind_Val [where m = "recv_mesg sock pm"] store_bad)

text \<open>When the parent has ended, the reads return nothing and the child answers its last message again and again.\<close>

lemma child_repeats:
  assumes "length t < 512" "0 \<le> sin_family a" "sin_family a < 65536" "length pm = 528"
  shows "child_iter msg sock rd (mesg_of a t pm) (st (data [] # rc n # rs) [] fs) =
    (Val (Next (mesg_of a t pm)), st rs [Read rd 528, Printf msg [I 0], SendTo sock (takeWhile (\<lambda>c. c \<noteq> NUL) t) a,
      Printf ''Child  : %d bytes echo response\<newline>'' [I n], Printf ''--------------------------------\<newline>'' []] fs)"
  using assms addr_of_bytes [of a]
  by (simp add: child_iter_def mesg_size_def MAX_BUFSZ_def mesg_data_def mesg_of_def c_str_terminated)

end
