(* ===== verification/Demos.thy ===== *)
theory Demos
  imports EchoTcp Checksum Board
begin

text \<open>
  The demonstrations of single library calls: addresses and byte order, names and services, the
  directory, socket pairs, sockets, processes, signals and threads, and the first kernel module.
  The data bases of hosts and services are arguments.
\<close>

section \<open>Addresses and byte order\<close>

text \<open>tue/inet_aton/inet_aton.c\<close>

definition inet_aton_main :: "unit prog" where
  "inet_aton_main =
     (case inet_aton ''203.249.39.3'' of
        None \<Rightarrow> pfault OutOfBounds
      | Some inp \<Rightarrow>
          pseq (printf ''ip(dotted decimal)[%s] -> ip(binary)[0x%x]\<newline>'' [S ''203.249.39.3'', I (uint (htonl inp))])
               (printf ''ip(binary)[0x%x] -> ip(dotted decimal)[%s]\<newline>'' [I (uint (htonl inp)), S (inet_ntoa inp)]))"

text \<open>tue/byte_order/ordering.c and tue/ntoh_hton/ntoh_hton.c: the bytes of a short, as they lie in memory.\<close>

definition print_order :: "string \<Rightarrow> u16 \<Rightarrow> unit prog" where
  "print_order who d =
     (let ch = map (sint :: 8 word \<Rightarrow> int) (put16 d) in
      pseq (if ch ! 0 = 0x12 \<and> ch ! 1 = 0x34 then printf (who @ ''(big-endian) : '') []
            else if ch ! 1 = 0x12 \<and> ch ! 0 = 0x34 then printf (who @ ''(little-endian) : '') []
            else pret ())
           (printf ''0x%x%x\<newline>'' [I (ch ! 0), I (ch ! 1)]))"

definition ordering_main :: "unit prog" where
  "ordering_main = pseq (printf ''original data : 0x1234\<newline>'' []) (print_order ''host data'' 0x1234)"

definition ntoh_hton_main :: "unit prog" where
  "ntoh_hton_main =
     pseq (printf ''original data : 0x1234\<newline>'' [])
    (pseq (print_order ''host'' 0x1234)
     (let ch = map (sint :: 8 word \<Rightarrow> int) (put16 (htons 0x1234)) in
      printf ''network data(big-endian) : 0x%x%x\<newline>'' [I (ch ! 0), I (ch ! 1)]))"

section \<open>Data bases\<close>

text \<open>tue/getservent.c; the entries of the data base of services are an argument.\<close>

record servent =
  s_name :: string
  s_port :: u16
  s_proto :: string
  s_aliases :: "string list"

definition print_service :: "servent \<Rightarrow> unit prog" where
  "print_service p =
     pseq (printf (''%s'' @ CHR 0x09 # '' %d/%s '' @ [CHR 0x09]) [S (s_name p), I (uint (ntohs (s_port p))), S (s_proto p)])
    (pseq (pfor (s_aliases p) (\<lambda>a _. printf ''%s '' [S a]) ()) (printf ''\<newline>'' []))"

definition getservent_main :: "servent list \<Rightarrow> unit prog" where
  "getservent_main services = pfor services (\<lambda>p _. print_service p) ()"

text \<open>tue/gethostbyname/gethostbyname.c; the answer of the resolver is an argument.\<close>

record hostent =
  h_name :: string
  h_aliases :: "string list"
  h_addrtype :: int
  h_length :: int
  h_addr_list :: "string list"

definition print_address :: "string \<Rightarrow> unit prog" where
  "print_address a =
     (if length a < 4 then pfault OutOfBounds else
      let addr = get32 (bytes_of a) in
      printf ''address = %s(0x%x)\<newline>'' [S (inet_ntoa addr), I (uint (htonl addr))])"

definition gethostbyname_main :: "hostent option \<Rightarrow> unit prog" where
  "gethostbyname_main resolved =
     (case resolved of
        None \<Rightarrow> pseq (printf ''gethostbyname( ) error - check network\<newline>'' []) (pexit (-1))
      | Some host \<Rightarrow>
          pseq (printf ''official name = %s\<newline>'' [S (h_name host)])
         (pseq (pfor (h_aliases host) (\<lambda>a _. printf ''aliases = %s\<newline>'' [S a]) ())
         (pseq (printf ''address type = %d\<newline>'' [I (h_addrtype host)])
         (pseq (printf ''address length = %d\<newline>'' [I (h_length host)])
          (pfor (h_addr_list host) (\<lambda>a _. print_address a) ())))))"

text \<open>tue/list.c\<close>

definition list_iter :: "unit \<Rightarrow> (unit, unit) iter prog" where
  "list_iter _ =
     pbind (sys ReadDir (\<lambda>r. (r_ret r, r_data r))) (\<lambda>(ino, name).
     if ino < 0 then pret (Stop ())
     else if ino = 0 then pret (Next ())
     else pseq (printf ''%s\<newline>'' [S name]) (pret (Next ())))"

definition list_main :: "unit prog" where
  "list_main =
     pbind (sys_ret (OpenDir ''.'')) (\<lambda>dp.
     if dp < 0 then pseq (printf ''directory open error\<newline>'' []) (pexit (-1)) else
     pseq (loop list_iter ()) (emit (Close dp)))"

section \<open>Sockets\<close>

text \<open>tue/file_sock_open.c, tue/socket_open/sock_open.c and tue/bind_listen/bind_listen.c\<close>

definition file_sock_open_main :: "unit prog" where
  "file_sock_open_main =
     pbind (sys_ret (Open ''/etc/services'')) (\<lambda>d.
     pbind (sys_ret (Socket 2 1 0)) (\<lambda>sd.
     pseq (printf ''fd = [%d] \<newline>'' [I d]) (printf ''sd = [%d] \<newline>'' [I sd])))"

definition try_socket :: "int \<Rightarrow> int \<Rightarrow> string \<Rightarrow> string \<Rightarrow> int prog" where
  "try_socket type proto who msg =
     pbind (sys_ret (Socket 2 type proto)) (\<lambda>sd.
     pseq (if sd < 0 then perror (''socket( )-'' @ who) else printf (msg @ '' socket open = %d\<newline>'') [I sd])
     (pret sd))"

definition sock_open_main :: "unit prog" where
  "sock_open_main =
     pbind (try_socket 1 6 ''tcpSd1'' ''TCP'') (\<lambda>tcpSd1.
     pbind (try_socket 2 17 ''udpSd1'' ''UDP'') (\<lambda>udpSd1.
     pbind (try_socket 1 17 ''tcpSd2'' ''TCP'') (\<lambda>tcpSd2.
     pbind (try_socket 2 6 ''udpSd2'' ''UDP'') (\<lambda>udpSd2.
     pseq (emit (Close tcpSd1)) (pseq (emit (Close udpSd1)) (pseq (emit (Close tcpSd2)) (emit (Close udpSd2))))))))"

definition bind_listen_main :: "unit prog" where
  "bind_listen_main =
     pbind (sys_ret (Socket 2 1 0)) (\<lambda>s_socket.
     pbind (sys_ret (Bind s_socket (sock_addr 0 (inet_addr ''192.168.232.129'')))) (\<lambda>r.
     if r = -1 then printf ''Can not Bind\<newline>'' [] else
     pseq (sys_do (Listen s_socket 0))
     (loop (\<lambda>_. pseq (sys_do (Sleep 2)) (pret (Next ()))) ())))"

text \<open>
  tue/sockpair/sockpair.c and tue/sockpair/sockpair_fork.c; whether \<open>socketpair\<close> succeeds is not
  looked at, the two descriptors are what is in the array then.
\<close>

definition sockpair :: "fd \<times> fd \<Rightarrow> (fd \<times> fd) prog" where
  "sockpair junk = sys (SocketPair 1 1 0) (\<lambda>r. case r_fds r of a # b # _ \<Rightarrow> (a, b) | _ \<Rightarrow> junk)"

definition sockpair_main :: "fd \<times> fd \<Rightarrow> string \<Rightarrow> unit prog" where
  "sockpair_main junk buf =
     pbind (sockpair junk) (\<lambda>(sd0, sd1).
     pseq (sys_do (Write sd0 ''This is from sd[0]''))
    (pseq (printf ''[send] %s\<newline>'' [S ''This is from sd[0]''])
    (pbind (rread sd1 BUFSIZ) (\<lambda>(n2, d).
     pbind (deliver buf 0 d) (\<lambda>buf.
     pbind (store buf n2 NUL) (\<lambda>buf.
     pbind (cstring buf) (\<lambda>text.
     pseq (printf ''[received] %s\<newline>'' [S text])
    (pseq (emit (Close sd0)) (emit (Close sd1))))))))))"

definition read_and_print :: "string \<Rightarrow> int \<Rightarrow> fd \<Rightarrow> string \<Rightarrow> unit prog" where
  "read_and_print fmt mypid sd buf =
     pbind (rread sd BUFSIZ) (\<lambda>(n, d).
     pbind (deliver buf 0 d) (\<lambda>buf.
     pbind (cstring buf) (\<lambda>text. printf fmt [I mypid, S text])))"

text \<open>The strings are sent with their terminator.\<close>

definition sockpair_parent :: "int \<Rightarrow> fd \<times> fd \<Rightarrow> string \<Rightarrow> unit prog" where
  "sockpair_parent mypid sd buf =
     pseq (emit (Close (snd sd)))
    (pseq (read_and_print ''[parent:%d] %s\<newline>'' mypid (fst sd) buf)
    (pseq (sys_do (Write (fst sd) (''From Parent'' @ [NUL]))) (emit (Close (fst sd)))))"

definition sockpair_child :: "int \<Rightarrow> fd \<times> fd \<Rightarrow> string \<Rightarrow> unit prog" where
  "sockpair_child mypid sd buf =
     pseq (emit (Close (fst sd)))
    (pseq (sys_do (Write (snd sd) (''From Child'' @ [NUL])))
    (pseq (read_and_print ''[child:%d] %s\<newline>'' mypid (snd sd) buf) (emit (Close (snd sd)))))"

definition sockpair_fork_main :: "int \<Rightarrow> fd \<times> fd \<Rightarrow> string \<Rightarrow> unit prog" where
  "sockpair_fork_main mypid junk buf =
     pbind (sockpair junk) (\<lambda>sd.
     pbind (sys_ret Fork) (\<lambda>pid.
     if pid > 0 then sockpair_parent mypid sd buf
     else if pid = 0 then sockpair_child mypid sd buf
     else if pid = -1 then perror ''fork( )'' else pret ()))"

section \<open>Processes, signals and threads\<close>

text \<open>wen/fork/fork.c: the parent spins.\<close>

definition fork_main :: "int prog" where
  "fork_main =
     pbind (sys Fork (\<lambda>r. (r_ret r, r_errno r))) (\<lambda>(pid, errno).
     if pid > 0 then pabort Spin
     else if pid = 0 then pret 0
     else pseq (perror ''fork error'') (pret errno))"

text \<open>
  wen/fork/sigact.c: \<open>sleep\<close> returns early when Ctrl-C is pressed; the first time the handler runs
  and restores the old action, which the second time ends the process.
\<close>

definition sigact_handler :: "unit prog" where
  "sigact_handler = pseq (printf ''First Ctrl-C pressed !!\<newline>'' []) (emit (SigAction 2))"

definition sigact_iter :: "bool \<Rightarrow> (bool, unit) iter prog" where
  "sigact_iter caught =
     pseq (printf ''sigaction test\<newline>'' [])
    (pbind (sys_ret (Sleep 1)) (\<lambda>rest.
     if rest = 0 then pret (Next caught)
     else if caught then pexit (128 + 2)
     else pseq sigact_handler (pret (Next True))))"

definition sigact_main :: "unit prog" where
  "sigact_main = pseq (emit (SigAction 2)) (loop sigact_iter False)"

text \<open>
  wen/fork/wait_sigchld.c: the child ends with status 100; the parent's sleep is interrupted by the
  signal of its end, whose handler reports the status and ends the parent.
\<close>

definition sigchld_handler :: "int \<Rightarrow> unit prog" where
  "sigchld_handler n =
     pbind wait_for (\<lambda>(_, stat).
     pseq (printf ''signal ID [%d]\<newline>'' [I n])
    (pseq (if WIFEXITED stat then printf ''normal   termination, exit status [%d]\<newline>'' [I (WEXITSTATUS stat)]
           else if WIFSIGNALED stat then printf ''abnormal termination, signal number [%d]\<newline>'' [I (WTERMSIG stat)]
           else if WIFSTOPPED stat then printf ''child stopped, signal number [%d]\<newline>'' [I (WSTOPSIG stat)]
           else pret ())
     (pexit 1)))"

definition wait_sigchld_main :: "unit prog" where
  "wait_sigchld_main =
     pseq (emit (SigAction 17))
    (pbind (sys_ret Fork) (\<lambda>pid.
     if pid = 0 then pexit 100
     else if pid > 0 then pbind (sys_ret (Sleep 10)) (\<lambda>rest. if rest = 0 then pret () else sigchld_handler 17)
     else pret ()))"

text \<open>wen/thread/pthread_func.c and wen/thread/02.hellothreads.c\<close>

definition func_pthread :: "unit prog" where
  "func_pthread = loop (\<lambda>_. pseq (sys_do (Sleep 1)) (pseq (printf ''thread executing... \<newline>'' []) (pret (Next ())))) ()"

definition pthread_func_main :: "int prog" where
  "pthread_func_main =
     pbind (sys (ThreadCreate 0) (\<lambda>r. (r_ret r, r_errno r))) (\<lambda>(sts, tid).
     if sts \<noteq> 0 then pseq (perror ''pthread create error\<newline>'') (pexit 1) else
     pseq (printf ''thread %x is created\<newline>'' [I tid])
    (pseq (sys_do (Sleep 3)) (pseq (printf ''main function exit\<newline>'' []) (pret 0))))"

definition hello_thread :: "int \<Rightarrow> int prog" where
  "hello_thread arg =
     pseq (pfor [1, 2, 3] (\<lambda>i _. printf ''Thread %d: Hello, World(%d)!\<newline>'' [I arg, I i]) ()) (pret arg)"

definition hellothreads_main :: "unit prog" where
  "hellothreads_main =
     pseq (pfor [0, 1, 2] (\<lambda>i _. pbind (sys_ret (ThreadCreate i)) (\<lambda>status.
            if status \<noteq> 0 then pseq (perror ''thread create'') (pexit 1) else pret ())) ())
          (printf ''Main Thread End!!\<newline>'' [])"

section \<open>The kernel\<close>

text \<open>wen/led_driver/myapp.c calls two system calls of its own; thu/hello_module/hello_module.c.\<close>

definition myapp_main :: "int prog" where
  "myapp_main =
     pbind (sys_ret (Syscall 353)) (\<lambda>retval.
     pseq (printf ''\<newline> ret = %d\<newline>'' [I retval])
    (pbind (sys_ret (Syscall 354)) (\<lambda>retval.
     pseq (printf ''\<newline> ret = %d\<newline>'' [I retval]) (pret 0))))"

definition hello_init :: "'a board_scheme \<Rightarrow> int \<times> 'a board_scheme" where
  "hello_init s = (0, printk ''Hello,Linux World!!'' [] s)"

definition hello_exit :: "'a board_scheme \<Rightarrow> 'a board_scheme" where
  "hello_exit s = printk ''Goodbye,Cruel World!!'' [] s"

section \<open>What they show\<close>

text \<open>A little-endian host: the bytes of a short lie in memory the other way round than in the network.\<close>

lemma byte_order_shown:
  "ntoh_hton_main (st rs [] fs) =
    (Val (), st rs [Printf ''original data : 0x1234\<newline>'' [], Printf ''host(little-endian) : '' [],
       Printf ''0x%x%x\<newline>'' [I 0x34, I 0x12], Printf ''network data(big-endian) : 0x%x%x\<newline>'' [I 0x12, I 0x34]] fs)"
proof -
  have h: "map (sint :: 8 word \<Rightarrow> int) (put16 0x1234) = [0x34, 0x12]" by (simp add: put16_def)
  have "htons 0x1234 = 0x3412" by (simp add: htons_def)
  then have n: "map (sint :: 8 word \<Rightarrow> int) (put16 (htons 0x1234)) = [0x12, 0x34]" by (simp add: put16_def)
  show ?thesis by (simp add: ntoh_hton_main_def print_order_def h n Let_def pseq_pseq)
qed

text \<open>The dotted form that is printed at the end is the one the program began with.\<close>

lemma inet_demo: "fst (inet_aton_main (st rs [] fs)) = Val () \<and>
   (\<exists>b. trace (snd (inet_aton_main (st rs [] fs))) =
     [Printf ''ip(dotted decimal)[%s] -> ip(binary)[0x%x]\<newline>'' [S ''203.249.39.3'', I b],
      Printf ''ip(binary)[0x%x] -> ip(dotted decimal)[%s]\<newline>'' [I b, S ''203.249.39.3'']])"
proof -
  have p: "put32 0x327f9cb = [203, 249, 39, 3]" by (simp add: put32_def)
  have d: "dec 203 = ''203''" "dec 249 = ''249''" "dec 39 = ''39''" "dec 3 = ''3''" by code_simp+
  have n: "inet_ntoa 0x327f9cb = ''203.249.39.3''" by (simp add: inet_ntoa_def p d)
  then have "inet_aton ''203.249.39.3'' = Some 0x327f9cb" using inet_aton_ntoa [of "0x327f9cb"] by simp
  then show ?thesis by (simp add: inet_aton_main_def n)
qed

text \<open>
  Parent and child of the socket pair demonstration hear each other. What one writes, its
  terminator included, the other reads and prints, whatever was in its buffer before; each closes
  the end that is not its own first and its own last.
\<close>

theorem sockpair_exchange:
  assumes "length buf = BUFSIZ" "length buf' = BUFSIZ"
  shows "sockpair_child p (a, b) buf (st (rc 11 # data (''From Parent'' @ [NUL]) # rs) [] fs) =
      (Val (), st rs [Close a, Write b (''From Child'' @ [NUL]), Read b BUFSIZ, Printf ''[child:%d] %s\<newline>'' [I p, S ''From Parent''], Close b] fs) \<and>
    sockpair_parent q (a, b) buf' (st (data (''From Child'' @ [NUL]) # rc 12 # rs') [] fs') =
      (Val (), st rs' [Close b, Read a BUFSIZ, Printf ''[parent:%d] %s\<newline>'' [I q, S ''From Child''], Write a (''From Parent'' @ [NUL]), Close a] fs')"
proof -
  have r: "read_and_print fmt k d buf (st (data (t @ [NUL]) # rs) tr fs) = (Val (), st rs (tr @ [Read d BUFSIZ, Printf fmt [I k, S t]]) fs)"
    if "NUL \<notin> set t" "length t < BUFSIZ" "length buf = BUFSIZ" for fmt k d buf t rs tr fs
    using that cstring_append_NUL [of t "drop (Suc (length t)) buf"] by (simp add: read_and_print_def overlay_0)
  have t: "NUL \<notin> set ''From Parent''" "NUL \<notin> set ''From Child''" "length ''From Parent'' < BUFSIZ" "length ''From Child'' < BUFSIZ"
    by (simp_all add: BUFSIZ_def)
  show ?thesis
    using r [OF t(1,3) assms(1)] r [OF t(2,4) assms(2)]
    by (simp add: sockpair_child_def sockpair_parent_def pseq_Val [where m = "read_and_print f k d b" for f k d b])
qed

lemma sockpair_exchange_witness:
  "fst (sockpair_child 7 (3, 4) (replicate BUFSIZ NUL) (st [rc 11, data (''From Parent'' @ [NUL])] [] Map.empty)) = Val ()"
  using sockpair_exchange [of "replicate BUFSIZ NUL" "replicate BUFSIZ NUL" 7 3 4 "[]" Map.empty] by simp

end
