(* ===== verification/Spec2Isabelle.thy ===== *)
theory Spec2Isabelle
  imports Ping PortScan FileTransfer LineServer EchoTcp SelectServer Udp LedControl S3cPm MutexDemo Talk TimerDriver SignalApps Pipes Demos
begin

text \<open>
  The programs of the repository and the kernel below them.

  The repository holds small network programs and device drivers, in the directories \<open>mon\<close>,
  \<open>tue\<close>, \<open>wen\<close>, \<open>thu\<close> and \<open>fri\<close>, and, in \<open>fri/keybutton-gpio\<close>, the source tree of Linux 2.6.24 for
  the EL2440 board (an S3C2440) on which the drivers run. All programs and drivers of the
  repository are modelled. Of the kernel those parts are modelled on which the drivers rest.
  Programs meet in three ways: two processes talk over a connection, a process opens a driver's
  device, and a driver uses the registry of devices, the interrupt lines and the timers of the
  kernel, and signals a process.

  \<^bold>\<open>User processes.\<close> A process is a state-passing program (theory Process): every system call
  takes the next reply of a script and is logged, with its arguments, in the trace; files are a map.
  Replies are arbitrary, so a statement for all scripts is one for whatever the operating system
  answers; calls whose outcome the code cannot see are only logged. A program ends with a value,
  with \<open>Exit\<close>, with \<open>Blocked\<close> (the script is used up, the process waits), with \<open>Spin\<close> (a round of a
  loop consumed no reply) or with \<open>Fault\<close> (a store outside an array, a string without its
  terminator, a null pointer, a wrong free). Local arrays and variables are values passed through,
  static ones a record per program.

  \<^item> NetPrelude: C types, C strings, byte order, the collections of hints. Process: the monad,
    loops, weakest preconditions. Libc: decimal numerals, \<open>atoi\<close>, addresses in text form. Sockets: the
    calls with which every program starts.
  \<^item> Checksum: \<open>in_cksum\<close> and \<open>cksum_in\<close> against the ones' complement sum; locale
    \<open>internet_checksum\<close>, interpreted on both. Ping: fri/raw. PortScan: fri/port_stat, fri/read.
  \<^item> FileTransfer: tue/file_transfer/hw1 and thu/hw2, both ends; locale \<open>file_receiver\<close>,
    interpreted on both receiving loops. LineServer: mon, tue/ls_srv_client, tue/echo,
    tue/file_transfer/client and server, wen/fork/echo_client.c. EchoTcp: thu/echo_thread,
    fri/sock_opt, the forking servers of wen/fork, thu/select/echo_client.c; locale \<open>echo_service\<close>,
    interpreted on the thread and on both processes. SelectServer: thu/select/echo_server_select.c.
    Udp: wen/udp, wen/udp_alarm, wen/udp_connect, the broadcast pair. Pipes: fri/pipe, fri/fifo,
    fri/msgq. Talk: wen/talk, thu/talk_thread, fri/homework. MutexDemo: wen/mutex, as a relation of
    interleaved steps. Demos: the programs that show one call each.
  \<^item> LedControl: the programs that write to the LED devices, and both ends of the network control
    of fri/ledok and thu/homework. SignalApps: the programs that the timer and the key driver signal.

  \<^bold>\<open>The kernel and the drivers.\<close> The board is one record, which each theory extends by its part.

  \<^item> CharDev: fs/char_dev.c and drivers/base/map.c, the chains of number regions and the map that
    \<open>open\<close> consults; locale \<open>number_space\<close>. Board: port F, the log, signals, \<open>kmalloc\<close>. LedDriver:
    thu/led, thu/homework, fri/ledok, thu/mydrv-copy_to_user.
  \<^item> Irq: kernel/irq/manage.c, handle.c, resend.c, spurious.c and the edge flow of chip.c; locale
    \<open>interrupt_lines\<close>. IrqFlow: the level and the simple flow, \<open>__ffs\<close>. S3cIrq: the board's interrupt
    controller (arch/arm/plat-s3c24xx/irq.c, include/asm-arm/plat-s3c24xx/irq.h, the S3C2440 parts,
    arch/arm/kernel/irq.c). The functions of Irq log the calls of a chip's operations in \<open>chip_ops\<close>,
    and \<open>chip_sync\<close> carries them out on the registers; locale \<open>chip_blind\<close> says of a component of the
    state that no chip changes it. S3cPm: the lines that wake the board, \<open>s3c2410_pm_enter\<close> up to the
    sleep, suspend and resume.
  \<^item> KeyButton: fri/signal_keybutton/el2440_key.c and fri/keybutton-gpio. KeyPress: the lines after
    boot, the key driver on them, and what an edge at a key's pin does.
  \<^item> TimerWheel: kernel/timer.c; locales \<open>timer_callbacks\<close> and \<open>timer_users\<close>, the contract of the
    functions the wheel calls. TimerDriver: fri/kernelTimer/el2440_led.c, which interprets the first
    one on its own function.
\<close>

text \<open>
  \<^bold>\<open>What is shown.\<close>

  \<^item> From end to end: a transfer, resumed or not, leaves the client's file at the server (hw1, hw2);
    what is typed comes back from the echo servers, TCP, UDP and over the pipe; what is pressed at the
    LED client is what the driver shows; a message reaches everyone else in the room; the timer
    program counts its signals; from the boot to the signal of a key through the controller's
    registers.
  \<^item> Invariants: the registry's chains are ordered and disjoint except for the overlap the code
    misses; a line is shared only by agreement; the select server's table and its connections account
    for each other; the wheel keeps its shape; every line is wired at boot; the counter under the
    mutex.
  \<^item> Exact behaviour: every branch of the registry's operations, of \<open>setup_irq\<close>, of the LED
    drivers' write and of \<open>s3c_irqext_type\<close>; the demultiplexers call exactly what is pending and not
    masked; a timer runs in its tick; the board sleeps when something can wake it; the checksums
    compute the Internet checksum, and a probe carries valid ones.
  \<^item> Round trips: register and unregister, request and free, the failing \<open>register_chrdev_region\<close>
    and the state before, suspend and resume, the time stamp of a ping.
  \<^item> Safety and termination: the file server and the ping never leave their buffers; the mutex
    demonstration ends; an edge that arrives while its line is disabled is not lost.
  \<^item> Errors of the code, as theorems: the overlap that is missed, the foreign line the key driver
    frees, the timer that is linked twice, the buffer the echo client leaves behind, the server that
    exits with its first child, the datagram that overflows the message.

  \<^bold>\<open>Bounds.\<close> A \<open>loop\<close> ends because each round consumes a reply; one that does not is \<open>Spin\<close>. The
  loops over majors have 4097 rounds, for there are 4096 majors. \<open>edge_loop\<close> has the number of rounds as
  its argument; one is enough where no interrupt arrives while the handlers run, which is shown for the
  keys. \<open>desc_handle_irq\<close> nests at most twice, since no source of a demultiplexer is a demultiplexer.
  \<open>clear_pending\<close> has the four rounds of the code. \<open>run_timers\<close> needs one round for each missed tick,
  \<open>lag\<close>, and \<open>run_work\<close> ends because a callback takes timers only away from the list being run;
  both are proved, with that contract of the callbacks, in \<open>timer_callbacks\<close> and \<open>timer_users\<close>.

  \<^bold>\<open>Parameters.\<close> The replies of the environment; the driver core, which calls the probe and the
  removal of a platform driver; the handlers an action names, and the functions a timer names, as
  functions from the name and the data; the answers of the resolver and of the services' data base.

  \<^bold>\<open>Not modelled.\<close> The rest of the Linux tree, which no program here calls. The sources
  that the kernel build writes (*.mod.c). thu/talk_thread/talk_client_without_pthread.c, which uses an
  undeclared array and does not compile. Of the modelled kernel files: locks, for each operation runs
  under its own; other processors and what belongs to them (affinity, deferred timers, hotplug);
  reference counts of modules and devices; listings in /proc; the flows of controllers this board has
  none of; probing for lines; of sleeping, the state of the processor, the clocks, the memory and the
  UARTs. Floating point (the printed round trip time) is not modelled either.
\<close>

end
